(* ===== verification/Prelude.thy ===== *)
theory Prelude
  imports Main "HOL-Library.Word"
begin

text \<open>
  Shared vocabulary of the development: machine integers, the error type every fallible
  operation returns, the sequencing of fallible operations, raw memory as a list of bytes,
  and the object representation of unsigned integers as bytes.  The lemma collections
  \<open>res_simps\<close> (sequencing), \<open>mem_simps\<close> (memory copies) and \<open>byte_simps\<close> (byte
  encodings) carry the proofs of the component theories.
\<close>

unbundle bit_operations_syntax

named_theorems res_simps
named_theorems mem_simps
named_theorems byte_simps

section \<open>Machine integers and errors\<close>

type_synonym byte = "8 word"
type_synonym u32 = "32 word"
type_synonym u64 = "64 word"

text \<open>
  What a C++ operation of the program can end with instead of a value: an exception
  (\<open>std::runtime_error\<close> with its text, \<open>std::length_error\<close>, \<open>std::bad_alloc\<close> and the conversion errors of
  \<open>std::stoi\<close>), a failed \<open>assert\<close> (the build does not define \<open>NDEBUG\<close>), \<open>std::terminate\<close>, or undefined
  behaviour, which the model makes an error so that a proof of success excludes it.
\<close>

datatype cxx_error =
    Runtime_Error string
  | Length_Error
  | Bad_Alloc
  | Invalid_Argument
  | Out_Of_Range
  | Assert_Failed string
  | Std_Terminate
  | Undefined_Behaviour string

type_synonym 'a result = "cxx_error + 'a"

fun rbind :: "'a result \<Rightarrow> ('a \<Rightarrow> 'b result) \<Rightarrow> 'b result" where
  "rbind (Inl e) f = Inl e"
| "rbind (Inr x) f = f x"

definition cxx_assert :: "string \<Rightarrow> bool \<Rightarrow> 'a result \<Rightarrow> 'a result" where
  "cxx_assert what b k = (if b then k else Inl (Assert_Failed what))"

lemma cxx_assert_True [res_simps, simp]: "b \<Longrightarrow> cxx_assert w b k = k"
  by (simp add: cxx_assert_def)

lemma cxx_assert_False [simp]: "\<not> b \<Longrightarrow> cxx_assert w b k = Inl (Assert_Failed w)"
  by (simp add: cxx_assert_def)

lemma cxx_assert_Inr [res_simps]: "cxx_assert w b k = Inr x \<longleftrightarrow> b \<and> k = Inr x"
  by (simp add: cxx_assert_def)

lemma rbind_Inr [res_simps]: "rbind m f = Inr y \<longleftrightarrow> (\<exists>x. m = Inr x \<and> f x = Inr y)"
  by (cases m) auto

lemma rbind_Inl: "rbind m f = Inl e \<longleftrightarrow> m = Inl e \<or> (\<exists>x. m = Inr x \<and> f x = Inl e)"
  by (cases m) auto

lemma rbind_return [simp]: "rbind m Inr = m"
  by (cases m) auto

lemma rbind_assoc: "rbind (rbind m f) g = rbind m (\<lambda>x. rbind (f x) g)"
  by (cases m) auto

text \<open>Running a fallible step over a list, left to right, stopping at the first error.\<close>

fun rfold :: "('a \<Rightarrow> 's \<Rightarrow> 's result) \<Rightarrow> 'a list \<Rightarrow> 's \<Rightarrow> 's result" where
  "rfold f [] s = Inr s"
| "rfold f (x # xs) s = rbind (f x s) (rfold f xs)"

lemma rfold_append: "rfold f (xs @ ys) s = rbind (rfold f xs s) (rfold f ys)"
proof (induction xs arbitrary: s)
  case (Cons x xs)
  then show ?case by (cases "f x s") simp_all
qed simp

text \<open>
  The same for operations that may also wait for ever (\<open>None\<close>): a blocking call of the
  operating system, or a loop that spins on another process.  The error is a parameter: an
  operation on a world \<open>'w\<close> outside of the program tells with its error what the world was then.
\<close>

fun obind :: "('e + 'a) option \<Rightarrow> ('a \<Rightarrow> ('e + 'b) option) \<Rightarrow> ('e + 'b) option" where
  "obind None f = None"
| "obind (Some (Inl e)) f = Some (Inl e)"
| "obind (Some (Inr x)) f = f x"

fun ofold :: "('a \<Rightarrow> 's \<Rightarrow> ('e + 's) option) \<Rightarrow> 'a list \<Rightarrow> 's \<Rightarrow> ('e + 's) option" where
  "ofold f [] s = Some (Inr s)"
| "ofold f (x # xs) s = obind (f x s) (ofold f xs)"

type_synonym ('a, 'w) outcome = "((cxx_error \<times> 'w) + 'a) option"

text \<open>An operation that leaves the world alone.\<close>

fun at_world :: "'w \<Rightarrow> 'a result \<Rightarrow> (cxx_error \<times> 'w) + 'a" where
  "at_world w (Inl e) = Inl (e, w)"
| "at_world w (Inr x) = Inr x"

abbreviation in_world :: "'w \<Rightarrow> 'a result \<Rightarrow> ('a, 'w) outcome" where
  "in_world w r \<equiv> Some (at_world w r)"

lemma at_world_Inr [res_simps]: "at_world w r = Inr x \<longleftrightarrow> r = Inr x"
  by (cases r) auto

lemma at_world_Inl: "at_world w r = Inl (e, w') \<longleftrightarrow> r = Inl e \<and> w' = w"
  by (cases r) auto

lemma obind_Inr [res_simps]: "obind m f = Some (Inr y) \<longleftrightarrow> (\<exists>x. m = Some (Inr x) \<and> f x = Some (Inr y))"
  by (cases m; cases "the m") auto

lemma obind_return [simp]: "obind m (\<lambda>x. Some (Inr x)) = m"
  by (cases m; cases "the m") auto

lemma obind_assoc: "obind (obind m f) g = obind m (\<lambda>x. obind (f x) g)"
  by (cases m; cases "the m") auto

lemma obind_mono [partial_function_mono]:
  assumes "mono_option B" and "\<And>y. mono_option (\<lambda>f. C y f)"
  shows "mono_option (\<lambda>f. obind (B f) (\<lambda>y. C y f))"
proof (rule monotoneI, goal_cases)
  case (1 f g)
  from assms(1) 1 have B: "option_ord (B f) (B g)" unfolding monotone_on_def by blast
  from assms(2) 1 have C: "option_ord (C y f) (C y g)" for y unfolding monotone_on_def by blast
  show ?case
  proof (cases "B f")
    case None
    then show ?thesis by (simp add: flat_ord_def)
  next
    case (Some r)
    with B have "B g = Some r" by (simp add: flat_ord_def)
    with Some C show ?thesis by (cases r) (simp_all add: flat_ord_def)
  qed
qed

text \<open>Arithmetic on \<open>int64_t\<close> is arithmetic on integers whose result must be in range.\<close>

definition i64 :: "int \<Rightarrow> int result" where
  "i64 x = (if - (2 ^ 63) \<le> x \<and> x < 2 ^ 63 then Inr x else Inl (Undefined_Behaviour ''signed overflow''))"

lemma i64_ok [simp]: "- (2 ^ 63) \<le> x \<Longrightarrow> x < 2 ^ 63 \<Longrightarrow> i64 x = Inr x"
  by (simp add: i64_def)

text \<open>A \<open>std::chrono::time_point\<close> is its count of ticks since the epoch, an \<open>int64_t\<close>.\<close>

datatype time_point = time_point (time_since_epoch: "64 word")

section \<open>Memory\<close>

text \<open>The bytes of a string literal.\<close>

definition text_bytes :: "string \<Rightarrow> byte list" where
  "text_bytes s = map of_char s"

lemma length_text_bytes [simp]: "length (text_bytes s) = length s"
  by (simp add: text_bytes_def)

text \<open>
  A memory region is a list of bytes, addressed by offset.  \<open>mem_read\<close> and \<open>mem_write\<close>
  are the source and the destination side of a \<open>memcpy\<close>; an access outside of the region
  is undefined behaviour.
\<close>

definition mem_read :: "nat \<Rightarrow> nat \<Rightarrow> byte list \<Rightarrow> byte list result" where
  "mem_read off n mem =
     (if off + n \<le> length mem then Inr (take n (drop off mem))
      else Inl (Undefined_Behaviour ''read out of range''))"

definition splice :: "nat \<Rightarrow> 'a list \<Rightarrow> 'a list \<Rightarrow> 'a list" where
  "splice off src mem = take off mem @ src @ drop (off + length src) mem"

definition mem_write :: "nat \<Rightarrow> byte list \<Rightarrow> byte list \<Rightarrow> byte list result" where
  "mem_write off src mem =
     (if off + length src \<le> length mem then Inr (splice off src mem)
      else Inl (Undefined_Behaviour ''write out of range''))"

lemma mem_read_ok [mem_simps]:
  "off + n \<le> length mem \<Longrightarrow> mem_read off n mem = Inr (take n (drop off mem))"
  by (simp add: mem_read_def)

lemma mem_write_ok [mem_simps]:
  "off + length src \<le> length mem \<Longrightarrow> mem_write off src mem = Inr (splice off src mem)"
  by (simp add: mem_write_def)

lemma length_splice [simp]: "off + length src \<le> length mem \<Longrightarrow> length (splice off src mem) = length mem"
  by (simp add: splice_def)

lemma splice_Nil [simp]: "off \<le> length mem \<Longrightarrow> splice off [] mem = mem"
  by (simp add: splice_def)

lemma nth_splice:
  assumes "off + length src \<le> length mem" and "i < length mem"
  shows "splice off src mem ! i =
     (if off \<le> i \<and> i < off + length src then src ! (i - off) else mem ! i)"
  using assms by (auto simp: splice_def nth_append min_def)

lemma take_splice_le [mem_simps]:
  "n \<le> off \<Longrightarrow> off \<le> length mem \<Longrightarrow> take n (splice off src mem) = take n mem"
  by (simp add: splice_def)

lemma read_splice_same [mem_simps]:
  "off \<le> length mem \<Longrightarrow> n = length src \<Longrightarrow> take n (drop off (splice off src mem)) = src"
  by (simp add: splice_def)

lemma take_splice_end [mem_simps]:
  "off + length src \<le> length mem \<Longrightarrow> n = off + length src \<Longrightarrow>
   take n (splice off src mem) = take off mem @ src"
  by (simp add: splice_def)

lemma splice_splice [mem_simps]:
  assumes "off + length xs + length ys \<le> length mem" and "off' = off + length xs"
  shows "splice off' ys (splice off xs mem) = splice off (xs @ ys) mem"
  using assms by (simp add: splice_def ac_simps)

lemma take_drop_app: "i + j \<le> length xs \<Longrightarrow> take i xs @ take j (drop i xs) = take (i + j) xs"
  by (simp add: take_add)

section \<open>Integers as bytes\<close>

text \<open>
  The bytes of an \<open>n\<close>-byte unsigned integer, least significant first, and back.
\<close>

fun le_bytes :: "nat \<Rightarrow> nat \<Rightarrow> byte list" where
  "le_bytes 0 x = []"
| "le_bytes (Suc n) x = of_nat x # le_bytes n (x div 256)"

fun le_nat :: "byte list \<Rightarrow> nat" where
  "le_nat [] = 0"
| "le_nat (b # bs) = unat b + 256 * le_nat bs"

lemma length_le_bytes [simp]: "length (le_bytes n x) = n"
  by (induction n arbitrary: x) auto

lemma le_nat_le_bytes [byte_simps]: "x < 256 ^ n \<Longrightarrow> le_nat (le_bytes n x) = x"
proof (induction n arbitrary: x)
  case (Suc n)
  then have "x div 256 < 256 ^ n"
    by (simp add: div_less_iff_less_mult)
  then show ?case
    by (simp add: Suc.IH unat_of_nat)
qed simp

lemma le_nat_bound: "le_nat bs < 256 ^ length bs"
proof (induction bs)
  case (Cons b bs)
  have "unat b < 256"
    using unsigned_less [of b] by simp
  with Cons show ?case by simp
qed simp

lemma le_bytes_le_nat [byte_simps]: "n = length bs \<Longrightarrow> le_bytes n (le_nat bs) = bs"
proof (induction bs arbitrary: n)
  case (Cons b bs)
  have b: "unat b < 256"
    using unsigned_less [of b] by simp
  then have "(unat b + 256 * le_nat bs) div 256 = le_nat bs" by simp
  moreover have "(of_nat (unat b + 256 * le_nat bs) :: byte) = b"
  proof (rule unsigned_word_eqI)
    show "unat (of_nat (unat b + 256 * le_nat bs) :: byte) = unat b"
      using b by (simp add: unat_of_nat del: of_nat_add of_nat_mult)
  qed
  ultimately show ?case
    using Cons by (simp del: of_nat_add of_nat_mult)
qed simp

lemma le_bytes_numeral:
  "le_bytes (numeral k) x = of_nat x # le_bytes (pred_numeral k) (x div 256)"
  by (simp only: numeral_eq_Suc [of k] le_bytes.simps)

lemma unat_of_nat_small [simp]:
  "x < 2 ^ LENGTH('a::len) \<Longrightarrow> unat (of_nat x :: 'a word) = x"
  by (simp add: unat_of_nat)

lemma ucast_of_nat_u64 [simp]: "n < 2 ^ 32 \<Longrightarrow> (ucast (of_nat n :: u32) :: u64) = of_nat n"
proof (rule unsigned_word_eqI)
  assume "n < 2 ^ 32"
  then show "unat (ucast (of_nat n :: u32) :: u64) = unat (of_nat n :: u64)"
    by (simp add: unsigned_ucast_eq take_bit_eq_mod)
qed

lemma ucast_of_nat_u32 [simp]: "(ucast (of_nat n :: u64) :: u32) = of_nat n"
proof (rule unsigned_word_eqI)
  show "unat (ucast (of_nat n :: u64) :: u32) = unat (of_nat n :: u32)"
    by (simp add: unsigned_ucast_eq take_bit_eq_mod unat_of_nat mod_mod_cancel)
qed

lemma ucast_u32_mod: "(ucast (w :: u64) :: u32) = of_nat (unat w mod 2 ^ 32)"
proof -
  have "(ucast w :: u32) = of_nat (unat w)" using ucast_of_nat_u32 [of "unat w"] by simp
  moreover have "(of_nat (unat w) :: u32) = of_nat (unat w mod 2 ^ 32)"
    by (simp only: word_of_nat_eq_iff take_bit_eq_mod) simp
  ultimately show ?thesis by simp
qed

lemma u64_le [simp]: "a < 2 ^ 64 \<Longrightarrow> b < 2 ^ 64 \<Longrightarrow> (of_nat a :: u64) \<le> of_nat b \<longleftrightarrow> a \<le> b"
  by (simp add: word_le_nat_alt)

lemma u64_less [simp]: "a < 2 ^ 64 \<Longrightarrow> b < 2 ^ 64 \<Longrightarrow> (of_nat a :: u64) < of_nat b \<longleftrightarrow> a < b"
  by (simp add: word_less_nat_alt)

end
