(* ===== verification/Interfaces.thy ===== *)
theory Interfaces
  imports Prelude
begin

text \<open>
  The interfaces (\<open>src/src/interface\<close>, the \<open>interface\<close> directories of the components, and \<open>src/tests/other\<close>): a class template over its
  implementation, whose methods are declared by macros.  A method forwards to the implementation or, when that
  is a mock, to a function mocker of its own, which the store of the interface keeps under the method's name.  Google
  Mock is a parameter: the states of its function mockers and what its calls make of them.
\<close>

section \<open>Types and declarations\<close>

datatype cxx_type =
    Type_Name string
  | Template string "cxx_type list"
  | Const cxx_type
  | Pointer cxx_type
  | Reference cxx_type

text \<open>The template parameters of a method replaced by the arguments of an instance.\<close>

primrec instantiate :: "(string \<times> cxx_type) list \<Rightarrow> cxx_type \<Rightarrow> cxx_type" where
  "instantiate targs (Type_Name x) = (case map_of targs x of None \<Rightarrow> Type_Name x | Some t \<Rightarrow> t)"
| "instantiate targs (Template x ts) = Template x (map (instantiate targs) ts)"
| "instantiate targs (Const t) = Const (instantiate targs t)"
| "instantiate targs (Pointer t) = Pointer (instantiate targs t)"
| "instantiate targs (Reference t) = Reference (instantiate targs t)"

text \<open>An argument of a macro: an identifier, a type, or a list in parentheses.\<close>

datatype macro_arg = Ident string | Type cxx_type | Parens "macro_arg list"

fun is_parens :: "macro_arg \<Rightarrow> bool" where
  "is_parens (Parens xs) = True"
| "is_parens _ = False"

fun in_parens :: "macro_arg \<Rightarrow> macro_arg list" where
  "in_parens (Parens xs) = xs"
| "in_parens x = [x]"

fun arg_ident :: "macro_arg \<Rightarrow> string" where
  "arg_ident (Ident x) = x"
| "arg_ident _ = []"

fun arg_type :: "macro_arg \<Rightarrow> cxx_type" where
  "arg_type (Type t) = t"
| "arg_type (Ident x) = Type_Name x"
| "arg_type (Parens xs) = (case xs of [Type t] \<Rightarrow> t | _ \<Rightarrow> Type_Name [])"

record method_decl =
  md_template :: "string list"
  md_ret :: cxx_type
  md_name :: string
  md_args :: "cxx_type list"
  md_spec :: "string list"
  md_line :: nat

text \<open>
  The macros: overloaded on the number of their arguments, with static assertions on their form.  Which specifiers and which
  signatures, with their number of arguments, Google Mock accepts is a parameter.
\<close>

record static_checks =
  valid_spec :: "string \<Rightarrow> bool"
  valid_signature :: "nat \<Rightarrow> cxx_type \<times> cxx_type list \<Rightarrow> bool"

definition DECLARE_METHOD_4 ::
  "static_checks \<Rightarrow> nat \<Rightarrow> macro_arg \<Rightarrow> macro_arg \<Rightarrow> macro_arg \<Rightarrow> macro_arg \<Rightarrow> method_decl result" where
  "DECLARE_METHOD_4 V line ret name args spec =
     cxx_assert ''_Args enclosed by parenthesis'' (is_parens args)
    (cxx_assert ''_Spec enclosed by parenthesis'' (is_parens spec)
    (cxx_assert ''valid signature'' (valid_signature V (length (in_parens args)) (arg_type ret, map arg_type (in_parens args)))
    (cxx_assert ''valid spec'' (list_all (valid_spec V) (map arg_ident (in_parens spec)))
    (Inr \<lparr>md_template = [], md_ret = arg_type ret, md_name = arg_ident name, md_args = map arg_type (in_parens args),
       md_spec = map arg_ident (in_parens spec), md_line = line\<rparr>))))"

definition DECLARE_METHOD :: "static_checks \<Rightarrow> nat \<Rightarrow> macro_arg list \<Rightarrow> method_decl result" where
  "DECLARE_METHOD V line args =
     (case args of
        [ret, name, params] \<Rightarrow> DECLARE_METHOD_4 V line ret name params (Parens [])
      | [ret, name, params, spec] \<Rightarrow> DECLARE_METHOD_4 V line ret name params spec
      | _ \<Rightarrow> Inl (Assert_Failed ''DECLARE_METHOD must be called with 3 or 4 arguments''))"

definition DECLARE_TEMPLATE_METHOD_5 ::
  "static_checks \<Rightarrow> nat \<Rightarrow> macro_arg \<Rightarrow> macro_arg \<Rightarrow> macro_arg \<Rightarrow> macro_arg \<Rightarrow> macro_arg \<Rightarrow> method_decl result" where
  "DECLARE_TEMPLATE_METHOD_5 V line template_spec ret name args spec =
     cxx_assert ''_Args enclosed by parenthesis'' (is_parens args)
    (cxx_assert ''_Spec enclosed by parenthesis'' (is_parens spec)
    (cxx_assert ''_TemplateSpec enclosed by parenthesis'' (is_parens template_spec)
    (cxx_assert ''valid spec'' (list_all (valid_spec V) (map arg_ident (in_parens spec)))
    (Inr \<lparr>md_template = map arg_ident (in_parens template_spec), md_ret = arg_type ret, md_name = arg_ident name,
       md_args = map arg_type (in_parens args), md_spec = map arg_ident (in_parens spec), md_line = line\<rparr>))))"

definition DECLARE_TEMPLATE_METHOD :: "static_checks \<Rightarrow> nat \<Rightarrow> macro_arg list \<Rightarrow> method_decl result" where
  "DECLARE_TEMPLATE_METHOD V line args =
     (case args of
        [template_spec, ret, name, params] \<Rightarrow> DECLARE_TEMPLATE_METHOD_5 V line template_spec ret name params (Parens [])
      | [template_spec, ret, name, params, spec] \<Rightarrow> DECLARE_TEMPLATE_METHOD_5 V line template_spec ret name params spec
      | _ \<Rightarrow> Inl (Assert_Failed ''DECLARE_TEMPLATE_METHOD must be called with 4 or 5 arguments''))"

text \<open>The parts of the specifiers that are passed on.\<close>

definition GET_CONST_SPEC :: "string list \<Rightarrow> string list" where
  "GET_CONST_SPEC spec = filter (\<lambda>s. s = ''const'') spec"

definition GET_OVERRIDE_SPEC :: "string list \<Rightarrow> string list" where
  "GET_OVERRIDE_SPEC spec = filter (\<lambda>s. s = ''override'') spec"

definition GET_FINAL_SPEC :: "string list \<Rightarrow> string list" where
  "GET_FINAL_SPEC spec = filter (\<lambda>s. s = ''final'') spec"

text \<open>An interface is the list of its declarations, with the lines they stand on.\<close>

datatype interface_line = Method nat "macro_arg list" | Template_Method nat "macro_arg list"

fun declare_one :: "static_checks \<Rightarrow> interface_line \<Rightarrow> method_decl result" where
  "declare_one V (Method line args) = DECLARE_METHOD V line args"
| "declare_one V (Template_Method line args) = DECLARE_TEMPLATE_METHOD V line args"

fun INTERFACE :: "static_checks \<Rightarrow> interface_line list \<Rightarrow> method_decl list result" where
  "INTERFACE V [] = Inr []"
| "INTERFACE V (d # ds) =
     rbind (declare_one V d) (\<lambda>m. rbind (INTERFACE V ds) (\<lambda>ms. Inr (m # ms)))"

section \<open>Mocks\<close>

text \<open>A class with its bases; \<open>MockProbe\<close> picks the overload for \<open>Mock\<close> when there is one among them.\<close>

datatype cxx_class = cxx_class (class_name: string) (class_bases: "cxx_class list")

fun IsMock :: "cxx_class \<Rightarrow> bool" where
  "IsMock (cxx_class n bases) \<longleftrightarrow> n = ''Mock'' \<or> (\<exists>b \<in> set bases. IsMock b)"

definition DECLARE_MOCK :: "string \<Rightarrow> cxx_class \<Rightarrow> cxx_class result" where
  "DECLARE_MOCK name mock_impl = cxx_assert ''cannot be recognized as a Mock or its derived type'' (IsMock mock_impl)
     (Inr (cxx_class name [mock_impl]))"

type_synonym signature = "cxx_type \<times> cxx_type list"

type_synonym 'm mocks = "string \<rightharpoonup> signature \<times> 'm"

text \<open>The store: an implementation made of the constructor's arguments, or mockers, for which these are ignored.\<close>

datatype ('i, 'm) impl_store = Impl 'i | Mocked "'m mocks"

definition ImplStore :: "cxx_class \<Rightarrow> ('a \<Rightarrow> 'i) \<Rightarrow> 'a \<Rightarrow> ('i, 'm) impl_store" where
  "ImplStore TImpl construct args = (if IsMock TImpl then Mocked Map.empty else Impl (construct args))"

text \<open>The constructor of an interface, which forwards its arguments.\<close>

definition new_interface :: "cxx_class \<Rightarrow> ('a \<Rightarrow> 'i) \<Rightarrow> 'a \<Rightarrow> ('i, 'm) impl_store" where
  "new_interface TImpl construct args = ImplStore TImpl construct args"

text \<open>
  Google Mock: a new function mocker for a signature, \<open>SetOwnerAndName\<close>, \<open>RegisterOwner\<close>, \<open>Invoke\<close>, and \<open>With\<close> together
  with what \<open>EXPECT_CALL\<close> makes of it.
\<close>

record ('m, 'a, 'r, 'e) gmock =
  FunctionMocker :: "signature \<Rightarrow> 'm"
  SetOwnerAndName :: "string \<Rightarrow> 'm \<Rightarrow> 'm"
  RegisterOwner :: "'m \<Rightarrow> 'm"
  Invoke :: "'a \<Rightarrow> 'm \<Rightarrow> 'r \<times> 'm"
  Expecting :: "'e \<Rightarrow> 'm \<Rightarrow> 'm"

definition GetMocker :: "('m, 'a, 'r, 'e) gmock \<Rightarrow> signature \<Rightarrow> string \<Rightarrow> 'm mocks \<Rightarrow> ('m \<times> 'm mocks) result" where
  "GetMocker G sig name mocks =
     (let mocks = (case mocks name of None \<Rightarrow> mocks(name \<mapsto> (sig, FunctionMocker G sig)) | Some _ \<Rightarrow> mocks) in
      case mocks name of
        None \<Rightarrow> Inl (Undefined_Behaviour ''end iterator'')
      | Some (s, mocker) \<Rightarrow> cxx_assert ''mocker_ptr != nullptr'' (s = sig) (Inr (mocker, mocks)))"

text \<open>The signature of a declared method at an instance of its template parameters.\<close>

definition md_signature :: "method_decl \<Rightarrow> (string \<times> cxx_type) list \<Rightarrow> signature" where
  "md_signature d targs = (instantiate targs (md_ret d), map (instantiate targs) (md_args d))"

text \<open>
  \<open>GMOCK_MOCKER_\<close>, the name Google Mock gives to the mocker of a method, from the number of its arguments, its
  constness, its name and the line of its declaration.
\<close>

type_synonym mocker_name = "nat \<Rightarrow> string list \<Rightarrow> string \<Rightarrow> nat \<Rightarrow> string"

definition name_of :: "mocker_name \<Rightarrow> method_decl \<Rightarrow> string" where
  "name_of GMOCK_MOCKER d = GMOCK_MOCKER (length (md_args d)) (GET_CONST_SPEC (md_spec d)) (md_name d) (md_line d)"

text \<open>The method of an interface over a mock, and the method \<open>gmock_\<close> of the same name, which \<open>EXPECT_CALL\<close> uses.\<close>

definition mocked_call ::
  "mocker_name \<Rightarrow> ('m, 'a, 'r, 'e) gmock \<Rightarrow> method_decl \<Rightarrow> (string \<times> cxx_type) list \<Rightarrow> 'a \<Rightarrow> 'm mocks \<Rightarrow> ('r \<times> 'm mocks) result" where
  "mocked_call N G d targs args mocks =
     rbind (GetMocker G (md_signature d targs) (name_of N d) mocks) (\<lambda>(mocker, mocks).
     case Invoke G args (SetOwnerAndName G (md_name d) mocker) of
       (r, mocker) \<Rightarrow> Inr (r, mocks(name_of N d \<mapsto> (md_signature d targs, mocker))))"

definition gmock_method ::
  "mocker_name \<Rightarrow> ('m, 'a, 'r, 'e) gmock \<Rightarrow> method_decl \<Rightarrow> (string \<times> cxx_type) list \<Rightarrow> 'e \<Rightarrow> 'm mocks \<Rightarrow> 'm mocks result" where
  "gmock_method N G d targs expectation mocks =
     rbind (GetMocker G (md_signature d targs) (name_of N d) mocks) (\<lambda>(mocker, mocks).
     Inr (mocks(name_of N d \<mapsto> (md_signature d targs, Expecting G expectation (RegisterOwner G mocker)))))"

text \<open>
  The macros that set expectations and default actions on a method template: the instance is the list
  of template arguments, \<open>setter\<close> what \<open>InternalExpectedAt\<close> or \<open>InternalDefaultActionSetAt\<close> make of the matchers.
\<close>

definition MOCK_ON_CALL_TEMPLATE_IMPL ::
  "mocker_name \<Rightarrow> ('m, 'a, 'r, 'e) gmock \<Rightarrow> (macro_arg list \<Rightarrow> 'e) \<Rightarrow> macro_arg \<Rightarrow> method_decl \<Rightarrow> macro_arg \<Rightarrow> 'm mocks \<Rightarrow> 'm mocks result" where
  "MOCK_ON_CALL_TEMPLATE_IMPL N G setter template_spec d call mocks =
     gmock_method N G d (zip (md_template d) (map arg_type (in_parens template_spec))) (setter (in_parens call)) mocks"

definition EXPECT_CALL_TEMPLATE ::
  "mocker_name \<Rightarrow> ('m, 'a, 'r, 'e) gmock \<Rightarrow> (macro_arg list \<Rightarrow> 'e) \<Rightarrow> macro_arg \<Rightarrow> method_decl \<Rightarrow> macro_arg \<Rightarrow> 'm mocks \<Rightarrow> 'm mocks result" where
  "EXPECT_CALL_TEMPLATE N G InternalExpectedAt template_spec d call mocks =
     cxx_assert ''template_spec enclosed by parenthesis'' (is_parens template_spec)
    (cxx_assert ''call enclosed by parenthesis'' (is_parens call)
    (MOCK_ON_CALL_TEMPLATE_IMPL N G InternalExpectedAt template_spec d call mocks))"

definition ON_CALL_TEMPLATE ::
  "mocker_name \<Rightarrow> ('m, 'a, 'r, 'e) gmock \<Rightarrow> (macro_arg list \<Rightarrow> 'e) \<Rightarrow> macro_arg \<Rightarrow> method_decl \<Rightarrow> macro_arg \<Rightarrow> 'm mocks \<Rightarrow> 'm mocks result" where
  "ON_CALL_TEMPLATE N G InternalDefaultActionSetAt template_spec d call mocks =
     cxx_assert ''template_spec enclosed by parenthesis'' (is_parens template_spec)
    (cxx_assert ''call enclosed by parenthesis'' (is_parens call)
    (MOCK_ON_CALL_TEMPLATE_IMPL N G InternalDefaultActionSetAt template_spec d call mocks))"

text \<open>The method of an interface, over an implementation or a mock.\<close>

definition interface_call ::
  "(method_decl \<Rightarrow> 'a \<Rightarrow> 'i \<Rightarrow> ('r \<times> 'i) result) \<Rightarrow> mocker_name \<Rightarrow> ('m, 'a, 'r, 'e) gmock \<Rightarrow> method_decl \<Rightarrow>
   (string \<times> cxx_type) list \<Rightarrow> 'a \<Rightarrow> ('i, 'm) impl_store \<Rightarrow> ('r \<times> ('i, 'm) impl_store) result" where
  "interface_call impl N G d targs args store =
     (case store of
        Impl i \<Rightarrow> rbind (impl d args i) (\<lambda>(r, i). Inr (r, Impl i))
      | Mocked mocks \<Rightarrow> rbind (mocked_call N G d targs args mocks) (\<lambda>(r, mocks). Inr (r, Mocked mocks)))"

section \<open>The traits of an implementation\<close>

text \<open>\<open>ImplTraits<TImpl>::For<ForTag<Tag>>::Type\<close>: a type an implementation gives for a tag of its interface.\<close>

type_synonym impl_traits = "string \<Rightarrow> string \<Rightarrow> cxx_type option"

definition ImplTraitsFor_T :: "impl_traits \<Rightarrow> string \<Rightarrow> string \<Rightarrow> cxx_type result" where
  "ImplTraitsFor_T traits TImpl tag =
     (case traits TImpl tag of None \<Rightarrow> Inl (Assert_Failed ''incomplete type'') | Some t \<Rightarrow> Inr t)"

definition USE_IMPL_FOR_TAG :: "string \<Rightarrow> string \<Rightarrow> cxx_type \<Rightarrow> impl_traits \<Rightarrow> impl_traits" where
  "USE_IMPL_FOR_TAG TImpl tag t traits = traits(TImpl := (traits TImpl)(tag \<mapsto> t))"

definition SimpleRoundGenerator_traits :: "impl_traits \<Rightarrow> impl_traits" where
  "SimpleRoundGenerator_traits =
     USE_IMPL_FOR_TAG ''SimpleRoundGenerator'' ''tags::Generator::GeneratedObject'' (Type_Name ''std::string'')"

section \<open>An action that moves its value out\<close>

text \<open>
  \<open>ReturnByMoveFromRef\<close>: an action for Google Mock that keeps a reference to a variable and returns its value by moving it
  out.  Variables are a store; \<open>left\<close> is what a move leaves of a value.  The function an action is made for must not
  return a reference.
\<close>

datatype 'x move_action = ReturnByMoveFromRefAction (moves_from: 'x)

definition ReturnByMoveFromRef :: "'x \<Rightarrow> 'x move_action" where
  "ReturnByMoveFromRef x = ReturnByMoveFromRefAction x"

fun is_reference :: "cxx_type \<Rightarrow> bool" where
  "is_reference (Reference t) = True"
| "is_reference _ = False"

definition as_Action :: "signature \<Rightarrow> 'x move_action \<Rightarrow> 'x move_action result" where
  "as_Action F act = cxx_assert ''Result_cannot_be_a_reference_type'' (\<not> is_reference (fst F)) (Inr act)"

definition Perform :: "('v \<Rightarrow> 'v) \<Rightarrow> 'x move_action \<Rightarrow> 'a list \<Rightarrow> ('x \<Rightarrow> 'v) \<Rightarrow> 'v \<times> ('x \<Rightarrow> 'v)" where
  "Perform left act args store = (store (moves_from act), store(moves_from act := left (store (moves_from act))))"

text \<open>The first call returns the value; a second one gets what the first has left.\<close>

lemma performed_twice:
  assumes "as_Action F (ReturnByMoveFromRef x) = Inr act" and "Perform left act args store = (v, store1)"
  shows "v = store x" and "fst (Perform left act args' store1) = left (store x)" and "y \<noteq> x \<Longrightarrow> store1 y = store y"
  using assms by (auto simp: as_Action_def ReturnByMoveFromRef_def Perform_def cxx_assert_Inr)

section \<open>The interfaces of the program\<close>

definition plain :: "string \<Rightarrow> macro_arg" where
  "plain x = Type (Type_Name x)"

definition IBuffer :: "interface_line list" where
  "IBuffer =
    [Method 6 [plain ''void'', Ident ''Reset'', Parens []],
     Method 7 [Type (Pointer (Type_Name ''char'')), Ident ''Data'', Parens []],
     Method 8 [Type (Pointer (Const (Type_Name ''char''))), Ident ''Data'', Parens [], Parens [Ident ''const'']],
     Method 9 [plain ''std::size_t'', Ident ''Capacity'', Parens [], Parens [Ident ''const'']],
     Method 10 [plain ''std::size_t'', Ident ''UsedBytes'', Parens [], Parens [Ident ''const'']],
     Method 11 [plain ''void'', Ident ''ReadBytes'', Parens [Type (Const (Pointer (Type_Name ''char''))), plain ''std::size_t'']],
     Method 12 [plain ''void'', Ident ''WriteBytes'', Parens [Type (Pointer (Const (Type_Name ''char''))), plain ''std::size_t'']],
     Method 13 [plain ''void'', Ident ''ReadBytesInReverseOrder'',
       Parens [Type (Const (Pointer (Type_Name ''char''))), plain ''std::size_t'']],
     Method 15 [plain ''void'', Ident ''WriteBytesInReverseOrder'',
       Parens [Type (Pointer (Const (Type_Name ''char''))), plain ''std::size_t'']]]"

definition IBuffer_of :: "string \<Rightarrow> cxx_type" where
  "IBuffer_of TBufferImpl = Template ''IBuffer'' [Type_Name TBufferImpl]"

definition IClient :: "interface_line list" where
  "IClient = [Template_Method 6 [Parens [Ident ''TBufferImpl''], plain ''void'', Ident ''Send'',
     Parens [Type (Reference (Const (IBuffer_of ''TBufferImpl'')))]]]"

definition IServer :: "interface_line list" where
  "IServer = [Template_Method 6 [Parens [Ident ''TBufferImpl''], plain ''void'', Ident ''Receive'',
     Parens [Type (Reference (IBuffer_of ''TBufferImpl''))]]]"

definition IPacker :: "interface_line list" where
  "IPacker =
    [Template_Method 6 [Parens [Ident ''TBufferImpl'', Ident ''TObject''], plain ''void'', Ident ''Pack'',
       Parens [Type (Reference (IBuffer_of ''TBufferImpl'')), Type (Reference (Const (Type_Name ''TObject'')))]],
     Template_Method 14 [Parens [Ident ''TBufferImpl'', Ident ''TObject''], plain ''void'', Ident ''Unpack'',
       Parens [Type (Reference (IBuffer_of ''TBufferImpl'')), Type (Reference (Type_Name ''TObject''))]]]"

definition IGenerator :: "cxx_type \<Rightarrow> interface_line list" where
  "IGenerator TObject =
    [Method 9 [plain ''void'', Ident ''ToFirst'', Parens []],
     Method 10 [plain ''bool'', Ident ''HasNext'', Parens [], Parens [Ident ''const'']],
     Method 11 [Type TObject, Ident ''Next'', Parens []]]"

definition IMeasurer :: "interface_line list" where
  "IMeasurer =
    [Method 7 [plain ''void'', Ident ''Tick'', Parens []],
     Method 8 [plain ''TimeTick'', Ident ''FirstTick'', Parens [], Parens [Ident ''const'']],
     Method 9 [plain ''TimeTick'', Ident ''LastTick'', Parens [], Parens [Ident ''const'']],
     Method 11 [plain ''void'', Ident ''ToFirst'', Parens []],
     Method 12 [plain ''bool'', Ident ''HasNext'', Parens [], Parens [Ident ''const'']],
     Method 13 [plain ''TimeTick'', Ident ''Next'', Parens []],
     Method 14 [plain ''std::size_t'', Ident ''Count'', Parens [], Parens [Ident ''const'']],
     Method 16 [plain ''bool'', Ident ''IsFull'', Parens [], Parens [Ident ''const'']],
     Method 17 [plain ''void'', Ident ''PushBack'', Parens [Type (Reference (Const (Type_Name ''TimeTick'')))]]]"

definition IStatistics :: "interface_line list" where
  "IStatistics = [Template_Method 6 [Parens [Ident ''TProducerMeasurerImpl'', Ident ''TConsumerMeasurerImpl''], plain ''void'', Ident ''Process'',
     Parens [Type (Reference (Template ''IMeasurer'' [Type_Name ''TProducerMeasurerImpl''])),
       Type (Reference (Template ''IMeasurer'' [Type_Name ''TConsumerMeasurerImpl'']))]]]"

text \<open>The two interfaces of the worker test; \<open>IChannel\<close> has overloads, which only the lines of their declarations tell apart.\<close>

definition IConnection :: "cxx_type \<Rightarrow> interface_line list" where
  "IConnection TChannelImpl = [Method 11 [Type (Template ''IChannel'' [TChannelImpl]), Ident ''GetChannel'', Parens []]]"

definition IChannel :: "interface_line list" where
  "IChannel =
    [Method 11 [plain ''void'', Ident ''Read'', Parens [Type (Reference (Type_Name ''std::string''))]],
     Method 12 [plain ''void'', Ident ''Write'', Parens [Type (Reference (Const (Type_Name ''std::string'')))]],
     Method 14 [plain ''void'', Ident ''Read'', Parens [Type (Reference (Type_Name ''TimeTick''))]],
     Method 15 [plain ''void'', Ident ''Write'', Parens [Type (Reference (Const (Type_Name ''TimeTick'')))]]]"

definition program_interfaces :: "interface_line list list" where
  "program_interfaces = [IBuffer, IClient, IServer, IPacker, IGenerator (Type_Name ''std::string''), IMeasurer, IStatistics,
     IConnection (Type_Name ''ConnectionChannelImpl''), IChannel]"

fun line_of :: "interface_line \<Rightarrow> nat" where
  "line_of (Method l args) = l"
| "line_of (Template_Method l args) = l"

lemma declare_line: "declare_one V d = Inr m \<Longrightarrow> md_line m = line_of d"
  by (cases d) (auto simp: DECLARE_METHOD_def DECLARE_METHOD_4_def DECLARE_TEMPLATE_METHOD_def DECLARE_TEMPLATE_METHOD_5_def
      cxx_assert_def split: list.splits if_splits)

lemma interface_lines: "INTERFACE V ls = Inr ds \<Longrightarrow> map md_line ds = map line_of ls"
  by (induction ls arbitrary: ds) (auto simp: rbind_Inr declare_line)

text \<open>Every interface of the program can be declared, and no two of its methods stand on the same line.\<close>

lemma program_interfaces_declared:
  assumes "ls \<in> set program_interfaces" and "valid_spec V ''const''" and "\<forall>k sig. valid_signature V k sig"
  shows "\<exists>ds. INTERFACE V ls = Inr ds"
  using assms by (auto simp: program_interfaces_def IBuffer_def IClient_def IServer_def IPacker_def IGenerator_def
      IMeasurer_def IStatistics_def IConnection_def IChannel_def DECLARE_METHOD_def DECLARE_METHOD_4_def DECLARE_TEMPLATE_METHOD_def
      DECLARE_TEMPLATE_METHOD_5_def plain_def)

lemma program_interface_lines: "ls \<in> set program_interfaces \<Longrightarrow> distinct (map line_of ls)"
  by (auto simp: program_interfaces_def IBuffer_def IClient_def IServer_def IPacker_def IGenerator_def
      IMeasurer_def IStatistics_def IConnection_def IChannel_def)

section \<open>Every method has a mocker of its own\<close>

datatype ('a, 'e) mock_use =
    Call (used: method_decl) (at_instance: "(string \<times> cxx_type) list") 'a
  | Expect (used: method_decl) (at_instance: "(string \<times> cxx_type) list") 'e

fun run_use :: "mocker_name \<Rightarrow> ('m, 'a, 'r, 'e) gmock \<Rightarrow> ('a, 'e) mock_use \<Rightarrow> 'm mocks \<Rightarrow> ('r option \<times> 'm mocks) result" where
  "run_use N G (Call d targs args) mocks = rbind (mocked_call N G d targs args mocks) (\<lambda>(r, mocks). Inr (Some r, mocks))"
| "run_use N G (Expect d targs e) mocks = rbind (gmock_method N G d targs e mocks) (\<lambda>mocks. Inr (None, mocks))"

fun run_uses :: "mocker_name \<Rightarrow> ('m, 'a, 'r, 'e) gmock \<Rightarrow> ('a, 'e) mock_use list \<Rightarrow> 'm mocks \<Rightarrow> ('r option list \<times> 'm mocks) result" where
  "run_uses N G [] mocks = Inr ([], mocks)"
| "run_uses N G (u # us) mocks =
     rbind (run_use N G u mocks) (\<lambda>(r, mocks). rbind (run_uses N G us mocks) (\<lambda>(rs, mocks). Inr (r # rs, mocks)))"

lemma expect_template_use:
  "rbind (EXPECT_CALL_TEMPLATE N G at (Parens ts) d (Parens ms) mocks) (\<lambda>mocks. Inr (None, mocks)) =
    run_use N G (Expect d (zip (md_template d) (map arg_type ts)) (at ms)) mocks"
  "rbind (ON_CALL_TEMPLATE N G at (Parens ts) d (Parens ms) mocks) (\<lambda>mocks. Inr (None, mocks)) =
    run_use N G (Expect d (zip (md_template d) (map arg_type ts)) (at ms)) mocks"
  by (simp_all add: EXPECT_CALL_TEMPLATE_def ON_CALL_TEMPLATE_def MOCK_ON_CALL_TEMPLATE_IMPL_def)

text \<open>The specification: a function mocker for each method, which its uses alone move.\<close>

fun alone :: "('m, 'a, 'r, 'e) gmock \<Rightarrow> ('a, 'e) mock_use \<Rightarrow> (method_decl \<Rightarrow> 'm option) \<Rightarrow> 'r option \<times> (method_decl \<Rightarrow> 'm option)" where
  "alone G (Call d targs args) st =
     (let m = (case st d of None \<Rightarrow> FunctionMocker G (md_signature d targs) | Some m \<Rightarrow> m) in
      case Invoke G args (SetOwnerAndName G (md_name d) m) of (r, m) \<Rightarrow> (Some r, st(d \<mapsto> m)))"
| "alone G (Expect d targs e) st =
     (let m = (case st d of None \<Rightarrow> FunctionMocker G (md_signature d targs) | Some m \<Rightarrow> m) in
      (None, st(d \<mapsto> Expecting G e (RegisterOwner G m))))"

fun all_alone :: "('m, 'a, 'r, 'e) gmock \<Rightarrow> ('a, 'e) mock_use list \<Rightarrow> (method_decl \<Rightarrow> 'm option) \<Rightarrow> 'r option list \<times> (method_decl \<Rightarrow> 'm option)" where
  "all_alone G [] st = ([], st)"
| "all_alone G (u # us) st = (case alone G u st of (r, st) \<Rightarrow> case all_alone G us st of (rs, st) \<Rightarrow> (r # rs, st))"

text \<open>The store under the names of the methods; \<open>inst\<close> is the one instance at which each method is used.\<close>

definition own_mockers ::
  "mocker_name \<Rightarrow> method_decl list \<Rightarrow> (method_decl \<Rightarrow> (string \<times> cxx_type) list) \<Rightarrow> 'm mocks \<Rightarrow> (method_decl \<Rightarrow> 'm option) \<Rightarrow> bool" where
  "own_mockers N ds inst mocks st \<longleftrightarrow>
     (\<forall>d \<in> set ds. mocks (name_of N d) = map_option (\<lambda>m. (md_signature d (inst d), m)) (st d))"

definition names_differ :: "mocker_name \<Rightarrow> bool" where
  "names_differ N \<longleftrightarrow> (\<forall>k c x l k' c' x' l'. N k c x l = N k' c' x' l' \<longrightarrow> l = l')"

lemma name_of_inj:
  assumes "names_differ N" and "distinct (map md_line ds)" and "d \<in> set ds" and "d' \<in> set ds" and "name_of N d = name_of N d'"
  shows "d = d'"
proof -
  have "md_line d = md_line d'" using assms(1,5) unfolding names_differ_def name_of_def by blast
  with assms(2-4) show ?thesis by (simp add: distinct_map inj_on_def)
qed

lemma run_use_alone:
  assumes N: "names_differ N" "distinct (map md_line ds)" and rel: "own_mockers N ds inst mocks st"
    and u: "used u \<in> set ds" "at_instance u = inst (used u)"
  shows "\<exists>mocks'. run_use N G u mocks = Inr (fst (alone G u st), mocks') \<and> own_mockers N ds inst mocks' (snd (alone G u st))"
proof -
  define d where "d = used u"
  have d: "d \<in> set ds" using u d_def by simp
  define m where "m = (case st d of None \<Rightarrow> FunctionMocker G (md_signature d (inst d)) | Some m \<Rightarrow> m)"
  obtain ms where g: "GetMocker G (md_signature d (inst d)) (name_of N d) mocks = Inr (m, ms)"
    and ms: "\<And>x. ms(name_of N d \<mapsto> x) = mocks(name_of N d \<mapsto> x)"
    using rel d by (cases "st d") (auto simp: GetMocker_def own_mockers_def m_def)
  have rel': "own_mockers N ds inst (ms(name_of N d \<mapsto> (md_signature d (inst d), m'))) (st(d \<mapsto> m'))" for m'
    using rel d name_of_inj [OF N _ d] unfolding ms by (auto simp: own_mockers_def)
  show ?thesis
  proof (cases u)
    case (Call d' targs args)
    then have "d' = d" "targs = inst d" using u d_def by simp_all
    with Call g rel' show ?thesis
      by (auto simp: mocked_call_def m_def Let_def split: prod.splits)
  next
    case (Expect d' targs e)
    then have "d' = d" "targs = inst d" using u d_def by simp_all
    with Expect g rel' show ?thesis by (auto simp: gmock_method_def m_def Let_def)
  qed
qed

lemma run_uses_alone:
  assumes "names_differ N" and "distinct (map md_line ds)" and "own_mockers N ds inst mocks st"
    and "\<forall>u \<in> set us. used u \<in> set ds \<and> at_instance u = inst (used u)"
  shows "\<exists>mocks'. run_uses N G us mocks = Inr (fst (all_alone G us st), mocks') \<and>
    own_mockers N ds inst mocks' (snd (all_alone G us st))"
  using assms(3,4)
proof (induction us arbitrary: mocks st)
  case (Cons u us)
  obtain ms where 1: "run_use N G u mocks = Inr (fst (alone G u st), ms)" "own_mockers N ds inst ms (snd (alone G u st))"
    using run_use_alone [OF assms(1,2) Cons.prems(1), of u] Cons.prems(2) by auto
  from Cons.IH [OF 1(2)] Cons.prems(2) 1(1) show ?case by (auto split: prod.splits)
qed simp

section \<open>Properties\<close>

lemma generated_object:
  "ImplTraitsFor_T (SimpleRoundGenerator_traits traits) ''SimpleRoundGenerator'' ''tags::Generator::GeneratedObject'' =
    Inr (Type_Name ''std::string'')"
  by (simp add: ImplTraitsFor_T_def SimpleRoundGenerator_traits_def USE_IMPL_FOR_TAG_def)

lemma run_uses_append: "run_uses N G (us @ vs) mocks =
    rbind (run_uses N G us mocks) (\<lambda>(rs, mocks). rbind (run_uses N G vs mocks) (\<lambda>(rs', mocks). Inr (rs @ rs', mocks)))"
proof (induction us arbitrary: mocks)
  case Nil
  show ?case by (cases "run_uses N G vs mocks") auto
next
  case (Cons u us)
  show ?case
    by (cases "run_use N G u mocks") (auto simp: Cons.IH rbind_assoc case_prod_unfold)
qed

lemma alone_keeps: "st d \<noteq> None \<Longrightarrow> snd (alone G u st) d \<noteq> None"
  by (cases u) (auto simp: Let_def split: prod.splits)

lemma alone_used: "snd (alone G u st) (used u) \<noteq> None"
  by (cases u) (auto simp: Let_def split: prod.splits)

lemma all_alone_used: "st d \<noteq> None \<or> d \<in> used ` set us \<Longrightarrow> snd (all_alone G us st) d \<noteq> None"
proof (induction us arbitrary: st)
  case (Cons u us)
  have "snd (alone G u st) d \<noteq> None \<or> d \<in> used ` set us"
    using Cons.prems alone_keeps [of st d G u] alone_used [of G u st] by auto
  with Cons.IH [of "snd (alone G u st)"] show ?case by (auto split: prod.splits)
qed simp

lemma run_use_clash:
  assumes "mocks (name_of N (used u)) = Some (sig, m)" and "md_signature (used u) (at_instance u) \<noteq> sig"
  shows "run_use N G u mocks = Inl (Assert_Failed ''mocker_ptr != nullptr'')"
  using assms by (cases u) (auto simp: mocked_call_def gmock_method_def GetMocker_def)

text \<open>C17: a mocked interface of the program behaves as if every method had a function mocker of its own: over any sequence
  of calls and expectations, as long as each method is used at one instance of its template parameters, nothing fails, and
  every call is answered by the mocker that only the uses of this method have moved.  The first use of a method at an instance with
  another signature fails an assertion, since the mockers are kept by names that do not depend on the instance.\<close>

theorem mocked_interface:
  assumes "ls \<in> set program_interfaces" and "INTERFACE V ls = Inr ds" and "names_differ N"
    and "\<forall>u \<in> set us. used u \<in> set ds \<and> at_instance u = inst (used u)"
  shows "\<exists>mocks. run_uses N G us Map.empty = Inr (fst (all_alone G us Map.empty), mocks) \<and>
    (\<forall>u. used u \<in> used ` set us \<and> md_signature (used u) (at_instance u) \<noteq> md_signature (used u) (inst (used u)) \<longrightarrow>
       run_uses N G (us @ [u]) Map.empty = Inl (Assert_Failed ''mocker_ptr != nullptr''))"
proof -
  have lines: "distinct (map md_line ds)"
    using program_interface_lines [OF assms(1)] interface_lines [OF assms(2)] by simp
  have "own_mockers N ds inst Map.empty Map.empty" by (simp add: own_mockers_def)
  from run_uses_alone [OF assms(3) lines this assms(4)] obtain mocks where
    r: "run_uses N G us Map.empty = Inr (fst (all_alone G us Map.empty), mocks)"
    and rel: "own_mockers N ds inst mocks (snd (all_alone G us Map.empty))" by blast
  have "run_uses N G (us @ [u]) Map.empty = Inl (Assert_Failed ''mocker_ptr != nullptr'')"
    if u: "used u \<in> used ` set us" and s: "md_signature (used u) (at_instance u) \<noteq> md_signature (used u) (inst (used u))" for u
  proof -
    have d: "used u \<in> set ds" using u assms(4) by auto
    obtain m where "snd (all_alone G us Map.empty) (used u) = Some m"
      using all_alone_used [of Map.empty "used u" us G] u by auto
    then have "mocks (name_of N (used u)) = Some (md_signature (used u) (inst (used u)), m)"
      using rel d by (simp add: own_mockers_def)
    from run_use_clash [where u = u and mocks = mocks and N = N and G = G, OF this s] show ?thesis by (simp add: run_uses_append r)
  qed
  with r show ?thesis by blast
qed

text \<open>A mock of a packer that packs a string and then a time point.\<close>

definition counting :: "(nat, unit, nat, unit) gmock" where
  "counting = \<lparr>FunctionMocker = (\<lambda>_. 0), SetOwnerAndName = (\<lambda>_ m. m), RegisterOwner = (\<lambda>m. m), Invoke = (\<lambda>_ m. (m, Suc m)),
     Expecting = (\<lambda>_ m. m)\<rparr>"

definition instance_for :: "string \<Rightarrow> (string \<times> cxx_type) list" where
  "instance_for TObject = [(''TBufferImpl'', Type_Name ''Buffer''), (''TObject'', Type_Name TObject)]"

definition all_signatures :: static_checks where
  "all_signatures = \<lparr>valid_spec = (\<lambda>s. s = ''const''), valid_signature = (\<lambda>_ _. True)\<rparr>"

theorem mocked_interface_witness:
  "\<exists>ds. INTERFACE all_signatures IPacker = Inr ds \<and> length ds = 2 \<and>
    run_uses (\<lambda>_ _ _ l. replicate l (CHR ''m'')) counting
      [Call (ds ! 0) (instance_for ''std::string'') (), Call (ds ! 0) (instance_for ''TimeTick'') ()] Map.empty =
    Inl (Assert_Failed ''mocker_ptr != nullptr'')"
proof -
  let ?N = "\<lambda>(_ :: nat) (_ :: string list) (_ :: string) l. replicate l (CHR ''m'')"
  obtain ds where ds: "INTERFACE all_signatures IPacker = Inr ds"
    using program_interfaces_declared [of IPacker all_signatures] by (auto simp: program_interfaces_def all_signatures_def)
  have l: "length ds = 2" using arg_cong [OF interface_lines [OF ds], of length] by (simp add: IPacker_def)
  have a: "md_args (ds ! 0) = [Reference (IBuffer_of ''TBufferImpl''), Reference (Const (Type_Name ''TObject''))]"
    using ds by (auto simp: IPacker_def DECLARE_TEMPLATE_METHOD_def DECLARE_TEMPLATE_METHOD_5_def)
  have "md_signature (ds ! 0) (instance_for ''TimeTick'') \<noteq> md_signature (ds ! 0) (instance_for ''std::string'')"
    by (simp add: md_signature_def a instance_for_def)
  moreover have "IPacker \<in> set program_interfaces" by (simp add: program_interfaces_def)
  moreover have "names_differ ?N" by (auto simp: names_differ_def dest: arg_cong [where f = length])
  moreover have "\<forall>u \<in> set [Call (ds ! 0) (instance_for ''std::string'') ()].
      used u \<in> set ds \<and> at_instance u = (\<lambda>_. instance_for ''std::string'') (used u)" using l by simp
  ultimately show ?thesis
    using mocked_interface [where ls = IPacker and N = ?N and G = counting and inst = "\<lambda>_. instance_for ''std::string''", OF _ ds] ds l
    by (fastforce simp del: run_uses.simps)
qed

end
