(* ===== verification/Text.thy ===== *)
theory Text
  imports Prelude
begin

text \<open>
  Text as the program handles it: decimal numbers (\<open>std::to_string\<close>, \<open>std::from_chars\<close>,
  \<open>std::stoi\<close>) and searching and cutting strings (\<open>find\<close>, \<open>substr\<close>).
\<close>

section \<open>Decimal digits\<close>

definition digit_char :: "nat \<Rightarrow> char" where
  "digit_char d = char_of (48 + d)"

fun digits_rev :: "nat \<Rightarrow> nat list" where
  "digits_rev n = (if n < 10 then [n] else n mod 10 # digits_rev (n div 10))"

declare digits_rev.simps [simp del]

text \<open>\<open>std::to_string\<close> of an unsigned and of a signed number.\<close>

definition to_string :: "nat \<Rightarrow> string" where
  "to_string n = rev (map digit_char (digits_rev n))"

definition to_string_int :: "int \<Rightarrow> string" where
  "to_string_int n = (if n < 0 then ''-'' else []) @ to_string (nat \<bar>n\<bar>)"

fun digits_value :: "nat list \<Rightarrow> nat" where
  "digits_value [] = 0"
| "digits_value (d # ds) = d + 10 * digits_value ds"

definition is_digit :: "char \<Rightarrow> bool" where
  "is_digit c \<longleftrightarrow> 48 \<le> (of_char c :: nat) \<and> (of_char c :: nat) < 58"

definition char_digit :: "char \<Rightarrow> nat" where
  "char_digit c = of_char c - 48"

text \<open>The longest prefix of digits, as a number; \<open>None\<close> if it is empty.\<close>

definition scan_digits :: "string \<Rightarrow> nat option" where
  "scan_digits s =
     (let ds = takeWhile is_digit s in
      if ds = [] then None else Some (digits_value (map char_digit (rev ds))))"

text \<open>
  \<open>std::from_chars\<close> into a \<open>std::size_t\<close> and an \<open>int\<close> that hold \<open>old\<close>: where no number is
  found, or one out of range, the variable keeps its value.
\<close>

definition from_chars_size :: "string \<Rightarrow> u64 option \<Rightarrow> u64 option" where
  "from_chars_size s old =
     (case scan_digits s of
        None \<Rightarrow> old
      | Some n \<Rightarrow> if n < 2 ^ 64 then Some (of_nat n) else old)"

definition in_int :: "int \<Rightarrow> bool" where
  "in_int n \<longleftrightarrow> - (2 ^ 31) \<le> n \<and> n < 2 ^ 31"

definition scan_int :: "string \<Rightarrow> int option" where
  "scan_int s = (if s \<noteq> [] \<and> hd s = CHR 0x2D then map_option (\<lambda>n. - int n) (scan_digits (tl s))
     else map_option int (scan_digits s))"

definition from_chars_int :: "string \<Rightarrow> int \<Rightarrow> int" where
  "from_chars_int s old =
     (case scan_int s of
        None \<Rightarrow> old
      | Some n \<Rightarrow> if in_int n then n else old)"

text \<open>\<open>std::stoi\<close>: leading white space and one sign are skipped.\<close>

definition is_space :: "char \<Rightarrow> bool" where
  "is_space c \<longleftrightarrow> c = CHR 0x20 \<or> 9 \<le> (of_char c :: nat) \<and> (of_char c :: nat) \<le> 13"

definition stoi :: "string \<Rightarrow> int result" where
  "stoi s =
     (let t = dropWhile is_space s;
          u = if t \<noteq> [] \<and> hd t = CHR 0x2B \<and> \<not> (tl t \<noteq> [] \<and> hd (tl t) = CHR 0x2D) then tl t else t in
      case scan_int u of
        None \<Rightarrow> Inl Invalid_Argument
      | Some n \<Rightarrow> if in_int n then Inr n else Inl Out_Of_Range)"

text \<open>\<open>std::endl\<close>\<close>

definition endl :: string where
  "endl = [CHR 0x0A]"

section \<open>Substrings\<close>

text \<open>The offset of the first occurrence, \<open>npos\<close> being \<open>None\<close>.\<close>

fun str_find :: "string \<Rightarrow> string \<Rightarrow> nat option" where
  "str_find pat [] = (if pat = [] then Some 0 else None)"
| "str_find pat (c # s) =
     (if take (length pat) (c # s) = pat then Some 0 else map_option Suc (str_find pat s))"

definition substr :: "nat \<Rightarrow> nat \<Rightarrow> string \<Rightarrow> string" where
  "substr pos n s = take n (drop pos s)"

definition substr_from :: "nat \<Rightarrow> string \<Rightarrow> string" where
  "substr_from pos s = drop pos s"

text \<open>A pattern that cannot overlap the text before it is found right behind it.\<close>

lemma str_find_append:
  assumes "p \<notin> set s"
  shows "str_find (p # ps) (s @ p # ps @ t) = Some (length s)"
  using assms by (induction s) auto

lemma str_find_None: "p \<notin> set s \<Longrightarrow> str_find (p # ps) s = None"
  by (induction s) auto

section \<open>Lemmas\<close>

lemma digits_value_digits [simp]: "digits_value (digits_rev n) = n"
proof (induction n rule: digits_rev.induct)
  case (1 n)
  then show ?case by (subst digits_rev.simps) auto
qed

lemma digits_small: "d \<in> set (digits_rev n) \<Longrightarrow> d < 10"
proof (induction n rule: digits_rev.induct)
  case (1 n)
  then show ?case by (subst (asm) (2) digits_rev.simps) (auto split: if_splits)
qed

lemma digits_rev_not_Nil [simp]: "digits_rev n \<noteq> []"
  by (subst digits_rev.simps) simp

lemma of_digit_char: "d < 10 \<Longrightarrow> (of_char (digit_char d) :: nat) = 48 + d"
  by (simp add: digit_char_def)

lemma digit_char_neq:
  assumes "d < 10" and "(of_char c :: nat) < 48"
  shows "digit_char d \<noteq> c"
  using of_digit_char [OF assms(1)] assms(2) by auto

lemma map_char_digit: "map (char_digit \<circ> digit_char) (digits_rev n) = digits_rev n"
  by (rule map_idI) (use digits_small [of _ n] of_digit_char in \<open>auto simp: char_digit_def\<close>)

lemma to_string_digits: "c \<in> set (to_string n) \<Longrightarrow> is_digit c"
  using digits_small [of _ n] of_digit_char by (fastforce simp: to_string_def is_digit_def)

lemma to_string_not_Nil [simp]: "to_string n \<noteq> []"
  by (simp add: to_string_def)

lemma scan_to_string:
  assumes "rest = [] \<or> \<not> is_digit (hd rest)"
  shows "scan_digits (to_string n @ rest) = Some n"
proof -
  have "takeWhile is_digit (to_string n @ rest) = to_string n"
    using assms to_string_digits [of _ n] by (cases rest) (auto simp: takeWhile_append2)
  then show ?thesis
    by (simp add: scan_digits_def Let_def) (simp add: to_string_def rev_map map_char_digit)
qed

lemma scan_digits_to_string [simp]: "scan_digits (to_string n) = Some n"
  using scan_to_string [of "[]" n] by simp

lemma from_chars_size_to_string [simp]: "from_chars_size (to_string (unat w)) old = Some w"
proof -
  have "unat w < 2 ^ 64" using unsigned_less [of w] by simp
  then show ?thesis by (simp add: from_chars_size_def)
qed

lemma hd_to_string: "is_digit (hd (to_string n))"
  by (rule to_string_digits [of _ n]) (intro hd_in_set to_string_not_Nil)

lemma not_digit_minus [simp]: "\<not> is_digit (CHR 0x2D)"
  by (simp add: is_digit_def)

lemma scan_int_to_string [simp]: "scan_int (to_string_int n) = Some n"
proof (cases "n < 0")
  case True
  then show ?thesis by (simp add: scan_int_def to_string_int_def)
next
  case False
  then have "hd (to_string (nat n)) \<noteq> CHR 0x2D" using hd_to_string [of "nat n"] not_digit_minus by metis
  with False show ?thesis by (simp add: scan_int_def to_string_int_def)
qed

lemma from_chars_int_to_string [simp]: "in_int n \<Longrightarrow> from_chars_int (to_string_int n) old = n"
  by (simp add: from_chars_int_def)

lemma from_chars_size_none: "s = [] \<or> \<not> is_digit (hd s) \<Longrightarrow> from_chars_size s old = old"
  by (cases s) (auto simp: from_chars_size_def scan_digits_def)

lemma stoi_to_string:
  assumes "in_int n"
  shows "stoi (to_string_int n) = Inr n"
proof -
  have h: "hd (to_string_int n) \<noteq> CHR 0x2B" "\<not> is_space (hd (to_string_int n))" "to_string_int n \<noteq> []"
    using hd_to_string [of "nat n"] hd_to_string [of "nat \<bar>n\<bar>"]
    by (auto simp: to_string_int_def is_digit_def is_space_def)
  then have "dropWhile is_space (to_string_int n) = to_string_int n"
    by (cases "to_string_int n") auto
  with h assms show ?thesis by (simp add: stoi_def Let_def)
qed

end
