(* ===== verification/Ring_Buffer.thy ===== *)
theory Ring_Buffer
  imports Prelude
begin

text \<open>
  The single-producer single-consumer ring buffer of the shared-memory connection
  (\<open>src/src/connection/src/connectors/shared_memory/ring_buffer.cpp\<close>), as its functions
  compute: the index word, \<open>ProcessMessage\<close> with its branch-free arithmetic on 32-bit
  integers, \<open>Push\<close> and \<open>Pop\<close>.  The two index atomics are read through an oracle
  \<open>loads\<close> that says what the k-th load of the other side's index returns, because the other
  process moves it; theory \<open>Ring_Concurrent\<close> runs both sides against each other.
\<close>

section \<open>Record header and index word\<close>

text \<open>\<open>sizeof(RecordHeader)\<close>: one \<open>uint32_t\<close>, the payload is a flexible array member.\<close>

definition RecordHeader_size :: nat where
  "RecordHeader_size = 4"

definition AlignUpByRecordHeader :: "u32 \<Rightarrow> u32 result" where
  "AlignUpByRecordHeader v =
     (let kStep = of_nat RecordHeader_size :: u32;
          aligned_value = (v + kStep - 1) AND NOT (kStep - 1)
      in cxx_assert ''value <= aligned_value'' (v \<le> aligned_value) (Inr aligned_value))"

record index =
  idx_value :: u32
  idx_version :: u32

text \<open>\<open>std::bit_cast\<close> between the index and the \<open>uint64_t\<close> the atomics hold.\<close>

definition u64_of_index :: "index \<Rightarrow> u64" where
  "u64_of_index i = ucast (idx_value i) OR push_bit 32 (ucast (idx_version i))"

definition index_of_u64 :: "u64 \<Rightarrow> index" where
  "index_of_u64 w = \<lparr>idx_value = ucast w, idx_version = ucast (drop_bit 32 w)\<rparr>"

text \<open>
  Minus a C++ \<open>bool\<close>, as an operand of \<open>&\<close> with a \<open>uint32_t\<close>: the \<open>int\<close> \<open>-1\<close> or \<open>0\<close>
  converted to \<open>uint32_t\<close>.
\<close>

definition neg_bool :: "bool \<Rightarrow> u32" where
  "neg_bool b = - of_bool b"

section \<open>ProcessMessage\<close>

text \<open>
  \<open>ProcessMessage\<close> first splits the payload into the part that fits before the end of the
  buffer and the part that overflows to its start, then copies, then advances the index.
\<close>

definition ProcessMessage_split :: "index \<Rightarrow> u32 \<Rightarrow> u32 \<Rightarrow> (index \<times> u32 \<times> u32 \<times> u32) result" where
  "ProcessMessage_split i payload_size capacity =
     (let i' = i\<lparr>idx_value := idx_value i + of_nat RecordHeader_size\<rparr> in
      cxx_assert ''index.value <= capacity'' (idx_value i' \<le> capacity)
     (let free_fit = capacity - idx_value i' in
      cxx_assert ''buffer_free_size_fit_part <= capacity'' (free_fit \<le> capacity)
     (let overflowed = neg_bool (free_fit < payload_size) AND (payload_size - free_fit) in
      cxx_assert ''payload_size_overflowed_part <= payload_size'' (overflowed \<le> payload_size)
     (let fit = payload_size - overflowed in Inr (i', free_fit, fit, overflowed)))))"

definition ProcessMessage_advance :: "index \<Rightarrow> u32 \<Rightarrow> u32 \<Rightarrow> u32 \<Rightarrow> u32 \<Rightarrow> index result" where
  "ProcessMessage_advance i free_fit fit overflowed capacity =
     rbind (AlignUpByRecordHeader fit) (\<lambda>fit_aligned.
     cxx_assert ''payload_size_fit_part_aligned <= buffer_free_size_fit_part''
       (fit_aligned \<le> free_fit)
     (let i1 = i\<lparr>idx_version := idx_version i + of_bool (fit_aligned = free_fit)\<rparr> in
      rbind (AlignUpByRecordHeader overflowed) (\<lambda>overflowed_aligned.
      let i2 = i1\<lparr>idx_value :=
                 (neg_bool (fit_aligned \<noteq> free_fit) AND (idx_value i1 + fit_aligned))
                 + overflowed_aligned\<rparr> in
      cxx_assert ''index.value < capacity'' (idx_value i2 < capacity) (Inr i2))))"

definition ProcessMessage ::
  "(u32 \<Rightarrow> u32 \<Rightarrow> 's \<Rightarrow> 's result) \<Rightarrow> index \<Rightarrow> u32 \<Rightarrow> u32 \<Rightarrow> 's \<Rightarrow> (index \<times> 's) result" where
  "ProcessMessage bytes_copier i payload_size capacity s =
     rbind (ProcessMessage_split i payload_size capacity) (\<lambda>(i', free_fit, fit, overflowed).
     rbind (bytes_copier fit overflowed s) (\<lambda>s'.
     rbind (ProcessMessage_advance i' free_fit fit overflowed capacity) (\<lambda>j.
     Inr (j, s'))))"

section \<open>The ring buffer object\<close>

record ring_buffer =
  rb_capacity :: u32
  rb_is_initialized :: bool
  rb_producer_index :: u64
  rb_consumer_index :: u64
  rb_ring :: "byte list"

definition AlignCapacity :: "u32 \<Rightarrow> u32 result" where
  "AlignCapacity capacity =
     rbind (AlignUpByRecordHeader capacity) (\<lambda>aligned_capacity.
     if aligned_capacity < capacity
     then Inl (Runtime_Error ''capacity is overflowed after alignment'')
     else Inr aligned_capacity)"

text \<open>
  The constructor, placed on memory that is already there: \<open>ring\<close> is the content of the
  flexible array member \<open>_ring_buffer\<close>.
\<close>

definition SPSCRingBuffer :: "u32 \<Rightarrow> byte list \<Rightarrow> ring_buffer result" where
  "SPSCRingBuffer capacity ring =
     rbind (AlignCapacity capacity) (\<lambda>aligned.
     if capacity \<noteq> aligned then Inl (Runtime_Error ''wrong capacity'')
     else Inr \<lparr>rb_capacity = capacity, rb_is_initialized = False,
               rb_producer_index = 0, rb_consumer_index = 0, rb_ring = ring\<rparr>)"

definition IsInitialized :: "ring_buffer \<Rightarrow> bool" where
  "IsInitialized rb = rb_is_initialized rb"

definition SetInitialized :: "ring_buffer \<Rightarrow> ring_buffer" where
  "SetInitialized rb = rb\<lparr>rb_is_initialized := True\<rparr>"

text \<open>
  \<open>wait(false)\<close> on the flag: \<open>flag k\<close> is what its k-th load returns, because the other process sets
  it.  The result is the number of the load that found it set.
\<close>

partial_function (option) WaitInitialized :: "(nat \<Rightarrow> bool) \<Rightarrow> nat \<Rightarrow> nat option" where
  "WaitInitialized flag k = (if flag k then Some k else WaitInitialized flag (Suc k))"

definition GetCapacity :: "ring_buffer \<Rightarrow> u64" where
  "GetCapacity rb = ucast (rb_capacity rb)"

section \<open>Push\<close>

text \<open>The size check that \<open>Push\<close> makes before anything else, on \<open>size_t\<close>.\<close>

definition Push_record_size :: "u32 \<Rightarrow> u64 \<Rightarrow> u64 result" where
  "Push_record_size capacity payload_size =
     (let record_size = of_nat RecordHeader_size + payload_size in
      if record_size < payload_size \<or> ucast capacity < record_size
      then Inl (Runtime_Error ''message is not fit in ring memory buffer'')
      else Inr record_size)"

text \<open>The free space that one turn of the waiting loop computes from one observed consumer index.\<close>

definition Push_free_size :: "index \<Rightarrow> index \<Rightarrow> u32 \<Rightarrow> u32 result" where
  "Push_free_size producer consumer capacity =
     cxx_assert ''consumer_index.value < _capacity'' (idx_value consumer < capacity)
    (cxx_assert ''index order''
       ((idx_version consumer = idx_version producer \<and> idx_value consumer \<le> idx_value producer) \<or>
        (idx_version consumer \<noteq> idx_version producer \<and> idx_value producer \<le> idx_value consumer))
    (let free =
       (neg_bool (idx_version consumer = idx_version producer) AND
         (capacity - (idx_value producer - idx_value consumer))) +
       (neg_bool (idx_version producer \<noteq> idx_version consumer) AND
         (idx_value consumer - idx_value producer)) in
     cxx_assert ''buffer_free_size <= _capacity'' (free \<le> capacity) (Inr free)))"

text \<open>
  The waiting loop: \<open>loads k\<close> is what the k-th load of the consumer index returns.  \<open>None\<close>
  is a loop that never ends.  The result is the number of the load that ended it.
\<close>

partial_function (option) Push_wait ::
  "(nat \<Rightarrow> u64) \<Rightarrow> index \<Rightarrow> u32 \<Rightarrow> u64 \<Rightarrow> nat \<Rightarrow> nat result option" where
  "Push_wait loads producer capacity record_size k =
     (case Push_free_size producer (index_of_u64 (loads k)) capacity of
        Inl e \<Rightarrow> Some (Inl e)
      | Inr free \<Rightarrow> if record_size \<le> ucast free then Some (Inr k)
                   else Push_wait loads producer capacity record_size (Suc k))"

text \<open>The closure \<open>Push\<close> hands to \<open>ProcessMessage\<close>: both \<open>memcpy\<close> calls into the ring.\<close>

definition Push_copy_fit :: "index \<Rightarrow> byte list \<Rightarrow> u32 \<Rightarrow> byte list \<Rightarrow> byte list result" where
  "Push_copy_fit producer payload fit ring =
     rbind (mem_read 0 (unat fit) payload) (\<lambda>bs.
     mem_write (unat (idx_value producer) + RecordHeader_size) bs ring)"

definition Push_copy_overflowed :: "byte list \<Rightarrow> u32 \<Rightarrow> u32 \<Rightarrow> byte list \<Rightarrow> byte list result" where
  "Push_copy_overflowed payload fit overflowed ring =
     rbind (mem_read (unat fit) (unat overflowed) payload) (\<lambda>bs. mem_write 0 bs ring)"

definition Push_copier :: "index \<Rightarrow> byte list \<Rightarrow> u32 \<Rightarrow> u32 \<Rightarrow> byte list \<Rightarrow> byte list result" where
  "Push_copier producer payload fit overflowed ring =
     rbind (Push_copy_fit producer payload fit ring) (Push_copy_overflowed payload fit overflowed)"

text \<open>Storing the record header, on a little-endian host.\<close>

definition Push_header :: "index \<Rightarrow> u32 \<Rightarrow> byte list \<Rightarrow> byte list result" where
  "Push_header producer payload_size ring =
     mem_write (unat (idx_value producer)) (le_bytes RecordHeader_size (unat payload_size)) ring"

definition Push_write :: "byte list \<Rightarrow> ring_buffer \<Rightarrow> ring_buffer result" where
  "Push_write payload rb =
     (let producer = index_of_u64 (rb_producer_index rb);
          payload_size = ucast (of_nat (length payload) :: u64) :: u32 in
      rbind (Push_header producer payload_size (rb_ring rb)) (\<lambda>ring.
      rbind (ProcessMessage (Push_copier producer payload) producer payload_size (rb_capacity rb) ring)
        (\<lambda>(new_producer, ring').
      Inr (rb\<lparr>rb_ring := ring', rb_producer_index := u64_of_index new_producer\<rparr>))))"

definition Push :: "(nat \<Rightarrow> u64) \<Rightarrow> byte list \<Rightarrow> ring_buffer \<Rightarrow> ring_buffer result option" where
  "Push loads payload rb =
     (case Push_record_size (rb_capacity rb) (of_nat (length payload)) of
        Inl e \<Rightarrow> Some (Inl e)
      | Inr record_size \<Rightarrow>
          map_option (\<lambda>w. rbind w (\<lambda>_. Push_write payload rb))
            (Push_wait loads (index_of_u64 (rb_producer_index rb)) (rb_capacity rb) record_size 0))"

section \<open>Pop\<close>

text \<open>The waiting loop of \<open>Pop\<close> on the loads of the producer index.\<close>

partial_function (option) Pop_wait :: "(nat \<Rightarrow> u64) \<Rightarrow> index \<Rightarrow> nat \<Rightarrow> nat option" where
  "Pop_wait loads consumer k =
     (if consumer = index_of_u64 (loads k) then Pop_wait loads consumer (Suc k) else Some k)"

text \<open>
  Reading the record header, with the check against the outer buffer's capacity; \<open>Pop\<close>
  reads the size once for the check and once for use.
\<close>

definition Pop_header :: "index \<Rightarrow> u64 \<Rightarrow> byte list \<Rightarrow> u32 result" where
  "Pop_header consumer msg_buf_capacity ring =
     rbind (mem_read (unat (idx_value consumer)) RecordHeader_size ring) (\<lambda>bs.
     let payload_size = of_nat (le_nat bs) :: u32 in
     if msg_buf_capacity < ucast payload_size
     then Inl (Runtime_Error ''message is not fit in outer memory buffer'')
     else Inr payload_size)"

definition Pop_copy_fit :: "index \<Rightarrow> byte list \<Rightarrow> u32 \<Rightarrow> byte list \<Rightarrow> byte list result" where
  "Pop_copy_fit consumer ring fit msg_buf =
     rbind (mem_read (unat (idx_value consumer) + RecordHeader_size) (unat fit) ring) (\<lambda>bs.
     mem_write 0 bs msg_buf)"

definition Pop_copy_overflowed :: "byte list \<Rightarrow> u32 \<Rightarrow> u32 \<Rightarrow> byte list \<Rightarrow> byte list result" where
  "Pop_copy_overflowed ring fit overflowed msg_buf =
     rbind (mem_read 0 (unat overflowed) ring) (\<lambda>bs. mem_write (unat fit) bs msg_buf)"

definition Pop_copier :: "index \<Rightarrow> byte list \<Rightarrow> u32 \<Rightarrow> u32 \<Rightarrow> byte list \<Rightarrow> byte list result" where
  "Pop_copier consumer ring fit overflowed msg_buf =
     rbind (Pop_copy_fit consumer ring fit msg_buf) (Pop_copy_overflowed ring fit overflowed)"

definition Pop_read ::
  "byte list \<Rightarrow> u64 \<Rightarrow> ring_buffer \<Rightarrow> (u64 \<times> byte list \<times> ring_buffer) result" where
  "Pop_read msg_buf msg_buf_capacity rb =
     (let consumer = index_of_u64 (rb_consumer_index rb) in
      rbind (Pop_header consumer msg_buf_capacity (rb_ring rb)) (\<lambda>payload_size.
      rbind (ProcessMessage (Pop_copier consumer (rb_ring rb)) consumer payload_size
               (rb_capacity rb) msg_buf) (\<lambda>(new_consumer, msg_buf').
      Inr (ucast payload_size, msg_buf',
           rb\<lparr>rb_consumer_index := u64_of_index new_consumer\<rparr>))))"

definition Pop ::
  "(nat \<Rightarrow> u64) \<Rightarrow> byte list \<Rightarrow> u64 \<Rightarrow> ring_buffer \<Rightarrow>
   (u64 \<times> byte list \<times> ring_buffer) result option" where
  "Pop loads msg_buf msg_buf_capacity rb =
     map_option (\<lambda>_. Pop_read msg_buf msg_buf_capacity rb)
       (Pop_wait loads (index_of_u64 (rb_consumer_index rb)) 0)"

end
