(* ===== verification/System_Calls.thy ===== *)
theory System_Calls
  imports Text Ring_Buffer
begin

text \<open>
  The operating system as the connectors use it.  The kernel is an argument: it answers every
  call, given all calls and answers so far, and may not answer at all.  Operations of the
  program run against a kernel and extend the history, so that theorems can speak of which
  calls were made in which order.
\<close>

section \<open>Calls and answers\<close>

datatype domain = AF_INET | AF_UNIX

datatype socket_type = SOCK_STREAM_SCTP | SOCK_SEQPACKET

datatype address = Inet_Any "16 word" | Inet_Host int "16 word" | Unix_Path string

datatype sock_option = SO_SNDBUF | SO_RCVBUF | SCTP_NODELAY

datatype syscall =
    Sys_socket domain socket_type
  | Sys_bind int address
  | Sys_listen int int
  | Sys_accept int
  | Sys_connect int address
  | Sys_setsockopt int sock_option u64
  | Sys_getsockopt int sock_option
  | Sys_gethostbyname string
  | Sys_mkfifo string
  | Sys_open string
  | Sys_fcntl_SETFL_DIRECT int
  | Sys_fcntl_SETPIPE_SZ int u64
  | Sys_fcntl_GETPIPE_SZ int
  | Sys_shm_open_create string
  | Sys_shm_open string
  | Sys_ftruncate int u64
  | Sys_fstat int
  | Sys_mmap int u64
  | Sys_shm_unlink string
  | Sys_close int
  | Sys_unlink string
  | Sys_write int "byte list"
  | Sys_read int u64
  | Sys_sleep nat
  | Sys_print string
  | Shm_left string ring_buffer

text \<open>
  \<open>Sys_print\<close> is text put into \<open>std::cout\<close>, whose answer the program never looks at.  \<open>Shm_left\<close> is no call: it
  records how the process left the ring of a name in shared memory.
\<close>

datatype errno = EEXIST | ENOENT | ENXIO | Other_Errno int

text \<open>A failed call answers \<open>Fails\<close> (\<open>-1\<close>, \<open>NULL\<close> or \<open>MAP_FAILED\<close>, with \<open>errno\<close>).\<close>

datatype reply = Returns int | Fails errno | Returns_Bytes "byte list"

fun reply_value :: "reply \<Rightarrow> int" where
  "reply_value (Returns n) = n"
| "reply_value (Fails _) = - 1"
| "reply_value (Returns_Bytes bs) = int (length bs)"

fun reply_errno :: "reply \<Rightarrow> errno" where
  "reply_errno (Fails e) = e"
| "reply_errno _ = Other_Errno 0"

fun reply_bytes :: "reply \<Rightarrow> byte list" where
  "reply_bytes (Returns_Bytes bs) = bs"
| "reply_bytes _ = []"

type_synonym history = "(syscall \<times> reply) list"
type_synonym kernel = "history \<Rightarrow> syscall \<Rightarrow> reply option"

section \<open>Operations against a kernel\<close>

type_synonym 'a io = "kernel \<Rightarrow> history \<Rightarrow> ('a result \<times> history) option"

definition io_return :: "'a \<Rightarrow> 'a io" where
  "io_return x K h = Some (Inr x, h)"

definition io_throw :: "cxx_error \<Rightarrow> 'a io" where
  "io_throw e K h = Some (Inl e, h)"

definition io_bind :: "'a io \<Rightarrow> ('a \<Rightarrow> 'b io) \<Rightarrow> 'b io" where
  "io_bind m f K h =
     (case m K h of
        None \<Rightarrow> None
      | Some (Inl e, h') \<Rightarrow> Some (Inl e, h')
      | Some (Inr x, h') \<Rightarrow> f x K h')"

definition io_of_result :: "'a result \<Rightarrow> 'a io" where
  "io_of_result r K h = Some (r, h)"

definition sys :: "syscall \<Rightarrow> reply io" where
  "sys c K h = map_option (\<lambda>r. (Inr r, h @ [(c, r)])) (K h c)"

text \<open>\<open>if (call == -1) throw std::runtime_error(...)\<close>\<close>

definition sys_or_throw :: "syscall \<Rightarrow> string \<Rightarrow> reply io" where
  "sys_or_throw c msg =
     io_bind (sys c) (\<lambda>r. if reply_value r = - 1 then io_throw (Runtime_Error msg) else io_return r)"

lemma sys_or_throw_run:
  "sys_or_throw c msg K h =
     map_option (\<lambda>r. (if reply_value r = - 1 then Inl (Runtime_Error msg) else Inr r, h @ [(c, r)])) (K h c)"
  by (cases "K h c") (auto simp: sys_or_throw_def io_bind_def sys_def io_throw_def io_return_def)

lemma sys_run: "sys c K h = map_option (\<lambda>r. (Inr r, h @ [(c, r)])) (K h c)"
  by (simp add: sys_def)

lemma io_bind_run:
  "io_bind m f K h = Some (x, h'') \<longleftrightarrow>
     (\<exists>e. m K h = Some (Inl e, h'') \<and> x = Inl e) \<or>
     (\<exists>y h'. m K h = Some (Inr y, h') \<and> f y K h' = Some (x, h''))"
  by (cases "m K h"; cases "fst (the (m K h))") (auto simp: io_bind_def split: prod.splits)

lemma io_return_run: "io_return x K h = Some (y, h') \<longleftrightarrow> y = Inr x \<and> h' = h"
  by (auto simp: io_return_def)

lemma io_throw_run: "io_throw e K h = Some (y, h') \<longleftrightarrow> y = Inl e \<and> h' = h"
  by (auto simp: io_throw_def)

lemma io_of_result_run: "io_of_result r K h = Some (y, h') \<longleftrightarrow> r = y \<and> h' = h"
  by (auto simp: io_of_result_def)

lemma sys_Some: "sys c K h = Some (y, h') \<longleftrightarrow> (\<exists>r. K h c = Some r \<and> y = Inr r \<and> h' = h @ [(c, r)])"
  by (auto simp: sys_run)

lemma sys_or_throw_Some:
  "sys_or_throw c msg K h = Some (y, h') \<longleftrightarrow> (\<exists>r. K h c = Some r \<and> h' = h @ [(c, r)] \<and>
     y = (if reply_value r = - 1 then Inl (Runtime_Error msg) else Inr r))"
  by (auto simp: sys_or_throw_run)

lemmas io_simps = io_bind_run io_return_run io_throw_run io_of_result_run sys_Some sys_or_throw_Some

text \<open>An operation as an outcome in a world that is the history, and back.\<close>

definition io_outcome :: "'a io \<Rightarrow> kernel \<Rightarrow> history \<Rightarrow> ('a \<times> history, history) outcome" where
  "io_outcome m K h =
     map_option (\<lambda>(r, h'). case r of Inl e \<Rightarrow> Inl (e, h') | Inr x \<Rightarrow> Inr (x, h')) (m K h)"

definition io_of_outcome :: "(kernel \<Rightarrow> history \<Rightarrow> ('a \<times> history, history) outcome) \<Rightarrow> 'a io" where
  "io_of_outcome f K h = map_option (\<lambda>r. case r of Inl (e, h') \<Rightarrow> (Inl e, h') | Inr (x, h') \<Rightarrow> (Inr x, h')) (f K h)"

lemma io_outcome_Some:
  "io_outcome m K h = Some r \<longleftrightarrow>
     (\<exists>e h'. m K h = Some (Inl e, h') \<and> r = Inl (e, h')) \<or> (\<exists>x h'. m K h = Some (Inr x, h') \<and> r = Inr (x, h'))"
  by (cases "m K h"; cases "fst (the (m K h))") (auto simp: io_outcome_def)

lemma io_of_outcome_Some:
  "io_of_outcome f K h = Some (r, h') \<longleftrightarrow>
     (\<exists>e. f K h = Some (Inl (e, h')) \<and> r = Inl e) \<or> (\<exists>x. f K h = Some (Inr (x, h')) \<and> r = Inr x)"
  by (cases "f K h"; cases "the (f K h)") (auto simp: io_of_outcome_def split: sum.splits)

section \<open>Reading a history\<close>

text \<open>The descriptors a history has opened, and the ones passed to \<open>close\<close>.\<close>

fun opens :: "syscall \<Rightarrow> bool" where
  "opens (Sys_socket _ _) = True"
| "opens (Sys_accept _) = True"
| "opens (Sys_open _) = True"
| "opens (Sys_shm_open_create _) = True"
| "opens (Sys_shm_open _) = True"
| "opens _ = False"

definition opened :: "history \<Rightarrow> int list" where
  "opened h = [reply_value r. (c, r) \<leftarrow> h, opens c, reply_value r \<noteq> - 1]"

definition closed_fds :: "history \<Rightarrow> int list" where
  "closed_fds h = concat (map (\<lambda>(c, r). case c of Sys_close fd \<Rightarrow> [fd] | _ \<Rightarrow> []) h)"

lemma opened_append [simp]: "opened (h @ h') = opened h @ opened h'"
  by (simp add: opened_def)

lemma closed_fds_append [simp]: "closed_fds (h @ h') = closed_fds h @ closed_fds h'"
  by (simp add: closed_fds_def)

lemma opened_Cons [simp]:
  "opened [] = []"
  "opened ((c, r) # h) = (if opens c \<and> reply_value r \<noteq> - 1 then [reply_value r] else []) @ opened h"
  by (simp_all add: opened_def)

lemma closed_fds_Cons [simp]:
  "closed_fds [] = []"
  "closed_fds ((c, r) # h) = (case c of Sys_close fd \<Rightarrow> [fd] | _ \<Rightarrow> []) @ closed_fds h"
  by (simp_all add: closed_fds_def)

end
