(* ===== verification/Utils.thy ===== *)
theory Utils
  imports Text
begin

text \<open>
  The small helpers of the modes: splitting \<open>host:port\<close> (\<open>run/src/common/src/utils.cpp\<close>) and
  pinning the process to a processor (\<open>run/src/common/src/scheduler.cpp\<close>).
\<close>

section \<open>Host and port\<close>

record HostAndPort =
  host :: string
  port :: int

definition ParseHostAndPort :: "string \<Rightarrow> HostAndPort result" where
  "ParseHostAndPort connection_string =
     (case str_find '':'' connection_string of
        None \<Rightarrow> Inl (Runtime_Error ''Cannot find colon symbol in connection string'')
      | Some colon_symbol_pos \<Rightarrow>
          rbind (stoi (substr_from (colon_symbol_pos + 1) connection_string)) (\<lambda>p.
          Inr \<lparr>host = substr 0 colon_symbol_pos connection_string, port = p\<rparr>))"

lemma str_find_colon: "str_find '':'' s = None \<longleftrightarrow> CHR 0x3A \<notin> set s"
  by (induction s) auto

lemma ParseHostAndPort_split:
  assumes "CHR 0x3A \<notin> set h"
  shows "ParseHostAndPort (h @ '':'' @ t) = rbind (stoi t) (\<lambda>p. Inr \<lparr>host = h, port = p\<rparr>)"
  using str_find_append [OF assms, of "[]" t]
  by (simp add: ParseHostAndPort_def substr_def substr_from_def)

text \<open>\<open>htons\<close> of a port: only its low 16 bits are used.\<close>

definition sin_port :: "int \<Rightarrow> 16 word" where
  "sin_port p = of_int p"

section \<open>Processor affinity\<close>

text \<open>
  \<open>CPU_ZERO\<close> and \<open>CPU_SET\<close> on a \<open>cpu_set_t\<close> of 1024 processors: an index out of range, read as
  \<open>size_t\<close>, changes nothing.  \<open>sched_setaffinity\<close> stands for the system call on this process.
\<close>

definition CPU_SET :: "int \<Rightarrow> nat set" where
  "CPU_SET cpu_id = (if 0 \<le> cpu_id \<and> cpu_id < 1024 then {nat cpu_id} else {})"

definition SchedSetAffinity :: "(nat set \<Rightarrow> int) \<Rightarrow> int \<Rightarrow> unit result" where
  "SchedSetAffinity sched_setaffinity cpu_id =
     (if cpu_id = - 1 then Inr ()
      else if sched_setaffinity (CPU_SET cpu_id) = - 1
           then Inl (Runtime_Error ''sched_setaffinity() failed'')
           else Inr ())"

section \<open>Reporting an exception\<close>

text \<open>
  The handler around the body of every \<open>runAs\<close> function, whose name comes first: the text of a
  \<open>std::exception\<close> is printed and the exception goes on.  A failed \<open>assert\<close> aborts, and no
  handler runs.  \<open>what\<close> is \<open>e.what()\<close>.
\<close>

fun is_exception :: "cxx_error \<Rightarrow> bool" where
  "is_exception (Assert_Failed _) = False"
| "is_exception Std_Terminate = False"
| "is_exception (Undefined_Behaviour _) = False"
| "is_exception _ = True"

definition report_exception :: "(cxx_error \<Rightarrow> string) \<Rightarrow> string \<Rightarrow> string \<times> 'a result \<Rightarrow> string \<times> 'a result" where
  "report_exception what name r =
     (case snd r of
        Inl e \<Rightarrow> if is_exception e
                 then (fst r @ ''['' @ name @ ''] An error occurred during work: '' @ what e @ endl, Inl e)
                 else r
      | Inr _ \<Rightarrow> r)"

section \<open>Properties\<close>

text \<open>A \<open>host:port\<close> string, whose host has no colon, is split at the colon and the port is read as the
  number it prints; a string without colon and a port that is no number are exceptions.\<close>

theorem host_and_port:
  assumes "CHR 0x3A \<notin> set h" and "in_int p" and "CHR 0x3A \<notin> set s"
    and "t = [] \<or> \<not> is_digit (hd t) \<and> \<not> is_space (hd t) \<and> hd t \<noteq> CHR 0x2B \<and> hd t \<noteq> CHR 0x2D"
  shows "ParseHostAndPort (h @ '':'' @ to_string_int p) = Inr \<lparr>host = h, port = p\<rparr> \<and>
    ParseHostAndPort s = Inl (Runtime_Error ''Cannot find colon symbol in connection string'') \<and>
    ParseHostAndPort (h @ '':'' @ t) = Inl Invalid_Argument"
proof (intro conjI)
  show "ParseHostAndPort (h @ '':'' @ to_string_int p) = Inr \<lparr>host = h, port = p\<rparr>"
    by (simp add: ParseHostAndPort_split [OF assms(1), simplified] stoi_to_string [OF assms(2)])
  have "str_find '':'' s = None" using assms(3) str_find_colon [of s] by (simp only: not_False_eq_True)
  then show "ParseHostAndPort s = Inl (Runtime_Error ''Cannot find colon symbol in connection string'')"
    by (simp only: ParseHostAndPort_def option.case)
  have "stoi t = Inl Invalid_Argument"
    using assms(4) by (cases t) (auto simp: stoi_def scan_int_def scan_digits_def Let_def)
  then show "ParseHostAndPort (h @ '':'' @ t) = Inl Invalid_Argument"
    by (simp add: ParseHostAndPort_split [OF assms(1), simplified])
qed

theorem host_and_port_witness:
  "ParseHostAndPort ''localhost:8000'' = Inr \<lparr>host = ''localhost'', port = 8000\<rparr> \<and>
   ParseHostAndPort ''localhost'' = Inl (Runtime_Error ''Cannot find colon symbol in connection string'') \<and>
   ParseHostAndPort ''localhost:http'' = Inl Invalid_Argument"
proof -
  have "to_string_int 8000 = ''8000''"
    by (simp add: to_string_int_def to_string_def digits_rev.simps digit_char_def) code_simp
  then show ?thesis
    using host_and_port [of "''localhost''" 8000 "''localhost''" "''http''"]
    by (simp add: in_int_def is_digit_def is_space_def)
qed

end
