(* ===== verification/Arguments.thy ===== *)
theory Arguments
  imports Text
begin

text \<open>
  Connection types and modes with their names (\<open>connection/src/types.cpp\<close>, \<open>run/src/types.cpp\<close>)
  and the class \<open>Arguments\<close> every mode's command line derives from
  (\<open>run/src/common/src/arguments.cpp\<close>): a table of items with parsers, and a count of the
  required items that have not been parsed yet.
\<close>

section \<open>Connection types and modes\<close>

datatype ConnectionType = kNetSocket | kPipe | kSharedMemory | kUnixSocket

definition quoted :: "string \<Rightarrow> string" where
  "quoted s = [CHR 0x22] @ s @ [CHR 0x22]"

definition Convert_connection :: "string \<Rightarrow> ConnectionType result" where
  "Convert_connection connection =
     (if connection = ''netsock'' then Inr kNetSocket
      else if connection = ''pipe'' then Inr kPipe
      else if connection = ''shmem'' then Inr kSharedMemory
      else if connection = ''uxsock'' then Inr kUnixSocket
      else Inl (Runtime_Error (''Unsupported connection type: name='' @ quoted connection)))"

fun ToString :: "ConnectionType \<Rightarrow> string" where
  "ToString kNetSocket = ''netsock''"
| "ToString kPipe = ''pipe''"
| "ToString kSharedMemory = ''shmem''"
| "ToString kUnixSocket = ''uxsock''"

datatype Mode = Mode_Consumer | Mode_Producer | Mode_Analyzer | Mode_RunTest

definition Convert_mode :: "string \<Rightarrow> Mode result" where
  "Convert_mode role =
     (if role = ''consumer'' then Inr Mode_Consumer
      else if role = ''producer'' then Inr Mode_Producer
      else if role = ''analyzer'' then Inr Mode_Analyzer
      else if role = ''run_test'' then Inr Mode_RunTest
      else Inl (Runtime_Error ''Unsupported mode type''))"

lemma Convert_ToString [simp]: "Convert_connection (ToString t) = Inr t"
  by (cases t) (simp_all add: Convert_connection_def)

lemma ToString_no_colon: "CHR 0x3A \<notin> set (ToString t)"
  by (cases t) simp_all

text \<open>The parsers of \<open><type>://<id>\<close>, which occur in the arguments of three modes.\<close>

definition parse_connection :: "string \<Rightarrow> (ConnectionType \<times> string) result" where
  "parse_connection v =
     (case str_find ''://'' v of
        None \<Rightarrow> Inl (Runtime_Error ''Cannot parse connection type from argument'')
      | Some n \<Rightarrow> rbind (Convert_connection (substr 0 n v)) (\<lambda>t. Inr (t, substr_from (n + 3) v)))"

lemma parse_connection_ok: "parse_connection (ToString t @ ''://'' @ cid) = Inr (t, cid)"
  using str_find_append [OF ToString_no_colon [of t], of "''//''" cid]
  by (simp add: parse_connection_def substr_def substr_from_def)

section \<open>The class Arguments\<close>

text \<open>
  The parsers are closures that write the fields of the derived object; \<open>'s\<close> stands for
  those fields.
\<close>

record 's item =
  item_name :: string
  item_key :: int
  item_required :: bool
  item_parser :: "string \<Rightarrow> 's \<Rightarrow> 's result"
  item_parsed :: bool

definition Required :: "string \<Rightarrow> int \<Rightarrow> (string \<Rightarrow> 's \<Rightarrow> 's result) \<Rightarrow> 's item" where
  "Required name key p = \<lparr>item_name = name, item_key = key, item_required = True,
     item_parser = p, item_parsed = False\<rparr>"

definition Optional :: "string \<Rightarrow> int \<Rightarrow> (string \<Rightarrow> 's \<Rightarrow> 's result) \<Rightarrow> 's item" where
  "Optional name key p = \<lparr>item_name = name, item_key = key, item_required = False,
     item_parser = p, item_parsed = False\<rparr>"

record 's arguments =
  requred_items_count :: int
  args_items :: "int \<Rightarrow> 's item option"

text \<open>\<open>emplace\<close> keeps an item that is there already, but the count goes up all the same.\<close>

definition add_item :: "'s item \<Rightarrow> 's arguments \<Rightarrow> 's arguments" where
  "add_item i a =
     (let a' = (if item_required i then a\<lparr>requred_items_count := requred_items_count a + 1\<rparr> else a) in
      if args_items a' (item_key i) = None then a'\<lparr>args_items := (args_items a')(item_key i \<mapsto> i)\<rparr>
      else a')"

definition Arguments :: "'s item list \<Rightarrow> 's arguments" where
  "Arguments items = fold add_item items \<lparr>requred_items_count = 0, args_items = (\<lambda>_. None)\<rparr>"

definition HasNotParsedRequiredArguments :: "'s arguments \<Rightarrow> bool" where
  "HasNotParsedRequiredArguments a \<longleftrightarrow> requred_items_count a \<noteq> 0"

definition ParseArgument :: "int \<Rightarrow> string \<Rightarrow> 's arguments \<times> 's \<Rightarrow> ('s arguments \<times> 's) result" where
  "ParseArgument key v as =
     (case args_items (fst as) key of
        None \<Rightarrow> Inl (Assert_Failed ''it != std::end(_items)'')
      | Some i \<Rightarrow>
          rbind (item_parser i v (snd as)) (\<lambda>s'.
          let a = fst as;
              a' = (if item_required i \<and> \<not> item_parsed i
                    then a\<lparr>requred_items_count := requred_items_count a - 1\<rparr> else a)
          in Inr (a'\<lparr>args_items := (args_items a')(key \<mapsto> i\<lparr>item_parsed := True\<rparr>)\<rparr>, s')))"

section \<open>Driving it from the command line\<close>

text \<open>The calls \<open>argp\<close> makes of a mode's \<open>parser\<close>, and what the parser answers.\<close>

datatype argp_event = KEY_INIT | KEY_END | KEY_OPTION int string | KEY_OTHER int

datatype 'a argp_answer =
    Argp_Ok 'a
  | Argp_Err_Unknown
  | Argp_Failure string
  | Argp_Throws cxx_error

text \<open>The common shape of the four parsers: \<open>keys\<close> are the cases of their \<open>switch\<close>.\<close>

definition switch_keys :: "int list \<Rightarrow> argp_event \<Rightarrow> 's arguments \<times> 's \<Rightarrow> ('s arguments \<times> 's) argp_answer" where
  "switch_keys keys ev as =
     (case ev of
        KEY_INIT \<Rightarrow> Argp_Ok as
      | KEY_END \<Rightarrow> if HasNotParsedRequiredArguments (fst as)
                   then Argp_Failure ''Too few required arguments'' else Argp_Ok as
      | KEY_OPTION key v \<Rightarrow>
          if key \<in> set keys
          then (case ParseArgument key v as of Inl e \<Rightarrow> Argp_Throws e | Inr as' \<Rightarrow> Argp_Ok as')
          else Argp_Err_Unknown
      | KEY_OTHER _ \<Rightarrow> Argp_Err_Unknown)"

text \<open>\<open>argp_parse\<close> delivers \<open>KEY_INIT\<close>, the options in order and \<open>KEY_END\<close>, until the parser fails.\<close>

fun drive :: "(argp_event \<Rightarrow> 'a \<Rightarrow> 'a argp_answer) \<Rightarrow> argp_event list \<Rightarrow> 'a \<Rightarrow> 'a argp_answer" where
  "drive p [] as = Argp_Ok as"
| "drive p (ev # evs) as = (case p ev as of Argp_Ok as' \<Rightarrow> drive p evs as' | r \<Rightarrow> r)"

definition option_events :: "(int \<times> string) list \<Rightarrow> argp_event list" where
  "option_events opts = [KEY_INIT] @ map (\<lambda>(k, v). KEY_OPTION k v) opts @ [KEY_END]"

section \<open>The count\<close>

definition open_keys :: "'s arguments \<Rightarrow> int set" where
  "open_keys a = {k. \<exists>i. args_items a k = Some i \<and> item_required i \<and> \<not> item_parsed i}"

definition count_inv :: "'s arguments \<Rightarrow> bool" where
  "count_inv a \<longleftrightarrow> finite (dom (args_items a)) \<and> requred_items_count a = int (card (open_keys a))"

lemma open_keys_finite: "count_inv a \<Longrightarrow> finite (open_keys a)"
  by (rule finite_subset [of _ "dom (args_items a)"]) (auto simp: open_keys_def count_inv_def)

lemma count_inv_iff: "count_inv a \<Longrightarrow> HasNotParsedRequiredArguments a \<longleftrightarrow> open_keys a \<noteq> {}"
  using open_keys_finite [of a] by (simp add: HasNotParsedRequiredArguments_def count_inv_def)

lemma add_item_inv:
  assumes "count_inv a" and "args_items a (item_key i) = None" and "\<not> item_parsed i"
  shows "count_inv (add_item i a)"
    "open_keys (add_item i a) = (if item_required i then insert (item_key i) (open_keys a) else open_keys a)"
    "args_items (add_item i a) = (args_items a)(item_key i \<mapsto> i)"
proof -
  show items: "args_items (add_item i a) = (args_items a)(item_key i \<mapsto> i)"
    using assms(2) by (simp add: add_item_def Let_def)
  show ok: "open_keys (add_item i a) = (if item_required i then insert (item_key i) (open_keys a) else open_keys a)"
    using assms(2,3) by (auto simp: open_keys_def items)
  have "item_key i \<notin> open_keys a" using assms(2) by (simp add: open_keys_def)
  then show "count_inv (add_item i a)"
    using assms(1,2) open_keys_finite [OF assms(1)]
    by (simp add: count_inv_def items ok) (simp add: add_item_def Let_def)
qed

lemma fold_add_item:
  assumes "count_inv a" and "distinct (map item_key items)" and "\<forall>i \<in> set items. \<not> item_parsed i"
    and "\<forall>i \<in> set items. args_items a (item_key i) = None"
  shows "count_inv (fold add_item items a) \<and>
    open_keys (fold add_item items a) = open_keys a \<union> item_key ` {i \<in> set items. item_required i} \<and>
    dom (args_items (fold add_item items a)) = dom (args_items a) \<union> item_key ` set items \<and>
    (\<forall>i \<in> set items. args_items (fold add_item items a) (item_key i) = Some i) \<and>
    (\<forall>k. k \<notin> item_key ` set items \<longrightarrow> args_items (fold add_item items a) k = args_items a k)"
  using assms
proof (induction items arbitrary: a)
  case (Cons i items)
  note a1 = add_item_inv [OF Cons.prems(1), of i]
  have "args_items a (item_key i) = None" "\<not> item_parsed i" using Cons.prems by simp_all
  note a1 = a1 [OF this]
  have "args_items (add_item i a) (item_key j) = None" if j: "j \<in> set items" for j
  proof -
    from j have "item_key j \<in> item_key ` set items" by (rule imageI)
    then have "item_key j \<noteq> item_key i" using Cons.prems(2) by auto
    with Cons.prems(4) j show ?thesis by (simp add: a1(3))
  qed
  with Cons.IH [OF a1(1)] Cons.prems show ?case
    by (auto simp: a1 image_iff)
qed simp

lemma Arguments_inv:
  assumes "distinct (map item_key items)" and "\<forall>i \<in> set items. \<not> item_parsed i"
  shows "count_inv (Arguments items)" "open_keys (Arguments items) = item_key ` {i \<in> set items. item_required i}"
    "dom (args_items (Arguments items)) = item_key ` set items"
    "\<And>i. i \<in> set items \<Longrightarrow> args_items (Arguments items) (item_key i) = Some i"
  using fold_add_item [OF _ assms, of "\<lparr>requred_items_count = 0, args_items = (\<lambda>_. None)\<rparr>"]
  by (simp_all add: Arguments_def count_inv_def open_keys_def)

lemma ParseArgument_inv:
  assumes "count_inv a" and "ParseArgument key v (a, s) = Inr (a', s')"
  shows "count_inv a' \<and> open_keys a' = open_keys a - {key}"
proof -
  from assms(2) obtain i where i: "args_items a key = Some i"
    by (auto simp: ParseArgument_def split: option.splits)
  have items: "args_items a' = (args_items a)(key \<mapsto> i\<lparr>item_parsed := True\<rparr>)"
    and count: "requred_items_count a' =
      (if item_required i \<and> \<not> item_parsed i then requred_items_count a - 1 else requred_items_count a)"
    using assms(2) i by (auto simp: ParseArgument_def rbind_Inr Let_def split: if_splits)
  have ok: "open_keys a' = open_keys a - {key}"
    using i by (auto simp: open_keys_def items)
  have "key \<in> open_keys a \<longleftrightarrow> item_required i \<and> \<not> item_parsed i" using i by (simp add: open_keys_def)
  moreover have "0 < card (open_keys a)" if "key \<in> open_keys a"
    using that open_keys_finite [OF assms(1)] card_gt_0_iff by blast
  ultimately show ?thesis
    using assms(1) open_keys_finite [OF assms(1)]
    by (auto simp: count_inv_def items ok count card_Diff_singleton_if)
qed

lemma switch_keys_option: "switch_keys keys (KEY_OPTION key v) as = (if key \<in> set keys
    then (case ParseArgument key v as of Inl e \<Rightarrow> Argp_Throws e | Inr as' \<Rightarrow> Argp_Ok as')
    else Argp_Err_Unknown)"
  by (simp add: switch_keys_def)

text \<open>The options alone, without the final check.\<close>

lemma drive_inv:
  assumes "drive (switch_keys keys) (map (\<lambda>(k, v). KEY_OPTION k v) opts) (a, s) = Argp_Ok (a', s')"
    and "count_inv a"
  shows "count_inv a' \<and> open_keys a' = open_keys a - fst ` set opts"
  using assms
proof (induction opts arbitrary: a s)
  case (Cons kv opts)
  obtain k v where kv: "kv = (k, v)" by fastforce
  from Cons.prems(1) obtain a1 s1 where p: "ParseArgument k v (a, s) = Inr (a1, s1)"
    and d: "drive (switch_keys keys) (map (\<lambda>(k, v). KEY_OPTION k v) opts) (a1, s1) = Argp_Ok (a', s')"
    by (auto simp: kv switch_keys_option split: if_splits sum.splits)
  from ParseArgument_inv [OF Cons.prems(2) p] Cons.IH [OF d] show ?case by (auto simp: kv)
qed simp

lemma drive_append: "drive p (xs @ ys) as = (case drive p xs as of Argp_Ok as' \<Rightarrow> drive p ys as' | r \<Rightarrow> r)"
  by (induction xs arbitrary: as) (auto split: argp_answer.splits)

end
