(* ===== verification/Buffer.thy ===== *)
theory Buffer
  imports Prelude
begin

text \<open>
  The message buffer every packer writes to and every connector sends or fills
  (\<open>src/src/connection/src/buffer/buffer.cpp\<close>): a fixed array of bytes with a read and a write
  pointer.  Pointers are 64-bit addresses, so the bounds check \<open>_buf_write_ptr + size > _buf_end\<close>
  is the one the machine makes.
\<close>

section \<open>State and operations\<close>

definition kBufferCapacityInBytes :: nat where
  "kBufferCapacityInBytes = 10000"

text \<open>
  \<open>buffer_self\<close> is the address of the array \<open>_buffer\<close> and \<open>buffer_bytes\<close> its content; the
  other fields are the pointers \<open>_buf\<close>, \<open>_buf_end\<close>, \<open>_buf_read_ptr\<close> and \<open>_buf_write_ptr\<close>.
\<close>

record buffer =
  buffer_self :: u64
  buffer_bytes :: "byte list"
  buf :: u64
  buf_end :: u64
  buf_read_ptr :: u64
  buf_write_ptr :: u64

text \<open>The constructor, on an object at address \<open>self\<close> whose array has the content \<open>bytes\<close>.\<close>

definition Buffer_init :: "u64 \<Rightarrow> byte list \<Rightarrow> buffer" where
  "Buffer_init self bytes = \<lparr>buffer_self = self, buffer_bytes = bytes, buf = self,
     buf_end = self + of_nat kBufferCapacityInBytes, buf_read_ptr = self, buf_write_ptr = self\<rparr>"

definition Reset :: "buffer \<Rightarrow> buffer" where
  "Reset b = b\<lparr>buf_read_ptr := buffer_self b, buf_write_ptr := buffer_self b\<rparr>"

definition Data :: "buffer \<Rightarrow> u64" where
  "Data b = buffer_self b"

definition Capacity :: "buffer \<Rightarrow> u64" where
  "Capacity b = of_nat kBufferCapacityInBytes"

definition UsedBytes :: "buffer \<Rightarrow> u64" where
  "UsedBytes b = buf_write_ptr b - buf b"

text \<open>The offset in the array a pointer points to.\<close>

definition buffer_offset :: "buffer \<Rightarrow> u64 \<Rightarrow> nat" where
  "buffer_offset b p = unat (p - buffer_self b)"

text \<open>\<open>data\<close> is the memory behind the pointer argument, from the pointer on.\<close>

definition WriteBytes :: "byte list \<Rightarrow> u64 \<Rightarrow> buffer \<Rightarrow> buffer result" where
  "WriteBytes data sz b =
     (if buf_end b < buf_write_ptr b + sz
      then Inl (Runtime_Error ''message is not fit in buffer'')
      else rbind (mem_read 0 (unat sz) data) (\<lambda>bs.
           rbind (mem_write (buffer_offset b (buf_write_ptr b)) bs (buffer_bytes b)) (\<lambda>bytes.
           Inr (b\<lparr>buffer_bytes := bytes, buf_write_ptr := buf_write_ptr b + sz\<rparr>))))"

text \<open>The result has the memory behind the pointer argument as the call leaves it.\<close>

definition ReadBytes :: "byte list \<Rightarrow> u64 \<Rightarrow> buffer \<Rightarrow> (byte list \<times> buffer) result" where
  "ReadBytes data sz b =
     (if buf_end b < buf_read_ptr b + sz
      then Inl (Runtime_Error ''not enough message in buffer'')
      else rbind (mem_read (buffer_offset b (buf_read_ptr b)) (unat sz) (buffer_bytes b)) (\<lambda>bs.
           rbind (mem_write 0 bs data) (\<lambda>data'.
           Inr (data', b\<lparr>buf_read_ptr := buf_read_ptr b + sz\<rparr>))))"

text \<open>
  The loops of the reversing variants.  \<open>n\<close> is \<open>size\<close>, \<open>i\<close> the offset in \<open>data\<close> just behind
  \<open>data_ptr\<close>, so that the last decrement, which leaves the array, still is a number.
\<close>

fun write_reverse_loop ::
  "nat \<Rightarrow> nat \<Rightarrow> byte list \<Rightarrow> u64 \<Rightarrow> buffer \<Rightarrow> (u64 \<times> buffer) result" where
  "write_reverse_loop 0 i data buf_ptr b = Inr (buf_ptr, b)"
| "write_reverse_loop (Suc n) i data buf_ptr b =
     rbind (mem_read (i - 1) 1 data) (\<lambda>x.
     rbind (mem_write (buffer_offset b buf_ptr) x (buffer_bytes b)) (\<lambda>bytes.
     write_reverse_loop n (i - 1) data (buf_ptr + 1) (b\<lparr>buffer_bytes := bytes\<rparr>)))"

fun read_reverse_loop ::
  "nat \<Rightarrow> nat \<Rightarrow> byte list \<Rightarrow> u64 \<Rightarrow> buffer \<Rightarrow> (u64 \<times> byte list) result" where
  "read_reverse_loop 0 i data buf_ptr b = Inr (buf_ptr, data)"
| "read_reverse_loop (Suc n) i data buf_ptr b =
     rbind (mem_read (buffer_offset b buf_ptr) 1 (buffer_bytes b)) (\<lambda>x.
     rbind (mem_write (i - 1) x data) (\<lambda>data'.
     read_reverse_loop n (i - 1) data' (buf_ptr + 1) b))"

definition WriteBytesInReverseOrder :: "byte list \<Rightarrow> u64 \<Rightarrow> buffer \<Rightarrow> buffer result" where
  "WriteBytesInReverseOrder data sz b =
     (if buf_end b < buf_write_ptr b + sz
      then Inl (Runtime_Error ''message is not fit in buffer'')
      else rbind (write_reverse_loop (unat sz) (unat sz) data (buf_write_ptr b) b) (\<lambda>(buf_ptr, b').
           Inr (b'\<lparr>buf_write_ptr := buf_ptr\<rparr>)))"

definition ReadBytesInReverseOrder :: "byte list \<Rightarrow> u64 \<Rightarrow> buffer \<Rightarrow> (byte list \<times> buffer) result" where
  "ReadBytesInReverseOrder data sz b =
     (if buf_end b < buf_read_ptr b + sz
      then Inl (Runtime_Error ''not enough message in buffer'')
      else rbind (read_reverse_loop (unat sz) (unat sz) data (buf_read_ptr b) b) (\<lambda>(buf_ptr, data').
           Inr (data', b\<lparr>buf_read_ptr := buf_ptr\<rparr>)))"

section \<open>Invariant and operations on offsets\<close>

definition wr :: "buffer \<Rightarrow> nat" where
  "wr b = buffer_offset b (buf_write_ptr b)"

definition rd :: "buffer \<Rightarrow> nat" where
  "rd b = buffer_offset b (buf_read_ptr b)"

text \<open>The array lies at an address of user space, below \<open>2 ^ 47\<close>.\<close>

definition buffer_inv :: "buffer \<Rightarrow> bool" where
  "buffer_inv b \<longleftrightarrow> length (buffer_bytes b) = kBufferCapacityInBytes \<and>
     unat (buffer_self b) < 2 ^ 47 \<and> buf b = buffer_self b \<and>
     buf_end b = buffer_self b + of_nat kBufferCapacityInBytes \<and>
     wr b \<le> kBufferCapacityInBytes \<and> rd b \<le> kBufferCapacityInBytes"

lemma buffer_capacity_less: "kBufferCapacityInBytes < 2 ^ 64"
  by (simp add: kBufferCapacityInBytes_def)

lemma ptr_offset: "p = buffer_self b + of_nat (buffer_offset b p)"
  by (simp add: buffer_offset_def)

text \<open>The machine's bounds check is a comparison of offsets as long as the addition does not wrap.\<close>

lemma bounds_check:
  assumes "buffer_inv b" and "buffer_offset b p \<le> kBufferCapacityInBytes" and "n < 2 ^ 63"
  shows "buf_end b < p + of_nat n \<longleftrightarrow> kBufferCapacityInBytes < buffer_offset b p + n"
proof -
  define a where "a = unat (buffer_self b)"
  define k where "k = kBufferCapacityInBytes"
  have self: "buffer_self b = of_nat a" by (simp add: a_def)
  have p: "p + of_nat n = (of_nat (a + buffer_offset b p + n) :: u64)"
    by (subst ptr_offset [of p b]) (simp add: self)
  have e: "buf_end b = (of_nat (a + k) :: u64)"
    using assms(1) by (simp add: buffer_inv_def self k_def)
  have "unat (of_nat (a + k) :: u64) = a + k"
    using assms(1) by (intro unat_of_nat_small)
      (simp add: buffer_inv_def a_def k_def kBufferCapacityInBytes_def)
  moreover have "unat (of_nat (a + buffer_offset b p + n) :: u64) = a + buffer_offset b p + n"
    using assms by (intro unat_of_nat_small)
      (simp add: buffer_inv_def a_def kBufferCapacityInBytes_def)
  ultimately show ?thesis
    unfolding e p word_less_nat_alt by (simp add: k_def del: of_nat_add)
qed

lemma buffer_offset_add:
  assumes "buffer_offset b p + n < 2 ^ 64"
  shows "buffer_offset b (p + of_nat n) = buffer_offset b p + n"
proof -
  have "p + of_nat n - buffer_self b = (of_nat (buffer_offset b p + n) :: u64)"
    by (subst ptr_offset [of p b]) simp
  moreover have "unat (of_nat (buffer_offset b p + n) :: u64) = buffer_offset b p + n"
    using assms by (intro unat_of_nat_small) simp
  ultimately show ?thesis by (simp only: buffer_offset_def)
qed

lemma offset_of_self [simp]: "buffer_offset b (buffer_self b) = 0"
  by (simp add: buffer_offset_def)

lemma Reset_inv [simp]: "buffer_inv b \<Longrightarrow> buffer_inv (Reset b)"
  by (simp add: buffer_inv_def Reset_def wr_def rd_def buffer_offset_def)

lemma Reset_sel [simp]: "wr (Reset b) = 0" "rd (Reset b) = 0"
  "buffer_bytes (Reset b) = buffer_bytes b" "buffer_self (Reset b) = buffer_self b"
  by (simp_all add: Reset_def wr_def rd_def buffer_offset_def)

lemma Buffer_init_inv:
  assumes "length bytes = kBufferCapacityInBytes" and "unat self < 2 ^ 47"
  shows "buffer_inv (Buffer_init self bytes)" "wr (Buffer_init self bytes) = 0"
    "rd (Buffer_init self bytes) = 0"
  using assms by (simp_all add: Buffer_init_def buffer_inv_def wr_def rd_def buffer_offset_def)

text \<open>The bytes written so far, which is what a connector sends.\<close>

definition written :: "buffer \<Rightarrow> byte list" where
  "written b = take (wr b) (buffer_bytes b)"

definition unread :: "buffer \<Rightarrow> byte list" where
  "unread b = drop (rd b) (buffer_bytes b)"

text \<open>What a successful write of \<open>data\<close> and a successful read of \<open>n\<close> bytes do.\<close>

definition buffer_grows :: "buffer \<Rightarrow> byte list \<Rightarrow> buffer \<Rightarrow> bool" where
  "buffer_grows b data b' \<longleftrightarrow> buffer_inv b' \<and> written b' = written b @ data \<and>
     buffer_bytes b' = splice (wr b) data (buffer_bytes b) \<and>
     wr b' = wr b + length data \<and> rd b' = rd b \<and> buffer_self b' = buffer_self b"

definition buffer_reads :: "buffer \<Rightarrow> nat \<Rightarrow> buffer \<Rightarrow> bool" where
  "buffer_reads b n b' \<longleftrightarrow> buffer_inv b' \<and> buffer_bytes b' = buffer_bytes b \<and>
     rd b' = rd b + n \<and> wr b' = wr b \<and> buffer_self b' = buffer_self b"

lemma buffer_grows_trans:
  assumes "buffer_grows b xs b1" and "buffer_grows b1 ys b2" and "buffer_inv b"
  shows "buffer_grows b (xs @ ys) b2"
proof -
  have "wr b + length xs + length ys \<le> length (buffer_bytes b)"
    using assms unfolding buffer_grows_def buffer_inv_def by simp
  then show ?thesis
    using assms(1,2) unfolding buffer_grows_def by (simp add: splice_splice)
qed

lemma buffer_reads_trans: "buffer_reads b m b1 \<Longrightarrow> buffer_reads b1 n b2 \<Longrightarrow> buffer_reads b (m + n) b2"
  by (simp add: buffer_reads_def)

lemma buffer_reads_unread: "buffer_reads b n b' \<Longrightarrow> unread b' = drop n (unread b)"
  by (simp add: buffer_reads_def unread_def add.commute)

lemma length_unread: "buffer_inv b \<Longrightarrow> length (unread b) = kBufferCapacityInBytes - rd b"
  by (simp add: unread_def buffer_inv_def)

lemma UsedBytes_wr: "buffer_inv b \<Longrightarrow> UsedBytes b = of_nat (wr b)"
  by (simp add: UsedBytes_def wr_def buffer_offset_def buffer_inv_def)

lemma WriteBytes_ok:
  assumes inv: "buffer_inv b" and fits: "wr b + length data \<le> kBufferCapacityInBytes"
  shows "\<exists>b'. WriteBytes data (of_nat (length data)) b = Inr b' \<and> buffer_grows b data b'"
proof -
  let ?n = "length data"
  have n: "?n < 2 ^ 64" "wr b + ?n < 2 ^ 64" using fits buffer_capacity_less by simp_all
  have chk: "\<not> buf_end b < buf_write_ptr b + of_nat ?n"
    using bounds_check [OF inv, of "buf_write_ptr b" ?n] fits
    by (simp add: wr_def kBufferCapacityInBytes_def)
  have u: "unat (of_nat ?n :: u64) = ?n" using n by (intro unat_of_nat_small) simp
  define b' where "b' = b\<lparr>buffer_bytes := splice (wr b) data (buffer_bytes b),
    buf_write_ptr := buf_write_ptr b + of_nat ?n\<rparr>"
  have len: "length (buffer_bytes b) = kBufferCapacityInBytes" using inv by (simp add: buffer_inv_def)
  have W: "WriteBytes data (of_nat ?n) b = Inr b'"
    using chk fits len by (simp add: WriteBytes_def u mem_read_ok mem_write_ok b'_def wr_def)
  have o: "buffer_offset b' p = buffer_offset b p" for p
    by (simp add: b'_def buffer_offset_def)
  have wr: "wr b' = wr b + ?n"
    using buffer_offset_add [of b "buf_write_ptr b" ?n] n by (simp add: wr_def o) (simp add: b'_def)
  have rd: "rd b' = rd b" by (simp add: rd_def o) (simp add: b'_def)
  have "buffer_inv b'"
    unfolding buffer_inv_def wr rd using inv fits len by (simp add: buffer_inv_def b'_def)
  moreover have "written b' = written b @ data"
    using fits len by (simp add: written_def wr) (simp add: b'_def take_splice_end)
  ultimately show ?thesis using W wr rd by (simp add: b'_def buffer_grows_def)
qed

lemma WriteBytes_full:
  assumes "buffer_inv b" and "kBufferCapacityInBytes < wr b + n" and "n < 2 ^ 63"
  shows "WriteBytes data (of_nat n) b = Inl (Runtime_Error ''message is not fit in buffer'')"
  using assms bounds_check [of b "buf_write_ptr b" n]
  by (simp add: WriteBytes_def buffer_inv_def wr_def)

lemma ReadBytes_ok:
  assumes inv: "buffer_inv b" and fits: "rd b + n \<le> kBufferCapacityInBytes" and n: "n = length data"
  shows "\<exists>b'. ReadBytes data (of_nat n) b = Inr (take n (unread b), b') \<and> buffer_reads b n b'"
proof -
  have n64: "n < 2 ^ 64" "rd b + n < 2 ^ 64" using fits buffer_capacity_less by simp_all
  have chk: "\<not> buf_end b < buf_read_ptr b + of_nat n"
    using bounds_check [OF inv, of "buf_read_ptr b" n] fits
    by (simp add: rd_def kBufferCapacityInBytes_def)
  have u: "unat (of_nat n :: u64) = n" using n64 by (intro unat_of_nat_small) simp
  define b' where "b' = b\<lparr>buf_read_ptr := buf_read_ptr b + of_nat n\<rparr>"
  have len: "length (buffer_bytes b) = kBufferCapacityInBytes" using inv by (simp add: buffer_inv_def)
  have "splice 0 (take n (drop (rd b) (buffer_bytes b))) data = take n (drop (rd b) (buffer_bytes b))"
    using len fits n by (simp add: splice_def)
  then have R: "ReadBytes data (of_nat n) b = Inr (take n (drop (rd b) (buffer_bytes b)), b')"
    using chk fits len u by (simp add: n ReadBytes_def mem_read_ok mem_write_ok b'_def rd_def)
  have o: "buffer_offset b' p = buffer_offset b p" for p
    by (simp add: b'_def buffer_offset_def)
  have rd: "rd b' = rd b + n"
    using buffer_offset_add [of b "buf_read_ptr b" n] n64 by (simp add: rd_def o) (simp add: b'_def)
  have wr: "wr b' = wr b" by (simp add: wr_def o) (simp add: b'_def)
  have "buffer_inv b'"
    unfolding buffer_inv_def wr rd using inv fits by (simp add: buffer_inv_def b'_def)
  with R wr rd show ?thesis by (simp add: b'_def buffer_reads_def unread_def)
qed

lemma ReadBytes_short:
  assumes "buffer_inv b" and "kBufferCapacityInBytes < rd b + n" and "n < 2 ^ 63"
  shows "ReadBytes data (of_nat n) b = Inl (Runtime_Error ''not enough message in buffer'')"
  using assms bounds_check [of b "buf_read_ptr b" n]
  by (simp add: ReadBytes_def buffer_inv_def rd_def)

section \<open>The reversing variants\<close>

lemma write_reverse_loop_ok:
  assumes "length (buffer_bytes b) = kBufferCapacityInBytes" and "i \<le> length data"
    and "buffer_offset b p + i \<le> kBufferCapacityInBytes"
  shows "write_reverse_loop i i data p b =
    Inr (p + of_nat i, b\<lparr>buffer_bytes := splice (buffer_offset b p) (rev (take i data)) (buffer_bytes b)\<rparr>)"
  using assms
proof (induction i arbitrary: p b)
  case (Suc i)
  let ?o = "buffer_offset b p"
  let ?b = "b\<lparr>buffer_bytes := splice ?o [data ! i] (buffer_bytes b)\<rparr>"
  have x: "take (Suc 0) (drop i data) = [data ! i]" using Suc.prems(2) by (simp add: take_Suc_conv_app_nth hd_drop_conv_nth take_Suc)
  have o: "buffer_offset ?b (p + 1) = Suc ?o"
    using buffer_offset_add [of b p 1] Suc.prems(3) buffer_capacity_less by (simp add: buffer_offset_def)
  have IH: "write_reverse_loop i i data (p + 1) ?b =
      Inr (p + 1 + of_nat i, ?b\<lparr>buffer_bytes := splice (Suc ?o) (rev (take i data)) (buffer_bytes ?b)\<rparr>)"
    using Suc.IH [of ?b "p + 1"] Suc.prems by (simp add: o)
  have "splice (Suc ?o) (rev (take i data)) (splice ?o [data ! i] (buffer_bytes b)) =
      splice ?o ([data ! i] @ rev (take i data)) (buffer_bytes b)"
    using Suc.prems by (intro splice_splice) simp_all
  moreover have "[data ! i] @ rev (take i data) = rev (take (Suc i) data)"
    using Suc.prems(2) by (simp add: take_Suc_conv_app_nth)
  moreover have "write_reverse_loop (Suc i) (Suc i) data p b = write_reverse_loop i i data (p + 1) ?b"
    using Suc.prems by (simp add: mem_read_ok mem_write_ok x)
  moreover have "p + 1 + of_nat i = p + of_nat (Suc i)" by simp
  ultimately show ?case using IH by simp
qed (simp add: splice_def)

lemma read_reverse_loop_ok:
  assumes "length (buffer_bytes b) = kBufferCapacityInBytes" and "i \<le> length data"
    and "buffer_offset b p + i \<le> kBufferCapacityInBytes"
  shows "read_reverse_loop i i data p b =
    Inr (p + of_nat i, splice 0 (rev (take i (drop (buffer_offset b p) (buffer_bytes b)))) data)"
  using assms
proof (induction i arbitrary: p data)
  case (Suc i)
  let ?o = "buffer_offset b p" and ?m = "buffer_bytes b"
  let ?data = "splice i [?m ! ?o] data"
  have x: "take (Suc 0) (drop ?o ?m) = [?m ! ?o]" using Suc.prems by (simp add: take_Suc hd_drop_conv_nth)
  have o: "buffer_offset b (p + 1) = Suc ?o"
    using buffer_offset_add [of b p 1] Suc.prems(3) buffer_capacity_less by simp
  have IH: "read_reverse_loop i i ?data (p + 1) b =
      Inr (p + 1 + of_nat i, splice 0 (rev (take i (drop (Suc ?o) ?m))) ?data)"
    using Suc.IH [of ?data "p + 1"] Suc.prems by (simp add: o)
  have "splice 0 (rev (take i (drop (Suc ?o) ?m))) ?data = splice 0 (rev (take (Suc i) (drop ?o ?m))) data"
  proof -
    have "take (Suc i) (drop ?o ?m) = ?m ! ?o # take i (drop (Suc ?o) ?m)"
      using Suc.prems by (simp add: Cons_nth_drop_Suc [symmetric])
    moreover have "length (take i (drop (Suc ?o) ?m)) = i" "length (take i data) = i"
      using Suc.prems by simp_all
    ultimately show ?thesis using Suc.prems by (simp add: splice_def del: length_take)
  qed
  moreover have "read_reverse_loop (Suc i) (Suc i) data p b = read_reverse_loop i i ?data (p + 1) b"
    using Suc.prems by (simp add: mem_read_ok mem_write_ok x)
  moreover have "p + 1 + of_nat i = p + of_nat (Suc i)" by simp
  ultimately show ?case using IH by simp
qed (simp add: splice_def)

text \<open>They do what the plain operations do with the data reversed.\<close>

lemma WriteBytesInReverseOrder_eq:
  assumes inv: "buffer_inv b" and n: "length data < 2 ^ 63"
  shows "WriteBytesInReverseOrder data (of_nat (length data)) b =
    WriteBytes (rev data) (of_nat (length data)) b"
proof (cases "wr b + length data \<le> kBufferCapacityInBytes")
  case True
  have u: "unat (of_nat (length data) :: u64) = length data"
    using n by (intro unat_of_nat_small) simp
  have len: "length (buffer_bytes b) = kBufferCapacityInBytes" using inv by (simp add: buffer_inv_def)
  show ?thesis
    unfolding WriteBytesInReverseOrder_def WriteBytes_def u
    using True len write_reverse_loop_ok [of b "length data" data "buf_write_ptr b"]
    by (simp add: wr_def mem_read_ok mem_write_ok)
next
  case False
  then have "buf_end b < buf_write_ptr b + of_nat (length data)"
    using inv n bounds_check [of b "buf_write_ptr b" "length data"] by (simp add: wr_def buffer_inv_def)
  then show ?thesis by (simp add: WriteBytesInReverseOrder_def WriteBytes_def)
qed

lemma ReadBytesInReverseOrder_eq:
  assumes inv: "buffer_inv b" and n: "length data < 2 ^ 63"
  shows "ReadBytesInReverseOrder data (of_nat (length data)) b =
    rbind (ReadBytes data (of_nat (length data)) b) (\<lambda>(bs, b'). Inr (rev bs, b'))"
proof (cases "rd b + length data \<le> kBufferCapacityInBytes")
  case True
  have u: "unat (of_nat (length data) :: u64) = length data"
    using n by (intro unat_of_nat_small) simp
  have len: "length (buffer_bytes b) = kBufferCapacityInBytes" using inv by (simp add: buffer_inv_def)
  show ?thesis
    unfolding ReadBytesInReverseOrder_def ReadBytes_def u
    using True len read_reverse_loop_ok [of b "length data" data "buf_read_ptr b"]
    by (simp add: rd_def mem_read_ok mem_write_ok splice_def)
next
  case False
  then have "buf_end b < buf_read_ptr b + of_nat (length data)"
    using inv n bounds_check [of b "buf_read_ptr b" "length data"] by (simp add: rd_def buffer_inv_def)
  then show ?thesis by (simp add: ReadBytesInReverseOrder_def ReadBytes_def)
qed

section \<open>Properties\<close>

definition start_buffer :: buffer where
  "start_buffer = Buffer_init 4096 (replicate kBufferCapacityInBytes 0)"

lemma start_buffer_inv [simp]: "buffer_inv start_buffer" "wr start_buffer = 0" "rd start_buffer = 0"
  by (simp_all add: start_buffer_def Buffer_init_inv)

text \<open>C11: a write is refused exactly when it would pass the end of the array, and then the buffer is
  unchanged; otherwise the bytes are appended to those written before and nothing else of
  the buffer changes.  No sequence of writes leaves the array.\<close>

theorem WriteBytes_outcome:
  assumes "buffer_inv b" and "length data < 2 ^ 63"
  shows "case WriteBytes data (of_nat (length data)) b of
      Inl e \<Rightarrow> kBufferCapacityInBytes < wr b + length data \<and> e = Runtime_Error ''message is not fit in buffer''
    | Inr b' \<Rightarrow> wr b + length data \<le> kBufferCapacityInBytes \<and> buffer_grows b data b'"
proof (cases "wr b + length data \<le> kBufferCapacityInBytes")
  case True
  with WriteBytes_ok [OF assms(1) True] show ?thesis by auto
next
  case False
  with assms show ?thesis by (simp add: WriteBytes_full)
qed

theorem WriteBytes_outcome_witness:
  "\<exists>b'. WriteBytes [1, 2, 3] 3 start_buffer = Inr b' \<and> buffer_grows start_buffer [1, 2, 3] b'"
  using WriteBytes_outcome [of start_buffer "[1, 2, 3]"]
  by (auto simp: kBufferCapacityInBytes_def split: sum.splits)

text \<open>C12: the reversing variants write the bytes of their argument in reverse order, and read the next
  bytes in reverse order; in particular what one writes the other reads back.\<close>

theorem reverse_order:
  assumes "buffer_inv b" and "length data < 2 ^ 63"
  shows "WriteBytesInReverseOrder data (of_nat (length data)) b =
      WriteBytes (rev data) (of_nat (length data)) b \<and>
    ReadBytesInReverseOrder data (of_nat (length data)) b =
      rbind (ReadBytes data (of_nat (length data)) b) (\<lambda>(bs, b'). Inr (rev bs, b'))"
  using assms by (simp add: WriteBytesInReverseOrder_eq ReadBytesInReverseOrder_eq)

theorem reverse_order_witness:
  "WriteBytesInReverseOrder [1, 2, 3] 3 start_buffer = WriteBytes [3, 2, 1] 3 start_buffer"
  using reverse_order [of start_buffer "[1, 2, 3]"] by simp

text \<open>C13: reading is limited by the capacity of the array only, not by what was written or received: a
  read that stays inside the array succeeds and returns the bytes that are there, also
  beyond the end of the message; only a read past the end of the array is refused.\<close>

theorem ReadBytes_outcome:
  assumes "buffer_inv b" and "length data < 2 ^ 63"
  shows "case ReadBytes data (of_nat (length data)) b of
      Inl e \<Rightarrow> kBufferCapacityInBytes < rd b + length data \<and> e = Runtime_Error ''not enough message in buffer''
    | Inr (bs, b') \<Rightarrow> rd b + length data \<le> kBufferCapacityInBytes \<and>
        bs = take (length data) (unread b) \<and> buffer_reads b (length data) b'"
proof (cases "rd b + length data \<le> kBufferCapacityInBytes")
  case True
  with ReadBytes_ok [OF assms(1) True refl] show ?thesis by auto
next
  case False
  with assms show ?thesis by (simp add: ReadBytes_short)
qed

text \<open>A read from a buffer nothing was ever written to succeeds.\<close>

theorem ReadBytes_outcome_witness:
  "wr start_buffer = 0 \<and> (\<exists>b'. ReadBytes [7, 7] 2 start_buffer = Inr (take 2 (unread start_buffer), b'))"
  using ReadBytes_outcome [of start_buffer "[7, 7]"]
  by (auto simp: kBufferCapacityInBytes_def split: sum.splits simp flip: numeral_2_eq_2)

text \<open>For sizes close to \<open>2 ^ 64\<close> the addition in the check wraps round: the call is not refused.\<close>

lemma WriteBytes_wraps:
  assumes inv: "buffer_inv b" and "buffer_self b \<noteq> 0" and data: "length data < 2 ^ 63"
  shows "WriteBytes data (- 1) b = Inl (Undefined_Behaviour ''read out of range'')"
proof -
  define s where "s = unat (buffer_self b)"
  have s: "0 < s" "s < 2 ^ 47" "wr b \<le> kBufferCapacityInBytes"
    using assms(1,2) by (simp_all add: s_def buffer_inv_def unat_gt_0)
  have self: "buffer_self b = of_nat s" by (simp add: s_def)
  have k: "kBufferCapacityInBytes = 10000" by (simp add: kBufferCapacityInBytes_def)
  have "buf_write_ptr b = of_nat (s + wr b)"
    by (subst ptr_offset [of "buf_write_ptr b" b]) (simp add: self wr_def)
  then have "buf_write_ptr b + - 1 = (of_nat (s + wr b - 1) :: u64)"
    using s by (simp add: of_nat_diff)
  moreover have "buf_end b = (of_nat (s + kBufferCapacityInBytes) :: u64)"
    using inv by (simp add: buffer_inv_def self)
  moreover have "s + wr b - 1 < 2 ^ 64" "s + kBufferCapacityInBytes < 2 ^ 64"
    using s by (simp_all add: k)
  ultimately have "\<not> buf_end b < buf_write_ptr b + - 1"
    using s by (simp del: of_nat_add of_nat_diff)
  moreover have "unat (- 1 :: u64) = 2 ^ 64 - 1"
    by (simp add: unsigned_minus_1_eq_mask mask_eq_exp_minus_1)
  ultimately show ?thesis using data by (simp add: WriteBytes_def mem_read_def)
qed

end
