(* ===== verification/Connectors.thy ===== *)
theory Connectors
  imports System_Calls Utils Arguments Buffer Ring_Buffer
begin

text \<open>
  The connectors (\<open>connection/src/connectors\<close> and the \<open>*_impl.hpp\<close> beside their headers): a client and
  a server class for pipes, Unix sockets, SCTP sockets and shared memory.  Constructors, methods
  and destructors are operations against the kernel; the object is the value they return.
\<close>

section \<open>File descriptors\<close>

text \<open>
  \<open>FileDescriptor\<close> is an \<open>int\<close> that a move resets to \<open>-1\<close> in the object moved from.  It has no destructor.
\<close>

type_synonym FileDescriptor = int

definition FileDescriptor_default :: FileDescriptor where
  "FileDescriptor_default = - 1"

definition FileDescriptor_assign :: "FileDescriptor \<Rightarrow> int \<Rightarrow> FileDescriptor" where
  "FileDescriptor_assign this fd = fd"

text \<open>The object moved to, and what is left of the one moved from.\<close>

definition FileDescriptor_move :: "FileDescriptor \<Rightarrow> FileDescriptor \<times> FileDescriptor" where
  "FileDescriptor_move other = (other, - 1)"

definition FileDescriptor_move_assign :: "FileDescriptor \<Rightarrow> FileDescriptor \<Rightarrow> FileDescriptor \<times> FileDescriptor" where
  "FileDescriptor_move_assign this other = (other, - 1)"

section \<open>Pipes\<close>

record pipe_end =
  fifo_fd :: FileDescriptor
  fifo_name :: string

definition PipeServer :: "string \<Rightarrow> pipe_end io" where
  "PipeServer connection_id =
     (let name = ''/tmp/'' @ connection_id in
      io_bind (sys (Sys_mkfifo name)) (\<lambda>r.
      if reply_value r = - 1 \<and> reply_errno r \<noteq> EEXIST then io_throw (Runtime_Error ''mkfifo() failed'')
      else
      io_bind (sys_or_throw (Sys_open name) ''open() failed'') (\<lambda>fd.
      io_bind (sys_or_throw (Sys_fcntl_SETFL_DIRECT (reply_value fd)) ''fcntl() failed'') (\<lambda>_.
      io_return \<lparr>fifo_fd = FileDescriptor_assign FileDescriptor_default (reply_value fd), fifo_name = name\<rparr>))))"

definition PipeServer_Close :: "pipe_end \<Rightarrow> unit io" where
  "PipeServer_Close s =
     io_bind (sys (Sys_close (fifo_fd s))) (\<lambda>_.
     io_bind (sys (Sys_unlink (fifo_name s))) (\<lambda>_. io_return ()))"

text \<open>
  The moves of all these classes are defaulted: members are moved one by one.  \<open>left\<close> is what
  moving leaves in a \<open>std::string\<close>, which the standard does not say.
\<close>

definition pipe_move :: "(string \<Rightarrow> string) \<Rightarrow> pipe_end \<Rightarrow> pipe_end \<times> pipe_end" where
  "pipe_move left s =
     (let (to, from) = FileDescriptor_move (fifo_fd s) in
      (s\<lparr>fifo_fd := to\<rparr>, s\<lparr>fifo_fd := from, fifo_name := left (fifo_name s)\<rparr>))"

definition PipeClient :: "string \<Rightarrow> pipe_end" where
  "PipeClient connection_id = \<lparr>fifo_fd = FileDescriptor_default, fifo_name = ''/tmp/'' @ connection_id\<rparr>"

definition PipeClient_Close :: "pipe_end \<Rightarrow> unit io" where
  "PipeClient_Close c = io_bind (sys (Sys_close (fifo_fd c))) (\<lambda>_. io_return ())"

text \<open>
  When \<open>Connect\<close> throws, the caller still has the object, and its destructor runs on it as it is then; so
  the result of these two \<open>Connect\<close> functions has the exception beside the object.
\<close>

definition PipeClient_Connect :: "pipe_end \<Rightarrow> (bool result \<times> pipe_end) io" where
  "PipeClient_Connect c =
     io_bind (sys (Sys_open (fifo_name c))) (\<lambda>fd.
     let c' = c\<lparr>fifo_fd := FileDescriptor_assign (fifo_fd c) (reply_value fd)\<rparr> in
     if fifo_fd c' = - 1 then io_return (Inr False, c')
     else io_bind (sys (Sys_fcntl_SETFL_DIRECT (fifo_fd c'))) (\<lambda>r.
          io_return (if reply_value r = - 1 then Inl (Runtime_Error ''fcntl() failed'') else Inr True, c')))"

definition PipeClient_GetConnectionAddress :: "pipe_end \<Rightarrow> string" where
  "PipeClient_GetConnectionAddress c = ''pipe:/'' @ fifo_name c"

definition PipeClient_SetBufferSize :: "u64 \<Rightarrow> pipe_end \<Rightarrow> unit io" where
  "PipeClient_SetBufferSize n c =
     io_bind (sys_or_throw (Sys_fcntl_SETPIPE_SZ (fifo_fd c) n) ''fcntl() failed'') (\<lambda>_. io_return ())"

definition PipeClient_GetBufferSize :: "pipe_end \<Rightarrow> u64 io" where
  "PipeClient_GetBufferSize c =
     io_bind (sys_or_throw (Sys_fcntl_GETPIPE_SZ (fifo_fd c)) ''fcntl() failed'') (\<lambda>r.
     io_return (of_int (reply_value r)))"

section \<open>Sending and receiving over a descriptor\<close>

text \<open>
  \<open>Send\<close> of the pipe and socket clients: \<open>write\<close> of what the buffer holds; the \<open>int64_t\<close> result is
  compared with a \<open>size_t\<close>.
\<close>

definition buffer_content :: "buffer \<Rightarrow> byte list result" where
  "buffer_content b = mem_read (buffer_offset b (Data b)) (unat (UsedBytes b)) (buffer_bytes b)"

definition buffer_fill :: "byte list \<Rightarrow> buffer \<Rightarrow> buffer result" where
  "buffer_fill bs b =
     rbind (mem_write (buffer_offset b (Data b)) bs (buffer_bytes b)) (\<lambda>m. Inr (b\<lparr>buffer_bytes := m\<rparr>))"

definition fd_Send :: "FileDescriptor \<Rightarrow> buffer \<Rightarrow> unit io" where
  "fd_Send fd b =
     io_bind (io_of_result (buffer_content b)) (\<lambda>bytes.
     io_bind (sys (Sys_write fd bytes)) (\<lambda>r.
     if (of_int (reply_value r) :: u64) \<noteq> UsedBytes b then io_throw (Runtime_Error ''write() failed'')
     else io_return ()))"

text \<open>
  \<open>Receive\<close> of the servers: \<open>read\<close> puts the bytes at the start of the buffer's memory.  Neither their
  number nor the end of the connection, a read of nothing, is looked at.
\<close>

definition fd_Receive :: "FileDescriptor \<Rightarrow> buffer \<Rightarrow> buffer io" where
  "fd_Receive fd b =
     io_bind (sys_or_throw (Sys_read fd (Capacity b)) ''read() failed'') (\<lambda>r.
     io_of_result (buffer_fill (reply_bytes r) b))"

definition PipeClient_Send :: "buffer \<Rightarrow> pipe_end \<Rightarrow> unit io" where
  "PipeClient_Send b c = fd_Send (fifo_fd c) b"

definition PipeServer_Receive :: "buffer \<Rightarrow> pipe_end \<Rightarrow> buffer io" where
  "PipeServer_Receive b s = fd_Receive (fifo_fd s) b"

section \<open>Unix sockets\<close>

record unix_end =
  ux_socket_fd :: FileDescriptor
  ux_socket_name :: string

text \<open>
  The address made by \<open>strncpy\<close> of 107 characters into the 108 of \<open>sun_path\<close>, which is not initialised:
  behind a name of 107 characters or more, the last character is what was on the stack.
\<close>

definition sun_path :: "char \<Rightarrow> string \<Rightarrow> address" where
  "sun_path stack name =
     Unix_Path (take 107 name @ (if 107 \<le> length name \<and> stack \<noteq> CHR 0x00 then [stack] else []))"

definition UnixSocketServer :: "char \<Rightarrow> string \<Rightarrow> unix_end io" where
  "UnixSocketServer stack connection_id =
     (let name = ''/tmp/'' @ connection_id in
      io_bind (sys_or_throw (Sys_socket AF_UNIX SOCK_SEQPACKET) ''socket() failed'') (\<lambda>fd.
      io_bind (sys_or_throw (Sys_bind (reply_value fd) (sun_path stack name)) ''bind() failed'') (\<lambda>_.
      io_bind (sys_or_throw (Sys_listen (reply_value fd) 0) ''listen() failed'') (\<lambda>_.
      io_return \<lparr>ux_socket_fd = FileDescriptor_assign FileDescriptor_default (reply_value fd),
                 ux_socket_name = name\<rparr>))))"

definition UnixSocketServer_Accept :: "unix_end \<Rightarrow> unix_end io" where
  "UnixSocketServer_Accept s =
     io_bind (sys_or_throw (Sys_accept (ux_socket_fd s)) ''accept() failed'') (\<lambda>fd.
     io_bind (sys (Sys_close (ux_socket_fd s))) (\<lambda>r.
     if reply_value r \<noteq> 0 then io_throw (Runtime_Error ''close() failed'')
     else io_return (s\<lparr>ux_socket_fd := FileDescriptor_assign (ux_socket_fd s) (reply_value fd)\<rparr>)))"

definition UnixSocketServer_Close :: "unix_end \<Rightarrow> unit io" where
  "UnixSocketServer_Close s =
     io_bind (sys (Sys_close (ux_socket_fd s))) (\<lambda>_.
     io_bind (sys (Sys_unlink (ux_socket_name s))) (\<lambda>_. io_return ()))"

definition UnixSocketClient :: "string \<Rightarrow> unix_end io" where
  "UnixSocketClient connection_id =
     (let name = ''/tmp/'' @ connection_id in
      io_bind (sys_or_throw (Sys_socket AF_UNIX SOCK_SEQPACKET) ''socket() failed'') (\<lambda>fd.
      io_return \<lparr>ux_socket_fd = FileDescriptor_assign FileDescriptor_default (reply_value fd),
                 ux_socket_name = name\<rparr>))"

definition UnixSocketClient_Close :: "unix_end \<Rightarrow> unit io" where
  "UnixSocketClient_Close c = io_bind (sys (Sys_close (ux_socket_fd c))) (\<lambda>_. io_return ())"

text \<open>The descriptor of \<open>open\<close>, where there is one, is a local \<open>int\<close> that is not used again.\<close>

definition UnixSocketClient_Connect :: "char \<Rightarrow> unix_end \<Rightarrow> bool io" where
  "UnixSocketClient_Connect stack c =
     io_bind (sys (Sys_open (ux_socket_name c))) (\<lambda>fd.
     if reply_value fd = - 1 \<and> reply_errno fd \<noteq> ENXIO then io_return False
     else io_bind (sys (Sys_connect (ux_socket_fd c) (sun_path stack (ux_socket_name c)))) (\<lambda>r.
          io_return (reply_value r \<noteq> - 1)))"

definition UnixSocketClient_GetConnectionAddress :: "unix_end \<Rightarrow> string" where
  "UnixSocketClient_GetConnectionAddress c = ''uxsock:/'' @ ux_socket_name c"

definition UnixSocketClient_SetBufferSize :: "u64 \<Rightarrow> unix_end \<Rightarrow> unit io" where
  "UnixSocketClient_SetBufferSize n c =
     io_bind (sys_or_throw (Sys_setsockopt (ux_socket_fd c) SO_SNDBUF n) ''setsockopt() failed'')
       (\<lambda>_. io_return ())"

text \<open>The size is read into an \<open>unsigned int\<close>.\<close>

definition UnixSocketClient_GetBufferSize :: "unix_end \<Rightarrow> u64 io" where
  "UnixSocketClient_GetBufferSize c =
     io_bind (sys_or_throw (Sys_getsockopt (ux_socket_fd c) SO_SNDBUF) ''getsockopt() failed'') (\<lambda>r.
     io_return (ucast (of_int (reply_value r) :: u32)))"

definition UnixSocketClient_Send :: "buffer \<Rightarrow> unix_end \<Rightarrow> unit io" where
  "UnixSocketClient_Send b c = fd_Send (ux_socket_fd c) b"

definition UnixSocketServer_Receive :: "buffer \<Rightarrow> unix_end \<Rightarrow> buffer io" where
  "UnixSocketServer_Receive b s = fd_Receive (ux_socket_fd s) b"

definition unix_move :: "(string \<Rightarrow> string) \<Rightarrow> unix_end \<Rightarrow> unix_end \<times> unix_end" where
  "unix_move left s =
     (let (to, from) = FileDescriptor_move (ux_socket_fd s) in
      (s\<lparr>ux_socket_fd := to\<rparr>, s\<lparr>ux_socket_fd := from, ux_socket_name := left (ux_socket_name s)\<rparr>))"

section \<open>SCTP sockets\<close>

record net_server =
  ns_socket_fd :: FileDescriptor

definition NetSocketServer :: "int \<Rightarrow> net_server io" where
  "NetSocketServer p =
     io_bind (sys_or_throw (Sys_socket AF_INET SOCK_STREAM_SCTP) ''socket() failed'') (\<lambda>fd.
     io_bind (sys_or_throw (Sys_bind (reply_value fd) (Inet_Any (sin_port p))) ''bind() failed'') (\<lambda>_.
     io_bind (sys_or_throw (Sys_listen (reply_value fd) 1) ''listen() failed'') (\<lambda>_.
     io_return \<lparr>ns_socket_fd = FileDescriptor_assign FileDescriptor_default (reply_value fd)\<rparr>)))"

definition net_server_move :: "net_server \<Rightarrow> net_server \<times> net_server" where
  "net_server_move s =
     (let (to, from) = FileDescriptor_move (ns_socket_fd s) in (s\<lparr>ns_socket_fd := to\<rparr>, s\<lparr>ns_socket_fd := from\<rparr>))"

definition NetSocketServer_Close :: "net_server \<Rightarrow> unit io" where
  "NetSocketServer_Close s = io_bind (sys (Sys_close (ns_socket_fd s))) (\<lambda>_. io_return ())"

definition NetSocketServer_Accept :: "net_server \<Rightarrow> net_server io" where
  "NetSocketServer_Accept s =
     io_bind (sys_or_throw (Sys_accept (ns_socket_fd s)) ''accept() failed'') (\<lambda>fd.
     io_bind (sys (Sys_close (ns_socket_fd s))) (\<lambda>r.
     if reply_value r \<noteq> 0 then io_throw (Runtime_Error ''close() failed'')
     else io_return (s\<lparr>ns_socket_fd := FileDescriptor_assign (ns_socket_fd s) (reply_value fd)\<rparr>)))"

definition NetSocketServer_SetBufferSize :: "u64 \<Rightarrow> net_server \<Rightarrow> unit io" where
  "NetSocketServer_SetBufferSize n s =
     io_bind (sys_or_throw (Sys_setsockopt (ns_socket_fd s) SO_RCVBUF n) ''setsockopt() failed'')
       (\<lambda>_. io_return ())"

definition NetSocketServer_GetBufferSize :: "net_server \<Rightarrow> u64 io" where
  "NetSocketServer_GetBufferSize s =
     io_bind (sys_or_throw (Sys_getsockopt (ns_socket_fd s) SO_RCVBUF) ''getsockopt() failed'') (\<lambda>r.
     io_return (ucast (of_int (reply_value r) :: u32)))"

definition NetSocketServer_Receive :: "buffer \<Rightarrow> net_server \<Rightarrow> buffer io" where
  "NetSocketServer_Receive b s = fd_Receive (ns_socket_fd s) b"

record net_client =
  nc_socket_fd :: FileDescriptor
  nc_host :: string
  nc_port :: int

definition NetSocketClient :: "string \<Rightarrow> int \<Rightarrow> net_client io" where
  "NetSocketClient h p =
     io_bind (sys_or_throw (Sys_socket AF_INET SOCK_STREAM_SCTP) ''socket() failed'') (\<lambda>fd.
     io_return \<lparr>nc_socket_fd = FileDescriptor_assign FileDescriptor_default (reply_value fd),
                nc_host = h, nc_port = p\<rparr>)"

definition net_client_move :: "(string \<Rightarrow> string) \<Rightarrow> net_client \<Rightarrow> net_client \<times> net_client" where
  "net_client_move left c =
     (let (to, from) = FileDescriptor_move (nc_socket_fd c) in
      (c\<lparr>nc_socket_fd := to\<rparr>, c\<lparr>nc_socket_fd := from, nc_host := left (nc_host c)\<rparr>))"

definition NetSocketClient_Close :: "net_client \<Rightarrow> unit io" where
  "NetSocketClient_Close c = io_bind (sys (Sys_close (nc_socket_fd c))) (\<lambda>_. io_return ())"

definition NetSocketClient_Connect :: "net_client \<Rightarrow> bool io" where
  "NetSocketClient_Connect c =
     io_bind (sys_or_throw (Sys_gethostbyname (nc_host c)) ''gethostbyname() failed'') (\<lambda>server.
     io_bind (sys (Sys_connect (nc_socket_fd c) (Inet_Host (reply_value server) (sin_port (nc_port c))))) (\<lambda>r.
     io_return (reply_value r \<noteq> - 1)))"

definition NetSocketClient_GetConnectionAddress :: "net_client \<Rightarrow> string" where
  "NetSocketClient_GetConnectionAddress c = ''netsock://'' @ nc_host c @ '':'' @ to_string_int (nc_port c)"

definition NetSocketClient_SetBufferSize :: "u64 \<Rightarrow> net_client \<Rightarrow> unit io" where
  "NetSocketClient_SetBufferSize n c =
     io_bind (sys_or_throw (Sys_setsockopt (nc_socket_fd c) SO_SNDBUF n) ''setsockopt() failed'')
       (\<lambda>_. io_return ())"

definition NetSocketClient_GetBufferSize :: "net_client \<Rightarrow> u64 io" where
  "NetSocketClient_GetBufferSize c =
     io_bind (sys_or_throw (Sys_getsockopt (nc_socket_fd c) SO_SNDBUF) ''getsockopt() failed'') (\<lambda>r.
     io_return (ucast (of_int (reply_value r) :: u32)))"

definition NetSocketClient_SetNoDelay :: "net_client \<Rightarrow> unit io" where
  "NetSocketClient_SetNoDelay c =
     io_bind (sys_or_throw (Sys_setsockopt (nc_socket_fd c) SCTP_NODELAY 1) ''setsockopt() failed'')
       (\<lambda>_. io_return ())"

definition NetSocketClient_IsNoDelay :: "net_client \<Rightarrow> bool io" where
  "NetSocketClient_IsNoDelay c =
     io_bind (sys_or_throw (Sys_getsockopt (nc_socket_fd c) SCTP_NODELAY) ''setsockopt() failed'') (\<lambda>r.
     io_return (reply_value r \<noteq> 0))"

definition NetSocketClient_Send :: "buffer \<Rightarrow> net_client \<Rightarrow> unit io" where
  "NetSocketClient_Send b c = fd_Send (nc_socket_fd c) b"

section \<open>Shared memory\<close>

text \<open>
  \<open>sizeof(SPSCRingBuffer)\<close>: capacity and flag, and the two indices, each on its cache line of 64 bytes.
\<close>

definition SPSCRingBuffer_size :: u64 where
  "SPSCRingBuffer_size = 192"

definition kDefaultBufferSizeInBytes :: u64 where
  "kDefaultBufferSizeInBytes = 4096"

record shmem_server =
  sms_fd :: FileDescriptor
  sms_name :: string
  sms_size :: u64
  sms_rbh :: ring_buffer

text \<open>
  The memory of a new object is zero after \<open>ftruncate\<close>.  \<open>AlignCapacity\<close> takes a \<open>uint32_t\<close>, so the
  requested size is cut to 32 bits.
\<close>

definition SharedMemoryServer :: "string \<Rightarrow> u64 option \<Rightarrow> shmem_server io" where
  "SharedMemoryServer connection_id buffer_size =
     io_bind (sys_or_throw (Sys_shm_open_create connection_id) ''shm_open() failed'') (\<lambda>fd.
     io_bind (io_of_result (AlignCapacity
       (ucast (case buffer_size of None \<Rightarrow> kDefaultBufferSizeInBytes | Some n \<Rightarrow> n)))) (\<lambda>aligned.
     let shmem_size = SPSCRingBuffer_size + ucast aligned in
     io_bind (sys_or_throw (Sys_ftruncate (reply_value fd) shmem_size) ''ftruncate() failed'') (\<lambda>_.
     io_bind (sys_or_throw (Sys_mmap (reply_value fd) shmem_size) ''mmap() failed'') (\<lambda>_.
     io_bind (io_of_result (SPSCRingBuffer aligned
       (replicate (unat shmem_size - unat SPSCRingBuffer_size) 0))) (\<lambda>rb.
     io_return \<lparr>sms_fd = FileDescriptor_assign FileDescriptor_default (reply_value fd),
                sms_name = connection_id, sms_size = shmem_size, sms_rbh = SetInitialized rb\<rparr>)))))"

text \<open>The pointer to the mapped object is copied; both objects see the same ring.\<close>

definition shmem_server_move :: "(string \<Rightarrow> string) \<Rightarrow> shmem_server \<Rightarrow> shmem_server \<times> shmem_server" where
  "shmem_server_move left s =
     (let (to, from) = FileDescriptor_move (sms_fd s) in
      (s\<lparr>sms_fd := to\<rparr>, s\<lparr>sms_fd := from, sms_name := left (sms_name s)\<rparr>))"

definition SharedMemoryServer_GetBufferSize :: "shmem_server \<Rightarrow> u64" where
  "SharedMemoryServer_GetBufferSize s = GetCapacity (sms_rbh s)"

definition SharedMemoryServer_Close :: "shmem_server \<Rightarrow> unit io" where
  "SharedMemoryServer_Close s =
     io_bind (sys (Sys_close (sms_fd s))) (\<lambda>_.
     io_bind (sys (Sys_shm_unlink (sms_name s))) (\<lambda>_. io_return ()))"

text \<open>
  The mapped object itself is not part of the client: it is the server's ring buffer.  \<open>size\<close> and
  \<open>mapped\<close> are undefined and false until \<open>Connect\<close> succeeds.
\<close>

record shmem_client =
  smc_fd :: FileDescriptor
  smc_name :: string
  smc_size :: "u64 option"
  smc_mapped :: bool

definition SharedMemoryClient :: "string \<Rightarrow> shmem_client" where
  "SharedMemoryClient connection_id =
     \<lparr>smc_fd = FileDescriptor_default, smc_name = connection_id, smc_size = None, smc_mapped = False\<rparr>"

definition shmem_client_move :: "(string \<Rightarrow> string) \<Rightarrow> shmem_client \<Rightarrow> shmem_client \<times> shmem_client" where
  "shmem_client_move left c =
     (let (to, from) = FileDescriptor_move (smc_fd c) in
      (c\<lparr>smc_fd := to\<rparr>, c\<lparr>smc_fd := from, smc_name := left (smc_name c)\<rparr>))"

definition SharedMemoryClient_Close :: "shmem_client \<Rightarrow> unit io" where
  "SharedMemoryClient_Close c = io_bind (sys (Sys_close (smc_fd c))) (\<lambda>_. io_return ())"

text \<open>
  \<open>flag\<close> is the server's initialisation flag, load by load; \<open>st_size\<close> of the answer to \<open>fstat\<close> is its value.
\<close>

definition SharedMemoryClient_attach :: "(nat \<Rightarrow> bool) \<Rightarrow> shmem_client \<Rightarrow> (bool result \<times> shmem_client) io" where
  "SharedMemoryClient_attach flag c K h =
     (case WaitInitialized flag 0 of
        None \<Rightarrow> None
      | Some k \<Rightarrow> io_return (if flag (k + 1) then Inr (flag (k + 2))
                           else Inl (Assert_Failed ''_rbh->IsInitialized()''), c) K h)"

definition SharedMemoryClient_Connect :: "(nat \<Rightarrow> bool) \<Rightarrow> shmem_client \<Rightarrow> (bool result \<times> shmem_client) io" where
  "SharedMemoryClient_Connect flag c =
     io_bind (sys (Sys_shm_open (smc_name c))) (\<lambda>fd.
     let c1 = c\<lparr>smc_fd := FileDescriptor_assign (smc_fd c) (reply_value fd)\<rparr> in
     if smc_fd c1 = - 1 then
       io_return (if reply_errno fd = ENOENT then Inr False else Inl (Runtime_Error ''shm_open() failed''), c1)
     else
     io_bind (sys (Sys_fstat (smc_fd c1))) (\<lambda>sb.
     if reply_value sb = - 1 then io_return (Inl (Runtime_Error ''fstat() failed''), c1)
     else if reply_value sb = 0 then io_return (Inr False, c1)
     else
     let c2 = c1\<lparr>smc_size := Some (of_int (reply_value sb))\<rparr> in
     io_bind (sys (Sys_mmap (smc_fd c2) (of_int (reply_value sb)))) (\<lambda>r.
     if reply_value r = - 1 then io_return (Inl (Runtime_Error ''mmap() failed''), c2)
     else SharedMemoryClient_attach flag (c2\<lparr>smc_mapped := True\<rparr>))))"

definition SharedMemoryClient_GetConnectionAddress :: "shmem_client \<Rightarrow> string" where
  "SharedMemoryClient_GetConnectionAddress c = ''shmem:/'' @ smc_name c"

text \<open>\<open>Send\<close> and \<open>Receive\<close> are \<open>Push\<close> and \<open>Pop\<close> on the buffer's memory; the size \<open>Pop\<close> returns is not used.\<close>

definition SharedMemoryClient_Send :: "(nat \<Rightarrow> u64) \<Rightarrow> buffer \<Rightarrow> ring_buffer \<Rightarrow> ring_buffer result option" where
  "SharedMemoryClient_Send loads b rbh =
     obind (Some (buffer_content b)) (\<lambda>bytes. Push loads bytes rbh)"

definition SharedMemoryServer_Receive ::
  "(nat \<Rightarrow> u64) \<Rightarrow> buffer \<Rightarrow> ring_buffer \<Rightarrow> (buffer \<times> ring_buffer) result option" where
  "SharedMemoryServer_Receive loads b rbh =
     obind (Pop loads (drop (buffer_offset b (Data b)) (buffer_bytes b)) (Capacity b) rbh)
       (\<lambda>(_, bytes, rbh'). Some (Inr
          (b\<lparr>buffer_bytes := take (buffer_offset b (Data b)) (buffer_bytes b) @ bytes\<rparr>, rbh')))"

end
