(* ===== verification/Ring_Memory.thy ===== *)
theory Ring_Memory
  imports Ring_Buffer
begin

text \<open>
  The arithmetic of the ring buffer on natural numbers.  A position counts all the bytes
  that ever went through the ring; \<open>idx c n\<close> is the index word for position \<open>n\<close> in a ring
  of capacity \<open>c\<close>.  The lemmas say that the branch-free 32-bit code computes with
  positions, that no assertion of it fails, and how the two \<open>memcpy\<close> calls of a message
  act as one write (or read) of the ring taken as circular memory.
\<close>

section \<open>Word arithmetic\<close>

lemma neg_bool_AND [simp]:
  "neg_bool True AND x = x" "neg_bool False AND x = 0"
  by (simp_all add: neg_bool_def)

lemma index_of_u64_of_index [simp]: "index_of_u64 (u64_of_index i) = i"
proof -
  have "ucast (u64_of_index i) = idx_value i"
    by (rule bit_eqI) (auto simp: u64_of_index_def bit_simps)
  moreover have "ucast (drop_bit 32 (u64_of_index i)) = idx_version i"
    by (rule bit_eqI) (auto simp: u64_of_index_def bit_simps dest: bit_imp_le_length)
  ultimately show ?thesis by (simp add: index_of_u64_def)
qed

lemma u64_of_index_inject [simp]: "u64_of_index i = u64_of_index j \<longleftrightarrow> i = j"
  by (metis index_of_u64_of_index)

lemma u64_of_index_of_u64 [simp]: "u64_of_index (index_of_u64 w) = w"
  by (rule bit_eqI) (auto simp: u64_of_index_def index_of_u64_def bit_simps)

definition align4 :: "nat \<Rightarrow> nat" where
  "align4 n = 4 * ((n + 3) div 4)"

lemma align4_dvd [simp]: "4 dvd align4 n"
  by (simp add: align4_def)

lemma align4_ge: "n \<le> align4 n"
  unfolding align4_def by arith

lemma align4_less: "align4 n < n + 4"
  unfolding align4_def by arith

lemma align4_le_dvd: "n \<le> m \<Longrightarrow> 4 dvd m \<Longrightarrow> align4 n \<le> m"
  by (auto simp: align4_def elim!: dvdE)

lemma align4_id [simp]: "4 dvd n \<Longrightarrow> align4 n = n"
  by (auto simp: align4_def elim!: dvdE)

lemma align4_add:
  assumes "4 dvd m"
  shows "align4 (m + n) = m + align4 n"
proof -
  from assms obtain k where m: "m = 4 * k" by (auto elim: dvdE)
  have "(m + n + 3) div 4 = k + (n + 3) div 4"
    unfolding m by (simp add: add.assoc)
  then show ?thesis
    unfolding align4_def m by (simp add: algebra_simps)
qed

lemma and_not_3: "(v :: u32) AND - 4 = push_bit 2 (drop_bit 2 v)"
proof (rule bit_eqI)
  fix k
  have four: "(- 4 :: u32) = NOT (mask 2)" by (simp add: mask_eq_exp_minus_1)
  have "2 + (k - 2) = k" if "\<not> k < 2" for k :: nat using that by simp
  then show "bit (v AND - 4) k = bit (push_bit 2 (drop_bit 2 v)) k"
    unfolding four by (auto simp: bit_simps not_less)
qed

lemma unat_and_not_3: "unat ((v :: u32) AND - 4) = 4 * (unat v div 4)"
proof -
  have "unat v < 2 ^ 32"
    using unsigned_less [of v] by simp
  then have d: "unat (drop_bit 2 v) = unat v div 4"
    unfolding unsigned_drop_bit_eq by (simp add: drop_bit_eq_div take_bit_eq_mod)
  have "unat v < 2 ^ 32"
    using unsigned_less [of v] by simp
  then show ?thesis
    by (simp only: and_not_3 unsigned_push_bit_eq d) (simp add: push_bit_eq_mult take_bit_eq_mod)
qed

lemma AlignUp_ok:
  assumes "n + 3 < 2 ^ 32"
  shows "AlignUpByRecordHeader (of_nat n) = Inr (of_nat (align4 n))"
proof -
  let ?a = "(of_nat n + 3 :: u32) AND - 4"
  have "(of_nat n + 3 :: u32) = of_nat (n + 3)" by simp
  then have "unat (of_nat n + 3 :: u32) = n + 3"
    using assms by (simp only: unat_of_nat) simp
  then have a: "unat ?a = align4 n"
    by (simp add: unat_and_not_3 align4_def)
  have "?a = of_nat (unat ?a)" by simp
  then have "?a = of_nat (align4 n)" by (simp only: a)
  moreover have "(of_nat n :: u32) \<le> ?a"
    using assms align4_ge [of n] by (simp add: word_le_nat_alt a)
  ultimately show ?thesis
    by (simp add: AlignUpByRecordHeader_def RecordHeader_size_def Let_def add.commute)
qed

lemma AlignUp_0 [simp]: "AlignUpByRecordHeader 0 = Inr 0"
  using AlignUp_ok [of 0] by (simp add: align4_def)

text \<open>Close to the top of the 32-bit range the addition wraps and the assertion fails.\<close>

lemma AlignUp_overflow:
  assumes "2 ^ 32 \<le> n + 3" and "n < 2 ^ 32"
  shows "AlignUpByRecordHeader (of_nat n) = Inl (Assert_Failed ''value <= aligned_value'')"
proof -
  let ?a = "(of_nat n + 3 :: u32) AND - 4"
  have "(of_nat n + 3 :: u32) = of_nat (n + 3)" by simp
  then have "unat (of_nat n + 3 :: u32) = n + 3 - 2 ^ 32"
    using assms by (simp only: unat_of_nat) (simp add: mod_if)
  then have "unat ?a = 0"
    using assms by (simp add: unat_and_not_3)
  then have "\<not> (of_nat n :: u32) \<le> ?a"
    using assms by (simp add: word_le_nat_alt)
  then show ?thesis
    by (simp add: AlignUpByRecordHeader_def RecordHeader_size_def Let_def add.commute)
qed

section \<open>Positions\<close>

definition idx :: "nat \<Rightarrow> nat \<Rightarrow> index" where
  "idx c n = \<lparr>idx_value = of_nat (n mod c), idx_version = of_nat (n div c)\<rparr>"

lemma idx_at: "r < c \<Longrightarrow> idx c (c * k + r) = \<lparr>idx_value = of_nat r, idx_version = of_nat k\<rparr>"
  by (simp add: idx_def)

text \<open>Bytes one record takes in the ring: header plus payload, rounded up.\<close>

definition rec_size :: "nat \<Rightarrow> nat" where
  "rec_size n = RecordHeader_size + align4 n"

text \<open>The part of a payload that fits before the end of the ring, for a record at position \<open>n\<close>.\<close>

definition fit_part :: "nat \<Rightarrow> nat \<Rightarrow> nat \<Rightarrow> nat" where
  "fit_part c n ps = min ps (c - (n mod c + RecordHeader_size))"

text \<open>What is known of a ring's capacity and a position in it.\<close>

definition ring_pos :: "nat \<Rightarrow> nat \<Rightarrow> bool" where
  "ring_pos c n \<longleftrightarrow> 0 < c \<and> c < 2 ^ 32 \<and> 4 dvd c \<and> 4 dvd n"

lemma dvd4_room: "4 dvd a \<Longrightarrow> 4 dvd c \<Longrightarrow> a < c \<Longrightarrow> a + 4 \<le> (c::nat)"
  by presburger

lemma ring_pos_room:
  assumes "ring_pos c n"
  shows "n mod c + RecordHeader_size \<le> c" "4 dvd n mod c"
proof -
  from assms have d: "4 dvd n mod c" and l: "n mod c < c" and "4 dvd c"
    by (auto simp: ring_pos_def dvd_mod)
  then show "n mod c + RecordHeader_size \<le> c"
    unfolding RecordHeader_size_def by (blast intro: dvd4_room)
  show "4 dvd n mod c" by (rule d)
qed

lemma rec_size_dvd [simp]: "4 dvd rec_size n"
  by (simp add: rec_size_def RecordHeader_size_def)

lemma rec_size_pos [simp]: "0 < rec_size n"
  by (simp add: rec_size_def RecordHeader_size_def)

lemma rec_size_ge: "RecordHeader_size + n \<le> rec_size n"
  by (simp add: rec_size_def align4_ge)

text \<open>Because everything is a multiple of 4, checking the unaligned size is enough.\<close>

lemma rec_size_le_iff:
  assumes "4 dvd f"
  shows "rec_size n \<le> f \<longleftrightarrow> RecordHeader_size + n \<le> f"
proof
  assume "RecordHeader_size + n \<le> f"
  then obtain g where f: "f = 4 + g" and "n \<le> g"
    by (metis RecordHeader_size_def add_leD1 le_Suc_ex nat_add_left_cancel_le)
  with assms have "4 dvd g" by simp
  with \<open>n \<le> g\<close> show "rec_size n \<le> f"
    by (simp add: rec_size_def f align4_le_dvd RecordHeader_size_def)
qed (use rec_size_ge [of n] in simp)

lemma u32_le [simp]: "a < 2 ^ 32 \<Longrightarrow> b < 2 ^ 32 \<Longrightarrow> (of_nat a :: u32) \<le> of_nat b \<longleftrightarrow> a \<le> b"
  by (simp add: word_le_nat_alt)

lemma u32_less [simp]: "a < 2 ^ 32 \<Longrightarrow> b < 2 ^ 32 \<Longrightarrow> (of_nat a :: u32) < of_nat b \<longleftrightarrow> a < b"
  by (simp add: word_less_nat_alt)

lemma u32_eq [simp]: "a < 2 ^ 32 \<Longrightarrow> b < 2 ^ 32 \<Longrightarrow> (of_nat a :: u32) = of_nat b \<longleftrightarrow> a = b"
  by (auto dest: arg_cong [where f = unat])

lemma split_ok:
  assumes pos: "ring_pos c n" and fits: "RecordHeader_size + ps \<le> c"
  shows "ProcessMessage_split (idx c n) (of_nat ps) (of_nat c) =
    Inr ((idx c n)\<lparr>idx_value := of_nat (n mod c + RecordHeader_size)\<rparr>,
         of_nat (c - (n mod c + RecordHeader_size)),
         of_nat (fit_part c n ps), of_nat (ps - fit_part c n ps))"
proof -
  define o4 where "o4 = n mod c + RecordHeader_size"
  define ff where "ff = c - o4"
  have o4: "o4 \<le> c" using ring_pos_room [OF pos] by (simp add: o4_def)
  have c: "c < 2 ^ 32" using pos by (simp add: ring_pos_def)
  have ps: "ps < 2 ^ 32" using fits c by simp
  have val: "(of_nat (n mod c) + of_nat RecordHeader_size :: u32) = of_nat o4"
    by (simp add: o4_def)
  have ff: "(of_nat c - of_nat o4 :: u32) = of_nat ff"
    using o4 by (simp add: ff_def of_nat_diff)
  have ffc: "ff \<le> c" "ff < 2 ^ 32" "c - (n mod c + RecordHeader_size) = ff"
    using c by (auto simp: ff_def o4_def)
  show ?thesis
  proof (cases "ff < ps")
    case True
    then have ov: "(of_nat ps - of_nat ff :: u32) = of_nat (ps - ff)" by (simp add: of_nat_diff)
    have fit: "(of_nat ps - of_nat (ps - ff) :: u32) = of_nat ff"
      using True by (simp flip: of_nat_diff)
    have mp: "fit_part c n ps = ff" using True by (simp add: fit_part_def ff_def o4_def)
    have "ps - ff < 2 ^ 32" using ps by simp
    with True show ?thesis
      using o4 c ps ffc
      by (simp add: ProcessMessage_split_def Let_def idx_def val ff ov fit mp del: of_nat_diff)
  next
    case False
    then have mp: "fit_part c n ps = ps" by (simp add: fit_part_def ff_def o4_def)
    from False show ?thesis
      using o4 c ps ffc
      by (simp add: ProcessMessage_split_def Let_def idx_def val ff mp)
  qed
qed

lemma advance_ok:
  assumes pos: "ring_pos c n" and fits: "RecordHeader_size + ps \<le> c"
  shows "ProcessMessage_advance ((idx c n)\<lparr>idx_value := of_nat (n mod c + RecordHeader_size)\<rparr>)
      (of_nat (c - (n mod c + RecordHeader_size))) (of_nat (fit_part c n ps))
      (of_nat (ps - fit_part c n ps)) (of_nat c) =
    Inr (idx c (n + rec_size ps))"
proof -
  define o4 where "o4 = n mod c + RecordHeader_size"
  define ff where "ff = c - o4"
  define fit where "fit = fit_part c n ps"
  have o4: "o4 \<le> c" "4 dvd o4" using ring_pos_room [OF pos] by (simp_all add: o4_def RecordHeader_size_def)
  have c: "c < 2 ^ 32" "4 dvd c" "0 < c" using pos by (simp_all add: ring_pos_def)
  have ff4: "4 dvd ff" using o4 c by (simp add: ff_def)
  have fitle: "fit \<le> ff" by (simp add: fit_def fit_part_def ff_def o4_def)
  have al: "align4 fit \<le> ff" using fitle ff4 by (rule align4_le_dvd)
  have cm: "fit + 3 < 2 ^ 32" "c + 3 < 2 ^ 32"
    using c fitle o4 by (auto simp: ff_def elim!: dvdE)
  have ovle: "ps - fit + 3 < 2 ^ 32" using fits cm by simp
  have n: "n = c * (n div c) + n mod c" by simp
  have sm: "align4 fit < 2 ^ 32" "ff < 2 ^ 32" "align4 (ps - fit) < 2 ^ 32"
    using al c ff4 align4_less [of "ps - fit"] ovle by (auto simp: ff_def)
  have ffe: "c - o4 = ff" by (simp add: ff_def)
  have start: "(idx c n)\<lparr>idx_value := x\<rparr> = \<lparr>idx_value = x, idx_version = of_nat (n div c)\<rparr>" for x
    by (simp add: idx_def)
  have "ProcessMessage_advance \<lparr>idx_value = of_nat o4, idx_version = of_nat (n div c)\<rparr>
      (of_nat ff) (of_nat fit) (of_nat (ps - fit)) (of_nat c) = Inr (idx c (n + rec_size ps))"
  proof (cases "align4 fit = ff")
    case True
    have ps: "align4 ps = ff + align4 (ps - fit)"
    proof (cases "ps \<le> ff")
      case True
      then have "fit = ps" by (simp add: fit_def fit_part_def ff_def o4_def)
      with \<open>align4 fit = ff\<close> show ?thesis by (simp add: align4_def)
    next
      case False
      then have "fit = ff" by (simp add: fit_def fit_part_def ff_def o4_def)
      with False ff4 align4_add [of ff "ps - ff"] show ?thesis by simp
    qed
    have lt: "align4 (ps - fit) < c"
    proof -
      have "rec_size ps \<le> c" using fits c by (simp add: rec_size_le_iff)
      then have "4 + ff + align4 (ps - fit) \<le> c" by (simp add: rec_size_def RecordHeader_size_def ps)
      then show ?thesis by simp
    qed
    have tot: "n + rec_size ps = c * Suc (n div c) + align4 (ps - fit)"
    proof -
      have "n + rec_size ps = c * (n div c) + (o4 + ff) + align4 (ps - fit)"
        by (subst n) (simp add: rec_size_def o4_def ps)
      then show ?thesis using o4 by (simp add: ff_def)
    qed
    have q: "idx c (n + rec_size ps) =
        \<lparr>idx_value = of_nat (align4 (ps - fit)), idx_version = of_nat (n div c) + 1\<rparr>"
      unfolding tot idx_at [OF lt] by simp
    then show ?thesis
      unfolding q using True lt c sm cm ovle
      by (simp add: ProcessMessage_advance_def AlignUp_ok Let_def)
  next
    case False
    have "ps < ff"
    proof (rule ccontr)
      assume "\<not> ps < ff"
      then have "fit = ff" by (simp add: fit_def fit_part_def ff_def o4_def)
      with False ff4 show False by simp
    qed
    then have fit: "fit = ps" by (simp add: fit_def fit_part_def ff_def o4_def)
    have lt: "o4 + align4 ps < c" using al False o4 by (simp add: fit ff_def)
    have tot: "n + rec_size ps = c * (n div c) + (o4 + align4 ps)"
      by (subst n) (simp add: rec_size_def o4_def)
    have q: "idx c (n + rec_size ps) =
        \<lparr>idx_value = of_nat (o4 + align4 ps), idx_version = of_nat (n div c)\<rparr>"
      unfolding tot using idx_at [OF lt] by simp
    have "(of_nat o4 + of_nat (align4 ps) :: u32) < of_nat c"
      using lt c by (simp flip: of_nat_add)
    then show ?thesis
      unfolding q using False c sm cm al ovle
      by (simp add: ProcessMessage_advance_def AlignUp_ok Let_def fit)
  qed
  then show ?thesis
    unfolding start by (simp only: ffe flip: fit_def o4_def)
qed

text \<open>
  \<open>ProcessMessage\<close> in terms of positions: it copies the two parts of the payload and moves the
  index by the size of the record.
\<close>

lemma ProcessMessage_ok:
  assumes "ring_pos c n" and "RecordHeader_size + ps \<le> c"
  shows "ProcessMessage copier (idx c n) (of_nat ps) (of_nat c) s =
    rbind (copier (of_nat (fit_part c n ps)) (of_nat (ps - fit_part c n ps)) s)
      (\<lambda>s'. Inr (idx c (n + rec_size ps), s'))"
  by (simp add: ProcessMessage_def split_ok [OF assms] advance_ok [OF assms] del: of_nat_diff of_nat_add)

section \<open>The ring as circular memory\<close>

definition cread :: "'a list \<Rightarrow> nat \<Rightarrow> nat \<Rightarrow> 'a list" where
  "cread r p n = map (\<lambda>i. r ! ((p + i) mod length r)) [0..<n]"

lemma mod_near:
  fixes j c p :: nat
  assumes "j < c"
  shows "(p + j) mod c = (if p mod c + j < c then p mod c + j else p mod c + j - c)"
proof -
  have "p mod c < c" using assms by (intro mod_less_divisor) simp
  then have o: "p mod c + j - c < c" using assms by arith
  have "(p + j) mod c = (p mod c + j) mod c" by (rule mod_add_left_eq [symmetric])
  also have "\<dots> = (if p mod c + j < c then p mod c + j else p mod c + j - c)"
    using o assms by (simp add: le_mod_geq)
  finally show ?thesis .
qed

text \<open>\<open>r'\<close> is \<open>r\<close> with \<open>bs\<close> written at position \<open>p\<close>, going round the end.\<close>

definition cwritten :: "nat \<Rightarrow> 'a list \<Rightarrow> 'a list \<Rightarrow> 'a list \<Rightarrow> bool" where
  "cwritten p bs r r' \<longleftrightarrow> length r' = length r \<and>
     (\<forall>j < length r. r' ! ((p + j) mod length r) =
        (if j < length bs then bs ! j else r ! ((p + j) mod length r)))"

lemma length_cread [simp]: "length (cread r p n) = n"
  by (simp add: cread_def)

lemma cread_nth [simp]: "i < n \<Longrightarrow> cread r p n ! i = r ! ((p + i) mod length r)"
  by (simp add: cread_def)

lemma cread_0 [simp]: "cread r p 0 = []"
  by (simp add: cread_def)

lemma cread_Suc: "cread r p (Suc n) = r ! (p mod length r) # cread r (Suc p) n"
  by (simp add: cread_def map_upt_Suc del: upt_Suc)

lemma cread_numeral: "cread r p (numeral k) = r ! (p mod length r) # cread r (Suc p) (pred_numeral k)"
  by (simp add: numeral_eq_Suc cread_Suc)

lemma cread_append: "cread r p m @ cread r (p + m) n = cread r p (m + n)"
  by (rule nth_equalityI) (auto simp: nth_append add.assoc)

lemma cread_flat:
  assumes "p mod length r + n \<le> length r" and "r \<noteq> []"
  shows "cread r p n = take n (drop (p mod length r) r)"
proof (rule nth_equalityI)
  fix i assume "i < length (cread r p n)"
  then have i: "i < n" by simp
  then have "(p + i) mod length r = p mod length r + i"
    using assms mod_near [of i "length r" p] by simp
  with i assms show "cread r p n ! i = take n (drop (p mod length r) r) ! i" by simp
qed (use assms in simp)

lemma cwritten_Nil [simp]: "cwritten p [] r r"
  by (simp add: cwritten_def)

lemma cwritten_length: "cwritten p bs r r' \<Longrightarrow> length r' = length r"
  by (simp add: cwritten_def)

lemma cwritten_splice:
  assumes "p mod length r + length bs \<le> length r" and ne: "r \<noteq> []"
  shows "cwritten p bs r (splice (p mod length r) bs r)"
  unfolding cwritten_def
proof (intro conjI allI impI)
  let ?c = "length r" and ?o = "p mod length r"
  show "length (splice ?o bs r) = ?c" using assms by simp
  fix j assume j: "j < ?c"
  have o: "?o < ?c" using ne by simp
  define k where "k = (p + j) mod ?c"
  have k: "k = (if ?o + j < ?c then ?o + j else ?o + j - ?c)"
    unfolding k_def using j by (rule mod_near)
  have kc: "k < ?c" using ne by (simp add: k_def)
  have iff: "?o \<le> k \<and> k < ?o + length bs \<longleftrightarrow> j < length bs"
    using k j o assms(1) by (auto split: if_splits)
  have "k - ?o = j" if "j < length bs" using that k assms(1) by auto
  with iff kc assms(1) show "splice ?o bs r ! ((p + j) mod ?c) =
      (if j < length bs then bs ! j else r ! ((p + j) mod ?c))"
    by (simp add: nth_splice flip: k_def)
qed

lemma cwritten_trans:
  assumes "cwritten p xs r r'" and "cwritten (p + length xs) ys r' r''"
    and len: "length xs + length ys \<le> length r"
  shows "cwritten p (xs @ ys) r r''"
  unfolding cwritten_def
proof (intro conjI allI impI)
  let ?c = "length r"
  have c': "length r' = ?c" and c'': "length r'' = ?c"
    using assms by (simp_all add: cwritten_def)
  show "length r'' = ?c" by (rule c'')
  fix j assume j: "j < ?c"
  define i where "i = (if length xs \<le> j then j - length xs else j + ?c - length xs)"
  have i: "i < ?c" and iff: "i < length ys \<longleftrightarrow> length xs \<le> j \<and> j < length xs + length ys"
    using j len by (auto simp: i_def)
  have "p + length xs + i = p + j \<or> p + length xs + i = p + j + ?c"
    using j len by (auto simp: i_def)
  then have "(p + length xs + i) mod ?c = (p + j) mod ?c" by (metis mod_add_self2)
  with i have "r'' ! ((p + j) mod ?c) = (if i < length ys then ys ! i else r' ! ((p + j) mod ?c))"
    using assms(2) c' unfolding cwritten_def by metis
  moreover have "r' ! ((p + j) mod ?c) = (if j < length xs then xs ! j else r ! ((p + j) mod ?c))"
    using assms(1) j by (simp add: cwritten_def)
  ultimately show "r'' ! ((p + j) mod ?c) =
      (if j < length (xs @ ys) then (xs @ ys) ! j else r ! ((p + j) mod ?c))"
    using iff j len by (auto simp: nth_append i_def)
qed

lemma cread_written:
  assumes "cwritten p bs r r'" and "n = length bs" and "n \<le> length r"
  shows "cread r' p n = bs"
  using assms by (intro nth_equalityI) (auto simp: cwritten_def)

text \<open>A read of the region just before the write, and not further back than one turn, is unchanged.\<close>

lemma cread_disjoint:
  assumes w: "cwritten p bs r r'" and before: "q + n \<le> p" and turn: "p + length bs \<le> q + length r"
  shows "cread r' q n = cread r q n"
proof (rule nth_equalityI)
  fix i assume "i < length (cread r' q n)"
  then have i: "i < n" by simp
  define j where "j = q + i + length r - p"
  have "j < length r" "\<not> j < length bs" "p + j = q + i + length r"
    using i before turn by (auto simp: j_def)
  moreover from this have "(p + j) mod length r = (q + i) mod length r" by simp
  ultimately have "r' ! ((q + i) mod length r) = r ! ((q + i) mod length r)"
    using w unfolding cwritten_def by metis
  with i cwritten_length [OF w] show "cread r' q n ! i = cread r q n ! i" by simp
qed simp

text \<open>\<open>record_at r p m\<close>: a record with payload \<open>m\<close> starts at position \<open>p\<close>.\<close>

definition record_at :: "byte list \<Rightarrow> nat \<Rightarrow> byte list \<Rightarrow> bool" where
  "record_at r p m \<longleftrightarrow> cread r p RecordHeader_size = le_bytes RecordHeader_size (length m) \<and>
     cread r (p + RecordHeader_size) (length m) = m"

fun total :: "byte list list \<Rightarrow> nat" where
  "total [] = 0"
| "total (m # ms) = rec_size (length m) + total ms"

fun holds :: "byte list \<Rightarrow> nat \<Rightarrow> byte list list \<Rightarrow> bool" where
  "holds r p [] = True"
| "holds r p (m # ms) = (record_at r p m \<and> holds r (p + rec_size (length m)) ms)"

lemma total_append [simp]: "total (xs @ ys) = total xs + total ys"
  by (induction xs) auto

lemma total_dvd [simp]: "4 dvd total ms"
  by (induction ms) auto

lemma holds_append:
  "holds r p (xs @ ys) \<longleftrightarrow> holds r p xs \<and> holds r (p + total xs) ys"
  by (induction xs arbitrary: p) (auto simp: add.assoc)

lemma record_at_disjoint:
  assumes "cwritten p bs r r'" and "q + rec_size (length m) \<le> p" and "p + length bs \<le> q + length r"
    and "record_at r q m"
  shows "record_at r' q m"
proof -
  have s: "RecordHeader_size + length m \<le> rec_size (length m)" by (rule rec_size_ge)
  have "cread r' q RecordHeader_size = cread r q RecordHeader_size"
    using assms(1-3) s by (intro cread_disjoint) auto
  moreover have "cread r' (q + RecordHeader_size) (length m) = cread r (q + RecordHeader_size) (length m)"
    using assms(1-3) s by (intro cread_disjoint) auto
  ultimately show ?thesis using assms(4) by (simp add: record_at_def)
qed

lemma holds_disjoint:
  assumes "cwritten p bs r r'" and "q + total ms \<le> p" and "p + length bs \<le> q + length r"
    and "holds r q ms"
  shows "holds r' q ms"
  using assms(2-4)
proof (induction ms arbitrary: q)
  case (Cons m ms)
  have "record_at r' q m"
    by (rule record_at_disjoint [OF assms(1)]) (use Cons.prems in auto)
  moreover have "holds r' (q + rec_size (length m)) ms"
    by (rule Cons.IH) (use Cons.prems in auto)
  ultimately show ?case by simp
qed simp

end
