(* ===== verification/Ring_Sequential.thy ===== *)
theory Ring_Sequential
  imports Ring_Memory
begin

text \<open>
  \<open>Push\<close> and \<open>Pop\<close>, each running alone, against a queue of messages.  \<open>ring_holds rb H ms\<close> is
  the representation relation: the ring buffer object \<open>rb\<close> holds the messages \<open>ms\<close>, oldest
  first, from position \<open>H\<close> on.  The lemmas on the single memory accesses are shared with the
  interleaved runs of \<open>Ring_Concurrent\<close>.
\<close>

section \<open>The memory accesses of Push and Pop\<close>

lemma unat_idx_value:
  assumes "ring_pos c p"
  shows "unat (idx_value (idx c p)) = p mod c"
proof -
  have "p mod c < c" and "c < 2 ^ 32" using assms by (simp_all add: ring_pos_def)
  then have "p mod c < 2 ^ 32" by linarith
  then show ?thesis by (simp add: idx_def)
qed

lemma fit_part_bounds:
  assumes "ring_pos c p" and "RecordHeader_size + ps \<le> c"
  shows "fit_part c p ps \<le> ps" "p mod c + RecordHeader_size + fit_part c p ps \<le> c"
    "fit_part c p ps < 2 ^ 32" "ps - fit_part c p ps < 2 ^ 32"
    "ps - fit_part c p ps \<noteq> 0 \<Longrightarrow> (p + RecordHeader_size + fit_part c p ps) mod c = 0"
proof -
  have c: "c < 2 ^ 32" using assms(1) by (simp add: ring_pos_def)
  show le: "fit_part c p ps \<le> ps" by (simp add: fit_part_def)
  show "p mod c + RecordHeader_size + fit_part c p ps \<le> c"
    using ring_pos_room [OF assms(1)] unfolding fit_part_def by linarith
  from le c assms(2) show "fit_part c p ps < 2 ^ 32" "ps - fit_part c p ps < 2 ^ 32" by linarith+
  assume "ps - fit_part c p ps \<noteq> 0"
  then have "p mod c + RecordHeader_size + fit_part c p ps = c"
    using ring_pos_room [OF assms(1)] by (auto simp: fit_part_def min_def split: if_splits)
  then have "p + RecordHeader_size + fit_part c p ps = c * (p div c) + c"
    by (metis add.assoc mult_div_mod_eq)
  then show "(p + RecordHeader_size + fit_part c p ps) mod c = 0" by simp
qed

lemma Push_header_ok:
  assumes "ring_pos c p" and "length r = c" and "ps < 2 ^ 32"
  shows "\<exists>r'. Push_header (idx c p) (of_nat ps) r = Inr r' \<and>
    cwritten p (le_bytes RecordHeader_size ps) r r'"
proof -
  have room: "p mod c + RecordHeader_size \<le> c" using assms(1) by (rule ring_pos_room)
  have "r \<noteq> []" using assms by (auto simp: ring_pos_def)
  with room assms show ?thesis
    using cwritten_splice [of p r "le_bytes RecordHeader_size ps"]
    by (simp add: Push_header_def unat_idx_value mem_write_ok)
qed

lemma Push_copy_fit_ok:
  assumes "ring_pos c p" and "length r = c" and "RecordHeader_size + length payload \<le> c"
  shows "\<exists>r'. Push_copy_fit (idx c p) payload (of_nat (fit_part c p (length payload))) r = Inr r' \<and>
    cwritten (p + RecordHeader_size) (take (fit_part c p (length payload)) payload) r r'"
proof -
  note b = fit_part_bounds [OF assms(1,3)]
  show ?thesis
  proof (cases "fit_part c p (length payload) = 0")
    case True
    with assms ring_pos_room [OF assms(1)] show ?thesis
      by (auto simp: Push_copy_fit_def unat_idx_value mem_read_ok mem_write_ok)
  next
    case False
    with b have "p mod c + RecordHeader_size < c" by linarith
    then have o: "(p + RecordHeader_size) mod c = p mod c + RecordHeader_size"
      using mod_near [of RecordHeader_size c p] by simp
    have "r \<noteq> []" using assms by (auto simp: ring_pos_def)
    with b assms show ?thesis
      using cwritten_splice [of "p + RecordHeader_size" r "take (fit_part c p (length payload)) payload"]
      by (simp add: Push_copy_fit_def unat_idx_value mem_read_ok mem_write_ok o min_def)
  qed
qed

lemma Push_copy_overflowed_ok:
  assumes "ring_pos c p" and "length r = c" and "RecordHeader_size + length payload \<le> c"
  shows "\<exists>r'. Push_copy_overflowed payload (of_nat (fit_part c p (length payload)))
      (of_nat (length payload - fit_part c p (length payload))) r = Inr r' \<and>
    cwritten (p + RecordHeader_size + fit_part c p (length payload))
      (drop (fit_part c p (length payload)) payload) r r'"
proof -
  note b = fit_part_bounds [OF assms(1,3)]
  let ?f = "fit_part c p (length payload)"
  show ?thesis
  proof (cases "length payload - ?f = 0")
    case True
    then have "?f = length payload" using b(1) by simp
    then show ?thesis
      using b(3) by (simp add: Push_copy_overflowed_def mem_read_ok mem_write_ok)
  next
    case False
    note o = b(5) [OF False]
    have "r \<noteq> []" using assms by (auto simp: ring_pos_def)
    with b(1,3,4) assms(2,3) o show ?thesis
      using cwritten_splice [of "p + RecordHeader_size + ?f" r "drop ?f payload"]
      by (simp add: Push_copy_overflowed_def mem_read_ok mem_write_ok del: of_nat_diff)
  qed
qed

text \<open>A header and then the payload: the record is there.\<close>

lemma record_written:
  assumes "cwritten p (le_bytes RecordHeader_size (length m)) r r0"
    and "cwritten (p + RecordHeader_size) m r0 r'"
    and "RecordHeader_size + length m \<le> length r"
  shows "record_at r' p m"
proof -
  have l: "length r0 = length r" by (rule cwritten_length [OF assms(1)])
  have "cread r' p RecordHeader_size = cread r0 p RecordHeader_size"
    by (rule cread_disjoint [OF assms(2)]) (use assms(3) l in auto)
  moreover have "cread r0 p RecordHeader_size = le_bytes RecordHeader_size (length m)"
    by (rule cread_written [OF assms(1)]) (use assms(3) in auto)
  moreover have "cread r' (p + RecordHeader_size) (length m) = m"
    by (rule cread_written [OF assms(2)]) (use assms(3) l in auto)
  ultimately show ?thesis by (simp add: record_at_def)
qed

lemma Pop_header_read:
  assumes "ring_pos c p" and "length r = c" and "record_at r p m" and "length m < 2 ^ 32"
  shows "Pop_header (idx c p) cap r =
    (if cap < of_nat (length m) then Inl (Runtime_Error ''message is not fit in outer memory buffer'')
     else Inr (of_nat (length m)))"
proof -
  have room: "p mod c + RecordHeader_size \<le> c" using assms(1) by (rule ring_pos_room)
  have "r \<noteq> []" using assms by (auto simp: ring_pos_def)
  then have "take RecordHeader_size (drop (p mod c) r) = le_bytes RecordHeader_size (length m)"
    using room assms(2,3) cread_flat [of p r RecordHeader_size] by (simp add: record_at_def)
  moreover have "le_nat (le_bytes RecordHeader_size (length m)) = length m"
    using assms(4) by (intro le_nat_le_bytes) (simp add: RecordHeader_size_def)
  ultimately show ?thesis
    using room assms(1,2,4) by (simp add: Pop_header_def unat_idx_value mem_read_ok)
qed

lemma Pop_copy_fit_ok:
  assumes "ring_pos c p" and "length r = c" and "RecordHeader_size + ps \<le> c" and "ps \<le> length buf"
  shows "Pop_copy_fit (idx c p) r (of_nat (fit_part c p ps)) buf =
    Inr (splice 0 (cread r (p + RecordHeader_size) (fit_part c p ps)) buf)"
proof -
  note b = fit_part_bounds [OF assms(1,3)]
  show ?thesis
  proof (cases "fit_part c p ps = 0")
    case True
    with assms ring_pos_room [OF assms(1)] show ?thesis
      by (auto simp: Pop_copy_fit_def unat_idx_value mem_read_ok mem_write_ok cread_def)
  next
    case False
    with b have "p mod c + RecordHeader_size < c" by linarith
    then have o: "(p + RecordHeader_size) mod c = p mod c + RecordHeader_size"
      using mod_near [of RecordHeader_size c p] by simp
    have "r \<noteq> []" using assms by (auto simp: ring_pos_def)
    with b assms show ?thesis
      by (simp add: Pop_copy_fit_def unat_idx_value mem_read_ok mem_write_ok cread_flat o)
  qed
qed

lemma Pop_copy_overflowed_ok:
  assumes "ring_pos c p" and "length r = c" and "RecordHeader_size + ps \<le> c" and "ps \<le> length buf"
  shows "Pop_copy_overflowed r (of_nat (fit_part c p ps)) (of_nat (ps - fit_part c p ps)) buf =
    Inr (splice (fit_part c p ps)
      (cread r (p + RecordHeader_size + fit_part c p ps) (ps - fit_part c p ps)) buf)"
proof -
  note b = fit_part_bounds [OF assms(1,3)]
  have "r \<noteq> []" using assms by (auto simp: ring_pos_def)
  show ?thesis
  proof (cases "ps - fit_part c p ps = 0")
    case True
    with b(1,3) assms show ?thesis
      by (simp add: Pop_copy_overflowed_def mem_read_ok mem_write_ok cread_def)
  next
    case False
    note o = b(5) [OF False]
    from b(1,3,4) assms(2-4) o \<open>r \<noteq> []\<close> show ?thesis
      by (simp add: Pop_copy_overflowed_def mem_read_ok mem_write_ok cread_flat del: of_nat_diff)
  qed
qed

section \<open>The free space a producer sees\<close>

definition ring_room :: "nat \<Rightarrow> nat \<Rightarrow> nat \<Rightarrow> nat" where
  "ring_room c P C = c - (P - C)"

lemma ring_room_le: "ring_room c P C \<le> c"
  by (simp add: ring_room_def)

lemma ring_room_iff: "C \<le> P \<Longrightarrow> P \<le> C + c \<Longrightarrow> n \<le> ring_room c P C \<longleftrightarrow> P + n \<le> C + c"
  by (auto simp: ring_room_def)

lemma ring_room_dvd: "4 dvd c \<Longrightarrow> 4 dvd P \<Longrightarrow> 4 dvd C \<Longrightarrow> 4 dvd ring_room c P C"
  by (simp add: ring_room_def)

text \<open>
  The producer is at position \<open>P\<close> and has observed a consumer index for position \<open>C\<close>, which
  may lag behind the true one: the 32-bit code computes the distance exactly, also across
  the end of the ring and the wrap-around of the version counter.
\<close>

lemma Push_free_size_ok:
  assumes pos: "ring_pos c P" and "C \<le> P" and "P \<le> C + c"
  shows "Push_free_size (idx c P) (idx c C) (of_nat c) = Inr (of_nat (ring_room c P C))"
proof -
  have c: "0 < c" "c < 2 ^ 32" using pos by (simp_all add: ring_pos_def)
  define p q where "p = P mod c" and "q = P div c"
  define p' q' where "p' = C mod c" and "q' = C div c"
  have P: "P = c * q + p" "p < c" and C: "C = c * q' + p'" "p' < c"
    using c by (simp_all add: p_def q_def p'_def q'_def)
  have sm: "p < 2 ^ 32" "p' < 2 ^ 32" using P C c by linarith+
  have ip: "idx c P = \<lparr>idx_value = of_nat p, idx_version = of_nat q\<rparr>"
    and ic: "idx c C = \<lparr>idx_value = of_nat p', idx_version = of_nat q'\<rparr>"
    by (simp_all add: idx_def p_def q_def p'_def q'_def)
  have qq: "q' \<le> q" using assms(2) by (simp add: q_def q'_def div_le_mono)
  show ?thesis
  proof (cases "q = q'")
    case True
    then have pp: "p' \<le> p" and d: "P - C = p - p'" using assms(2) P C by auto
    have sub: "(of_nat c - (of_nat p - of_nat p') :: u32) = of_nat (c - (p - p'))"
      using pp P(2) by (simp add: of_nat_diff)
    show ?thesis
      unfolding ring_room_def ip ic d using True pp sm c P C
      by (simp add: Push_free_size_def sub Let_def del: of_nat_diff)
  next
    case False
    have "q \<le> Suc q'"
      using div_le_mono [OF assms(3), of c] c div_add_self2 [of c C] by (simp add: q_def q'_def)
    with False qq have q: "q = Suc q'" by simp
    then have pp: "p \<le> p'" and d: "c - (P - C) = p' - p" using assms(2,3) P C by auto
    have ne: "(of_nat q' :: u32) \<noteq> of_nat q' + 1" by simp
    have sub: "(of_nat p' - of_nat p :: u32) = of_nat (p' - p)"
      using pp by (simp add: of_nat_diff)
    show ?thesis
      unfolding ring_room_def ip ic d q using pp sm c P C ne
      by (simp add: Push_free_size_def sub Let_def add.commute del: of_nat_diff)
  qed
qed

section \<open>Push and Pop on a queue\<close>

definition ring_holds :: "ring_buffer \<Rightarrow> nat \<Rightarrow> byte list list \<Rightarrow> bool" where
  "ring_holds rb H ms \<longleftrightarrow>
     (let c = unat (rb_capacity rb) in
      ring_pos c H \<and> length (rb_ring rb) = c \<and>
      rb_consumer_index rb = u64_of_index (idx c H) \<and>
      rb_producer_index rb = u64_of_index (idx c (H + total ms)) \<and>
      total ms \<le> c \<and> holds (rb_ring rb) H ms)"

lemma ring_pos_add: "ring_pos c n \<Longrightarrow> 4 dvd k \<Longrightarrow> ring_pos c (n + k)"
  by (simp add: ring_pos_def)

lemma Push_record_size_ok:
  assumes "RecordHeader_size + n \<le> c" and "c < 2 ^ 32"
  shows "Push_record_size (of_nat c) (of_nat n) = Inr (of_nat (RecordHeader_size + n))"
  using assms
  by (simp add: Push_record_size_def Let_def word_less_nat_alt flip: of_nat_add)

lemma Push_record_size_too_big:
  assumes "c < RecordHeader_size + n" and "c < 2 ^ 32" and "n < 2 ^ 64"
  shows "Push_record_size (of_nat c) (of_nat n) =
    Inl (Runtime_Error ''message is not fit in ring memory buffer'')"
proof (cases "RecordHeader_size + n < 2 ^ 64")
  case True
  with assms show ?thesis
    by (simp add: Push_record_size_def Let_def word_less_nat_alt flip: of_nat_add)
next
  case False
  have w: "unat (of_nat (RecordHeader_size + n) :: u64) = RecordHeader_size + n - 2 ^ 64"
    using False assms(3) by (simp only: unat_of_nat) (simp add: RecordHeader_size_def mod_if)
  have "(of_nat (RecordHeader_size + n) :: u64) < of_nat n"
    unfolding word_less_nat_alt w using assms(3) False by (simp add: RecordHeader_size_def)
  then show ?thesis
    by (simp add: Push_record_size_def Let_def)
qed

text \<open>
  The waiting loop over observed consumer positions \<open>obs k\<close>: it returns as soon as the room
  it computes is enough, and never returns when no observation shows enough room.
\<close>

lemma Push_wait_step:
  assumes "ring_pos c P" and "obs k \<le> P" and "P \<le> obs k + c" and "RecordHeader_size + n \<le> c"
    and "loads k = u64_of_index (idx c (obs k))"
  shows "Push_wait loads (idx c P) (of_nat c) (of_nat (RecordHeader_size + n)) k =
    (if RecordHeader_size + n \<le> ring_room c P (obs k) then Some (Inr k)
     else Push_wait loads (idx c P) (of_nat c) (of_nat (RecordHeader_size + n)) (Suc k))"
proof -
  have c: "c < 2 ^ 32" using assms(1) by (simp add: ring_pos_def)
  define f where "f = ring_room c P (obs k)"
  have f: "f < 2 ^ 32" using c ring_room_le [of c P "obs k"] by (simp add: f_def)
  have "RecordHeader_size + n < 2 ^ 64" "f < 2 ^ 64" using assms(4) c f by auto
  then have le: "(of_nat (RecordHeader_size + n) :: u64) \<le> of_nat f \<longleftrightarrow> RecordHeader_size + n \<le> f"
    by (simp add: word_le_nat_alt del: of_nat_add)
  show ?thesis
    unfolding Push_wait.simps [of loads _ _ _ k] assms(5)
    using f by (simp add: Push_free_size_ok assms(1-3) le del: of_nat_add of_nat_diff flip: f_def)
qed

lemma Push_wait_returns:
  assumes "ring_pos c P" and "\<And>k. obs k \<le> P \<and> P \<le> obs k + c" and "RecordHeader_size + n \<le> c"
    and loads: "\<And>k. loads k = u64_of_index (idx c (obs k))"
    and room: "RecordHeader_size + n \<le> ring_room c P (obs (i + d))"
  shows "\<exists>k. Push_wait loads (idx c P) (of_nat c) (of_nat (RecordHeader_size + n)) i = Some (Inr k)
    \<and> RecordHeader_size + n \<le> ring_room c P (obs k)"
  using room
proof (induction d arbitrary: i)
  case 0
  with assms show ?case by (auto simp: Push_wait_step [of c P obs] simp del: of_nat_add)
next
  case (Suc d)
  from Suc.prems Suc.IH [of "Suc i"] obtain k where
    "Push_wait loads (idx c P) (of_nat c) (of_nat (RecordHeader_size + n)) (Suc i) = Some (Inr k)"
    and "RecordHeader_size + n \<le> ring_room c P (obs k)" by auto
  moreover have "Push_wait loads (idx c P) (of_nat c) (of_nat (RecordHeader_size + n)) i =
    (if RecordHeader_size + n \<le> ring_room c P (obs i) then Some (Inr i)
     else Push_wait loads (idx c P) (of_nat c) (of_nat (RecordHeader_size + n)) (Suc i))"
    by (rule Push_wait_step) (use assms in auto)
  ultimately show ?case by (auto simp del: of_nat_add)
qed

lemma Push_wait_result:
  assumes ret: "Push_wait loads p cp rs k = Some w"
  shows "\<exists>j. case Push_free_size p (index_of_u64 (loads j)) cp of
    Inl e \<Rightarrow> w = Inl e | Inr free \<Rightarrow> rs \<le> ucast free \<and> w = Inr j"
proof (rule Push_wait.raw_induct [where P = "\<lambda>loads p cp rs k w.
    \<exists>j. case Push_free_size p (index_of_u64 (loads j)) cp of
      Inl e \<Rightarrow> w = Inl e | Inr free \<Rightarrow> rs \<le> ucast free \<and> w = Inr j", OF _ ret])
  fix f loads p cp rs k w
  assume IH: "\<And>loads p cp rs k w. f loads p cp rs k = Some w \<Longrightarrow>
      \<exists>j. case Push_free_size p (index_of_u64 (loads j)) cp of
        Inl e \<Rightarrow> w = Inl e | Inr free \<Rightarrow> rs \<le> ucast free \<and> w = Inr j"
    and eq: "(case Push_free_size p (index_of_u64 (loads k)) cp of Inl e \<Rightarrow> Some (Inl e)
      | Inr free \<Rightarrow> if rs \<le> ucast free then Some (Inr k) else f loads p cp rs (Suc k)) = Some w"
  show "\<exists>j. case Push_free_size p (index_of_u64 (loads j)) cp of
      Inl e \<Rightarrow> w = Inl e | Inr free \<Rightarrow> rs \<le> ucast free \<and> w = Inr j"
  proof (cases "f loads p cp rs (Suc k) = Some w")
    case True
    then show ?thesis by (rule IH)
  next
    case False
    with eq show ?thesis by (intro exI [of _ k]) (auto split: sum.splits if_splits)
  qed
qed

lemma Push_wait_blocks:
  assumes "ring_pos c P" and obs: "\<And>k. obs k \<le> P \<and> P \<le> obs k + c"
    and "RecordHeader_size + n \<le> c"
    and loads: "\<And>k. loads k = u64_of_index (idx c (obs k))"
    and full: "\<And>k. \<not> RecordHeader_size + n \<le> ring_room c P (obs k)"
  shows "Push_wait loads (idx c P) (of_nat c) (of_nat (RecordHeader_size + n)) i = None"
proof (rule ccontr)
  assume "Push_wait loads (idx c P) (of_nat c) (of_nat (RecordHeader_size + n)) i \<noteq> None"
  then obtain w j where "case Push_free_size (idx c P) (index_of_u64 (loads j)) (of_nat c) of
      Inl e \<Rightarrow> w = Inl e
    | Inr free \<Rightarrow> (of_nat (RecordHeader_size + n) :: u64) \<le> ucast free \<and> w = Inr j"
    by (blast dest: Push_wait_result)
  moreover have "Push_free_size (idx c P) (index_of_u64 (loads j)) (of_nat c) =
      Inr (of_nat (ring_room c P (obs j)))"
    using obs by (simp add: loads Push_free_size_ok assms(1))
  moreover have "\<not> (of_nat (RecordHeader_size + n) :: u64) \<le> of_nat (ring_room c P (obs j))"
    and "ring_room c P (obs j) < 2 ^ 32"
    using full [of j] assms(1,3) ring_room_le [of c P "obs j"]
    by (simp_all add: ring_pos_def word_le_nat_alt del: of_nat_add of_nat_diff)
  ultimately show False by (simp del: of_nat_add of_nat_diff)
qed

text \<open>The writing half of \<open>Push\<close>: both indices and the memory stay in the representation.\<close>

lemma Push_write_ok:
  assumes rb: "ring_holds rb H ms" and fits: "total ms + rec_size (length m) \<le> unat (rb_capacity rb)"
  shows "\<exists>rb'. Push_write m rb = Inr rb' \<and> ring_holds rb' H (ms @ [m]) \<and>
    rb_capacity rb' = rb_capacity rb"
proof -
  define c where "c = unat (rb_capacity rb)"
  define P where "P = H + total ms"
  from rb have H: "ring_pos c H" and len: "length (rb_ring rb) = c"
    and ci: "rb_consumer_index rb = u64_of_index (idx c H)"
    and pi: "rb_producer_index rb = u64_of_index (idx c P)"
    and h: "holds (rb_ring rb) H ms"
    by (simp_all add: ring_holds_def Let_def c_def P_def)
  have pos: "ring_pos c P" using H by (simp add: P_def ring_pos_add)
  have cap: "rb_capacity rb = of_nat c" by (simp add: c_def)
  have rec: "RecordHeader_size + length m \<le> rec_size (length m)" by (rule rec_size_ge)
  have ps: "RecordHeader_size + length m \<le> c" using rec fits by (simp add: c_def)
  then have ps32: "length m < 2 ^ 32" using pos by (simp add: ring_pos_def)
  obtain r0 where r0: "Push_header (idx c P) (of_nat (length m)) (rb_ring rb) = Inr r0"
    and w0: "cwritten P (le_bytes RecordHeader_size (length m)) (rb_ring rb) r0"
    using Push_header_ok [OF pos len ps32] by blast
  have l0: "length r0 = c" using cwritten_length [OF w0] len by simp
  obtain r1 where r1: "Push_copy_fit (idx c P) m (of_nat (fit_part c P (length m))) r0 = Inr r1"
    and w1: "cwritten (P + RecordHeader_size) (take (fit_part c P (length m)) m) r0 r1"
    using Push_copy_fit_ok [OF pos l0 ps] by blast
  have l1: "length r1 = c" using cwritten_length [OF w1] l0 by simp
  obtain r2 where r2: "Push_copy_overflowed m (of_nat (fit_part c P (length m)))
      (of_nat (length m - fit_part c P (length m))) r1 = Inr r2"
    and w2: "cwritten (P + RecordHeader_size + fit_part c P (length m))
      (drop (fit_part c P (length m)) m) r1 r2"
    using Push_copy_overflowed_ok [OF pos l1 ps] by blast
  have fp: "fit_part c P (length m) \<le> length m" using fit_part_bounds(1) [OF pos ps] .
  have w: "cwritten (P + RecordHeader_size) m r0 r2"
    using cwritten_trans [OF w1, of "drop (fit_part c P (length m)) m" r2] w2 fp ps l0 by simp
  have copier: "Push_copier (idx c P) m (of_nat (fit_part c P (length m)))
      (of_nat (length m - fit_part c P (length m))) r0 = Inr r2"
    using r1 r2 by (simp add: Push_copier_def del: of_nat_diff)
  define rb' where "rb' = rb\<lparr>rb_ring := r2,
    rb_producer_index := u64_of_index (idx c (P + rec_size (length m)))\<rparr>"
  have "Push_write m rb = Inr rb'"
    by (simp add: Push_write_def Let_def pi r0 cap ProcessMessage_ok [OF pos ps] copier rb'_def
        del: of_nat_diff)
  moreover have "record_at r2 P m" using w0 w ps len by (auto intro: record_written)
  moreover have "holds r2 H ms"
  proof -
    have "holds r0 H ms"
      by (rule holds_disjoint [OF w0 _ _ h]) (use fits rec len in \<open>simp_all add: P_def c_def\<close>)
    then show ?thesis
      by (intro holds_disjoint [OF w]) (use fits rec l0 in \<open>simp_all add: P_def c_def\<close>)
  qed
  moreover have "length r2 = c" using cwritten_length [OF w] l0 by simp
  ultimately show ?thesis
    using H ci fits
    by (auto simp: ring_holds_def Let_def rb'_def c_def P_def holds_append add.assoc)
qed

lemma Pop_read_ok:
  assumes rb: "ring_holds rb H (m # ms)" and buf: "length m \<le> length buf" "length buf < 2 ^ 64"
    and cap': "length m \<le> cap" "cap < 2 ^ 64"
  shows "\<exists>rb'. Pop_read buf (of_nat cap) rb = Inr (of_nat (length m), splice 0 m buf, rb') \<and>
    ring_holds rb' (H + rec_size (length m)) ms \<and> rb_capacity rb' = rb_capacity rb"
proof -
  define c where "c = unat (rb_capacity rb)"
  from rb have pos: "ring_pos c H" and len: "length (rb_ring rb) = c"
    and ci: "rb_consumer_index rb = u64_of_index (idx c H)"
    and pi: "rb_producer_index rb = u64_of_index (idx c (H + (rec_size (length m) + total ms)))"
    and h: "record_at (rb_ring rb) H m" "holds (rb_ring rb) (H + rec_size (length m)) ms"
    and tot: "rec_size (length m) + total ms \<le> c"
    by (simp_all add: ring_holds_def Let_def c_def)
  have cap: "rb_capacity rb = of_nat c" by (simp add: c_def)
  have ps: "RecordHeader_size + length m \<le> c" using tot rec_size_ge [of "length m"] by simp
  then have ps32: "length m < 2 ^ 32" using pos by (simp add: ring_pos_def)
  let ?f = "fit_part c H (length m)"
  have fp: "?f \<le> length m" using fit_part_bounds(1) [OF pos ps] .
  have hd: "Pop_header (idx c H) (of_nat cap) (rb_ring rb) = Inr (of_nat (length m))"
    using Pop_header_read [OF pos len h(1) ps32] cap' by simp
  have m: "cread (rb_ring rb) (H + RecordHeader_size) (length m) = m"
    using h(1) by (simp add: record_at_def)
  have parts: "cread (rb_ring rb) (H + RecordHeader_size) ?f @
      cread (rb_ring rb) (H + RecordHeader_size + ?f) (length m - ?f) = m"
    using cread_append [of "rb_ring rb" "H + RecordHeader_size" ?f "length m - ?f"] fp m by simp
  have copier: "Pop_copier (idx c H) (rb_ring rb) (of_nat ?f) (of_nat (length m - ?f)) buf =
      Inr (splice 0 m buf)"
    using buf fp splice_splice [of 0 "cread (rb_ring rb) (H + RecordHeader_size) ?f"
        "cread (rb_ring rb) (H + RecordHeader_size + ?f) (length m - ?f)" buf ?f]
    by (simp add: Pop_copier_def Pop_copy_fit_ok [OF pos len ps] Pop_copy_overflowed_ok [OF pos len ps]
        parts del: of_nat_diff)
  define rb' where "rb' = rb\<lparr>rb_consumer_index := u64_of_index (idx c (H + rec_size (length m)))\<rparr>"
  have "Pop_read buf (of_nat cap) rb = Inr (of_nat (length m), splice 0 m buf, rb')"
    using ps32 by (simp add: Pop_read_def Let_def ci hd cap ProcessMessage_ok [OF pos ps] copier rb'_def
        del: of_nat_diff)
  moreover have "ring_holds rb' (H + rec_size (length m)) ms"
    using pos len pi h tot
    by (simp add: ring_holds_def Let_def rb'_def ring_pos_add add.assoc flip: c_def)
  ultimately show ?thesis by (auto simp: rb'_def)
qed

text \<open>
  Every load of the consumer index that \<open>Push\<close> can make while the consumer is at position
  \<open>H\<close> or before: a position that is not newer than \<open>H\<close> and that the producer, at \<open>P\<close>, has not
  overtaken by more than the capacity.
\<close>

definition lagging :: "nat \<Rightarrow> nat \<Rightarrow> nat \<Rightarrow> (nat \<Rightarrow> u64) \<Rightarrow> bool" where
  "lagging c H P loads \<longleftrightarrow> (\<forall>k. \<exists>C. loads k = u64_of_index (idx c C) \<and> C \<le> H \<and> P \<le> C + c)"

lemma lagging_positions:
  assumes "lagging c H P loads"
  obtains obs where "\<And>k. loads k = u64_of_index (idx c (obs k))" "\<And>k. obs k \<le> H"
    "\<And>k. P \<le> obs k + c"
  using assms unfolding lagging_def by metis

text \<open>Two indices of positions at most one capacity apart are equal only for equal positions.\<close>

lemma idx_eq_iff:
  assumes "0 < c" and c: "c < 2 ^ 32" and "C \<le> P" and "P \<le> C + c"
  shows "idx c C = idx c P \<longleftrightarrow> C = P"
proof
  assume eq: "idx c C = idx c P"
  define p q p' q' where "p = P mod c" and "q = P div c" and "p' = C mod c" and "q' = C div c"
  have P: "P = c * q + p" "p < c" and C: "C = c * q' + p'" "p' < c"
    using assms(1) by (simp_all add: p_def q_def p'_def q'_def)
  have v: "(of_nat p' :: u32) = of_nat p" and w: "(of_nat q' :: u32) = of_nat q"
    using eq by (simp_all add: idx_def p_def q_def p'_def q'_def)
  have "q' \<le> q" using assms(3) by (simp add: q_def q'_def div_le_mono)
  moreover have "q \<le> Suc q'"
    using div_le_mono [OF assms(4), of c] assms(1) div_add_self2 [of c C] by (simp add: q_def q'_def)
  moreover have "q \<noteq> Suc q'" using w by auto
  ultimately have "q = q'" by simp
  moreover have "p < 2 ^ 32" "p' < 2 ^ 32" using P(2) C(2) c by linarith+
  then have "p = p'" using v by simp
  ultimately show "C = P" using P C by simp
qed simp

lemma Push_returns:
  assumes rb: "ring_holds rb H ms" and fits: "total ms + rec_size (length m) \<le> unat (rb_capacity rb)"
    and lag: "lagging (unat (rb_capacity rb)) H (H + total ms) loads"
    and seen: "loads d = rb_consumer_index rb"
  shows "\<exists>rb'. Push loads m rb = Some (Inr rb') \<and> ring_holds rb' H (ms @ [m]) \<and>
    rb_capacity rb' = rb_capacity rb"
proof -
  define c where "c = unat (rb_capacity rb)"
  define P where "P = H + total ms"
  from rb have H: "ring_pos c H" and ci: "rb_consumer_index rb = u64_of_index (idx c H)"
    and pi: "rb_producer_index rb = u64_of_index (idx c P)" and tot: "total ms \<le> c"
    by (simp_all add: ring_holds_def Let_def c_def P_def)
  have pos: "ring_pos c P" using H by (simp add: P_def ring_pos_add)
  have cap: "rb_capacity rb = of_nat c" by (simp add: c_def)
  have ps: "RecordHeader_size + length m \<le> c"
    using fits rec_size_ge [of "length m"] by (simp add: c_def)
  from lag obtain obs where obs: "\<And>k. loads k = u64_of_index (idx c (obs k))" "\<And>k. obs k \<le> H"
    "\<And>k. P \<le> obs k + c"
    by (auto elim: lagging_positions simp: c_def P_def)
  have "idx c (obs d) = idx c H" using seen obs(1) [of d] ci by simp
  then have "obs d = H"
    using idx_eq_iff [of c "obs d" H] H obs(2,3) [of d] by (simp add: ring_pos_def P_def)
  then have "RecordHeader_size + length m \<le> ring_room c P (obs (0 + d))"
    using fits rec_size_ge [of "length m"] by (simp add: ring_room_iff P_def c_def)
  then have "\<exists>k. Push_wait loads (idx c P) (of_nat c) (of_nat (RecordHeader_size + length m)) 0 =
      Some (Inr k) \<and> RecordHeader_size + length m \<le> ring_room c P (obs k)"
    using obs(2,3) by (intro Push_wait_returns [OF pos _ ps obs(1), where i = 0 and d = d])
      (auto simp: P_def trans_le_add1)
  then obtain k where
    "Push_wait loads (idx c P) (of_nat c) (of_nat (RecordHeader_size + length m)) 0 = Some (Inr k)"
    by blast
  then have "Push loads m rb = Some (Push_write m rb)"
    using pos by (simp add: Push_def cap pi Push_record_size_ok ps ring_pos_def del: of_nat_add)
  with Push_write_ok [OF rb fits] show ?thesis by auto
qed

lemma Push_blocks:
  assumes rb: "ring_holds rb H ms" and full: "unat (rb_capacity rb) < total ms + rec_size (length m)"
    and fits: "RecordHeader_size + length m \<le> unat (rb_capacity rb)"
    and lag: "lagging (unat (rb_capacity rb)) H (H + total ms) loads"
  shows "Push loads m rb = None"
proof -
  define c where "c = unat (rb_capacity rb)"
  define P where "P = H + total ms"
  from rb have H: "ring_pos c H" and pi: "rb_producer_index rb = u64_of_index (idx c P)"
    and tot: "total ms \<le> c" "4 dvd c"
    by (simp_all add: ring_holds_def Let_def c_def P_def ring_pos_def)
  have pos: "ring_pos c P" using H by (simp add: P_def ring_pos_add)
  have cap: "rb_capacity rb = of_nat c" by (simp add: c_def)
  from lag obtain obs where obs: "\<And>k. loads k = u64_of_index (idx c (obs k))" "\<And>k. obs k \<le> H"
    "\<And>k. P \<le> obs k + c"
    by (auto elim: lagging_positions simp: c_def P_def)
  have "\<not> RecordHeader_size + length m \<le> ring_room c P (obs k)" for k
  proof
    assume "RecordHeader_size + length m \<le> ring_room c P (obs k)"
    then have "P + (RecordHeader_size + length m) \<le> obs k + c"
      using obs(2) [of k] obs(3) [of k] by (simp add: ring_room_iff P_def)
    then have "RecordHeader_size + length m \<le> c - total ms" using obs(2) [of k] by (simp add: P_def)
    moreover have "4 dvd c - total ms" using tot by simp
    ultimately have "rec_size (length m) \<le> c - total ms" by (simp add: rec_size_le_iff)
    then show False using full tot by (simp add: c_def)
  qed
  then have "Push_wait loads (idx c P) (of_nat c) (of_nat (RecordHeader_size + length m)) 0 = None"
    using obs fits by (intro Push_wait_blocks [OF pos _ _ obs(1)]) (auto simp: c_def P_def trans_le_add1)
  then show ?thesis
    using pos fits
    by (simp add: Push_def cap pi Push_record_size_ok ring_pos_def flip: c_def del: of_nat_add)
qed

lemma Push_too_big:
  assumes "unat (rb_capacity rb) < RecordHeader_size + length m" and "length m < 2 ^ 64"
  shows "Push loads m rb = Some (Inl (Runtime_Error ''message is not fit in ring memory buffer''))"
proof -
  have "rb_capacity rb = of_nat (unat (rb_capacity rb))" by simp
  moreover have "unat (rb_capacity rb) < 2 ^ 32" using unsigned_less [of "rb_capacity rb"] by simp
  ultimately have "Push_record_size (rb_capacity rb) (of_nat (length m)) =
      Inl (Runtime_Error ''message is not fit in ring memory buffer'')"
    using Push_record_size_too_big assms by metis
  then show ?thesis by (simp add: Push_def)
qed

text \<open>The waiting loop of \<open>Pop\<close>: it returns exactly when some load differs from its own index.\<close>

lemma Pop_wait_returns: "consumer \<noteq> index_of_u64 (loads (i + d)) \<Longrightarrow> Pop_wait loads consumer i \<noteq> None"
proof (induction d arbitrary: i)
  case 0
  then show ?case by (subst Pop_wait.simps) simp
next
  case (Suc d)
  then have "Pop_wait loads consumer (Suc i) \<noteq> None" by simp
  then show ?case by (subst Pop_wait.simps) auto
qed

lemma Pop_wait_result:
  assumes ret: "Pop_wait loads consumer i = Some j"
  shows "consumer \<noteq> index_of_u64 (loads j)"
proof (rule Pop_wait.raw_induct [where P = "\<lambda>loads consumer i j. consumer \<noteq> index_of_u64 (loads j)", OF _ ret])
  fix f loads and consumer :: index and i j
  assume IH: "\<And>loads consumer i j. f loads consumer i = Some j \<Longrightarrow> consumer \<noteq> index_of_u64 (loads j)"
    and eq: "(if consumer = index_of_u64 (loads i) then f loads consumer (Suc i) else Some i) = Some j"
  then show "consumer \<noteq> index_of_u64 (loads j)"
    by (cases "consumer = index_of_u64 (loads i)") (use IH in auto)
qed

lemma Pop_returns:
  assumes rb: "ring_holds rb H (m # ms)" and seen: "loads d \<noteq> rb_consumer_index rb"
    and buf: "length m \<le> length buf" "length buf < 2 ^ 64" and cap: "length m \<le> cap" "cap < 2 ^ 64"
  shows "\<exists>rb'. Pop loads buf (of_nat cap) rb = Some (Inr (of_nat (length m), splice 0 m buf, rb')) \<and>
    ring_holds rb' (H + rec_size (length m)) ms \<and> rb_capacity rb' = rb_capacity rb"
proof -
  have ne: "index_of_u64 (rb_consumer_index rb) \<noteq> index_of_u64 (loads (0 + d))"
    using seen by (metis u64_of_index_of_u64 add_0)
  then obtain j where "Pop_wait loads (index_of_u64 (rb_consumer_index rb)) 0 = Some j"
    using Pop_wait_returns by blast
  with Pop_read_ok [OF rb buf cap] show ?thesis by (auto simp: Pop_def)
qed

lemma Pop_blocks:
  assumes "\<And>k. loads k = rb_consumer_index rb"
  shows "Pop loads buf cap rb = None"
proof (rule ccontr)
  assume "Pop loads buf cap rb \<noteq> None"
  then obtain j where "Pop_wait loads (index_of_u64 (rb_consumer_index rb)) 0 = Some j"
    by (auto simp: Pop_def)
  from Pop_wait_result [OF this] assms show False by simp
qed

lemma Pop_too_big:
  assumes rb: "ring_holds rb H (m # ms)" and seen: "loads d \<noteq> rb_consumer_index rb"
    and cap: "cap < 2 ^ 64" and big: "cap < length m"
  shows "Pop loads buf (of_nat cap) rb =
    Some (Inl (Runtime_Error ''message is not fit in outer memory buffer''))"
proof -
  define c where "c = unat (rb_capacity rb)"
  from rb have pos: "ring_pos c H" and len: "length (rb_ring rb) = c"
    and ci: "rb_consumer_index rb = u64_of_index (idx c H)"
    and h: "record_at (rb_ring rb) H m" and tot: "rec_size (length m) + total ms \<le> c"
    by (simp_all add: ring_holds_def Let_def c_def)
  have "length m < 2 ^ 32"
    using pos tot rec_size_ge [of "length m"] by (simp add: ring_pos_def)
  then have hd: "Pop_header (idx c H) (of_nat cap) (rb_ring rb) =
      Inl (Runtime_Error ''message is not fit in outer memory buffer'')"
    using Pop_header_read [OF pos len h] big cap by simp
  have ne: "index_of_u64 (rb_consumer_index rb) \<noteq> index_of_u64 (loads (0 + d))"
    using seen by (metis u64_of_index_of_u64 add_0)
  then obtain j where "Pop_wait loads (index_of_u64 (rb_consumer_index rb)) 0 = Some j"
    using Pop_wait_returns by blast
  with hd show ?thesis by (simp add: Pop_def Pop_read_def ci)
qed

text \<open>A ring as the constructor leaves it, on memory of the announced length, holds nothing.\<close>

lemma SPSCRingBuffer_ok:
  assumes "4 dvd c" and "0 < c" and "c < 2 ^ 32" and "length mem = c"
  shows "\<exists>rb. SPSCRingBuffer (of_nat c) mem = Inr rb \<and> ring_holds rb 0 [] \<and>
    unat (rb_capacity rb) = c \<and> \<not> IsInitialized rb"
proof -
  have "c + 3 < 2 ^ 32" using assms(1,3) by (auto elim!: dvdE)
  then have al: "AlignCapacity (of_nat c) = Inr (of_nat c)"
    using assms by (simp add: AlignCapacity_def AlignUp_ok)
  have z: "u64_of_index (idx c 0) = 0" by (simp add: u64_of_index_def idx_def)
  show ?thesis
    using assms z by (simp add: SPSCRingBuffer_def al ring_holds_def Let_def ring_pos_def IsInitialized_def)
qed

lemma SPSCRingBuffer_unaligned:
  assumes "\<not> 4 dvd c" and "c + 3 < 2 ^ 32"
  shows "SPSCRingBuffer (of_nat c) mem = Inl (Runtime_Error ''wrong capacity'')"
proof -
  have "align4 c < 2 ^ 32" using align4_less [of c] assms(2) by simp
  moreover have "align4 c \<noteq> c" using assms(1) by (metis align4_dvd)
  ultimately show ?thesis
    using assms align4_ge [of c]
    by (simp add: SPSCRingBuffer_def AlignCapacity_def AlignUp_ok)
qed

end
