(* ===== verification/Fifo.thy ===== *)
theory Fifo
  imports Prelude
begin

text \<open>
  The contract of a bounded message queue between one writer and one reader, as a locale: what
  the shared-memory connection expects of the ring buffer it is built on.  \<open>rel s q\<close> says that
  the concrete state \<open>s\<close> holds the messages \<open>q\<close>, oldest first, and \<open>fits q m\<close> that \<open>m\<close> can be
  added to them.  Operations return \<open>None\<close> when they wait for ever.  The locale proves once that
  every schedule of operations behaves as on a list.
\<close>

datatype 'm fifo_op = Put 'm | Take

text \<open>A schedule on a concrete queue: the messages taken, and the state at its end.\<close>

fun fifo_run :: "('m \<Rightarrow> 's \<Rightarrow> 's result option) \<Rightarrow> ('s \<Rightarrow> ('m \<times> 's) result option) \<Rightarrow>
    'm fifo_op list \<Rightarrow> 's \<Rightarrow> ('m list \<times> 's) result option" where
  "fifo_run enq deq [] s = Some (Inr ([], s))"
| "fifo_run enq deq (Put m # ops) s =
     (case enq m s of
        None \<Rightarrow> None
      | Some (Inl e) \<Rightarrow> Some (Inl e)
      | Some (Inr s') \<Rightarrow> fifo_run enq deq ops s')"
| "fifo_run enq deq (Take # ops) s =
     (case deq s of
        None \<Rightarrow> None
      | Some (Inl e) \<Rightarrow> Some (Inl e)
      | Some (Inr (m, s')) \<Rightarrow>
          map_option (\<lambda>r. rbind r (\<lambda>(ms, s''). Inr (m # ms, s''))) (fifo_run enq deq ops s'))"

text \<open>The same schedule on a list; \<open>None\<close> where an operation would have to wait.\<close>

fun list_run :: "('m list \<Rightarrow> 'm \<Rightarrow> bool) \<Rightarrow> 'm fifo_op list \<Rightarrow> 'm list \<Rightarrow> ('m list \<times> 'm list) option" where
  "list_run fits [] q = Some ([], q)"
| "list_run fits (Put m # ops) q = (if fits q m then list_run fits ops (q @ [m]) else None)"
| "list_run fits (Take # ops) [] = None"
| "list_run fits (Take # ops) (m # q) = map_option (\<lambda>(ms, q'). (m # ms, q')) (list_run fits ops q)"

fun puts :: "'m fifo_op list \<Rightarrow> 'm list" where
  "puts [] = []"
| "puts (Put m # ops) = m # puts ops"
| "puts (Take # ops) = puts ops"

text \<open>Nothing is lost, duplicated or reordered on the list.\<close>

lemma list_run_conserves: "list_run fits ops q = Some (out, q') \<Longrightarrow> out @ q' = q @ puts ops"
  by (induction fits ops q arbitrary: out q' rule: list_run.induct) (auto split: if_splits)

locale fifo =
  fixes rel :: "'s \<Rightarrow> 'm list \<Rightarrow> bool"
    and fits :: "'m list \<Rightarrow> 'm \<Rightarrow> bool"
    and enq :: "'m \<Rightarrow> 's \<Rightarrow> 's result option"
    and deq :: "'s \<Rightarrow> ('m \<times> 's) result option"
  assumes enq_fits: "rel s q \<Longrightarrow> fits q m \<Longrightarrow> \<exists>s'. enq m s = Some (Inr s') \<and> rel s' (q @ [m])"
    and enq_waits: "rel s q \<Longrightarrow> fits [] m \<Longrightarrow> \<not> fits q m \<Longrightarrow> enq m s = None"
    and deq_oldest: "rel s (m # q) \<Longrightarrow> \<exists>s'. deq s = Some (Inr (m, s')) \<and> rel s' q"
    and deq_waits: "rel s [] \<Longrightarrow> deq s = None"
begin

lemma run_list_run:
  assumes "rel s q" and "list_run fits ops q = Some (out, q')"
  shows "\<exists>s'. fifo_run enq deq ops s = Some (Inr (out, s')) \<and> rel s' q'"
  using assms
proof (induction ops arbitrary: s q out)
  case (Cons op ops)
  show ?case
  proof (cases op)
    case (Put m)
    with Cons.prems have f: "fits q m" and l: "list_run fits ops (q @ [m]) = Some (out, q')"
      by (auto split: if_splits)
    from enq_fits [OF Cons.prems(1) f] obtain s1 where
      "enq m s = Some (Inr s1)" "rel s1 (q @ [m])" by blast
    with Cons.IH [OF _ l] Put show ?thesis by simp
  next
    case Take
    with Cons.prems(2) obtain m q1 ms where q: "q = m # q1" "out = m # ms"
      and l: "list_run fits ops q1 = Some (ms, q')" by (cases q) auto
    from deq_oldest Cons.prems(1) q obtain s1 where
      "deq s = Some (Inr (m, s1))" "rel s1 q1" by blast
    with Cons.IH [OF _ l] Take q show ?thesis by fastforce
  qed
qed simp

lemma run_waits:
  assumes "rel s q" and "list_run fits ops q = None" and "\<forall>m \<in> set (puts ops). fits [] m"
  shows "fifo_run enq deq ops s = None"
  using assms
proof (induction ops arbitrary: s q)
  case (Cons op ops)
  show ?case
  proof (cases op)
    case (Put m)
    show ?thesis
    proof (cases "fits q m")
      case True
      from enq_fits [OF Cons.prems(1) True] obtain s1 where
        "enq m s = Some (Inr s1)" "rel s1 (q @ [m])" by blast
      with Cons Put True show ?thesis by simp
    next
      case False
      with Cons.prems Put show ?thesis by (simp add: enq_waits)
    qed
  next
    case Take
    show ?thesis
    proof (cases q)
      case Nil
      with Cons.prems Take show ?thesis by (simp add: deq_waits)
    next
      case (Cons m q1)
      from deq_oldest [OF Cons.prems(1) [unfolded Cons]] obtain s1 where
        "deq s = Some (Inr (m, s1))" "rel s1 q1" by blast
      with Cons.IH [of s1 q1] Cons.prems Take Cons show ?thesis by simp
    qed
  qed
qed simp

text \<open>
  So a schedule of operations ends exactly when it ends on the list, and then it has taken
  a prefix of what was put in, in that order; the rest is still there.
\<close>

lemma run_iff:
  assumes "rel s q" and "\<forall>m \<in> set (puts ops). fits [] m"
  shows "fifo_run enq deq ops s = None \<longleftrightarrow> list_run fits ops q = None"
proof (cases "list_run fits ops q")
  case None
  with run_waits [OF assms(1) _ assms(2)] show ?thesis by simp
next
  case (Some r)
  with run_list_run [OF assms(1), of ops "fst r" "snd r"] show ?thesis by auto
qed

lemma run_order:
  assumes "rel s q" and "\<forall>m \<in> set (puts ops). fits [] m"
    and "fifo_run enq deq ops s = Some r"
  shows "\<exists>out s' q'. r = Inr (out, s') \<and> rel s' q' \<and> out @ q' = q @ puts ops"
proof -
  have "list_run fits ops q \<noteq> None"
    using run_iff [OF assms(1,2)] assms(3) by simp
  then obtain out q' where l: "list_run fits ops q = Some (out, q')" by auto
  with run_list_run [OF assms(1) l] list_run_conserves [OF l] assms(3) show ?thesis by auto
qed

end

end
