(* ===== verification/Ring_Queue.thy ===== *)
theory Ring_Queue
  imports Ring_Sequential Fifo
begin

text \<open>
  The ring buffer provides the bounded queue: \<open>Push\<close> and \<open>Pop\<close>, called one after the other with
  loads that return the current indices, satisfy the laws of locale \<open>fifo\<close>.  What a full or an
  empty ring, a message that can never fit and a message too large for the receiver's memory
  do is stated per operation, for loads that may also return outdated indices.
\<close>

section \<open>The operations and their abstraction\<close>

definition ring_put :: "byte list \<Rightarrow> ring_buffer \<Rightarrow> ring_buffer result option" where
  "ring_put m rb = Push (\<lambda>_. rb_consumer_index rb) m rb"

text \<open>The message is what \<open>Pop\<close> left in the first bytes of the caller's memory.\<close>

definition ring_take :: "byte list \<Rightarrow> ring_buffer \<Rightarrow> (byte list \<times> ring_buffer) result option" where
  "ring_take buf rb =
     map_option (\<lambda>r. rbind r (\<lambda>(n, buf', rb'). Inr (take (unat n) buf', rb')))
       (Pop (\<lambda>_. rb_producer_index rb) buf (of_nat (length buf)) rb)"

definition ring_fits :: "nat \<Rightarrow> byte list list \<Rightarrow> byte list \<Rightarrow> bool" where
  "ring_fits c q m \<longleftrightarrow> total q + rec_size (length m) \<le> c"

definition ring_rel :: "nat \<Rightarrow> byte list \<Rightarrow> ring_buffer \<Rightarrow> byte list list \<Rightarrow> bool" where
  "ring_rel c buf rb q \<longleftrightarrow> c \<le> length buf \<and> length buf < 2 ^ 64 \<and> unat (rb_capacity rb) = c \<and>
     (\<exists>H. ring_holds rb H q)"

lemma fresh_lagging:
  "ring_holds rb H q \<Longrightarrow> lagging (unat (rb_capacity rb)) H (H + total q) (\<lambda>_. rb_consumer_index rb)"
  by (auto simp: ring_holds_def lagging_def Let_def)

lemma ring_put_ok:
  assumes "ring_rel c buf rb q" and "ring_fits c q m"
  shows "\<exists>rb'. ring_put m rb = Some (Inr rb') \<and> ring_rel c buf rb' (q @ [m])"
proof -
  from assms(1) obtain H where rb: "ring_holds rb H q" and c: "unat (rb_capacity rb) = c"
    by (auto simp: ring_rel_def)
  with Push_returns [OF rb _ fresh_lagging [OF rb], of m] assms show ?thesis
    by (auto simp: ring_put_def ring_rel_def ring_fits_def)
qed

lemma ring_put_waits:
  assumes "ring_rel c buf rb q" and "ring_fits c [] m" and "\<not> ring_fits c q m"
  shows "ring_put m rb = None"
proof -
  from assms(1) obtain H where rb: "ring_holds rb H q" and c: "unat (rb_capacity rb) = c"
    by (auto simp: ring_rel_def)
  with assms(2,3) Push_blocks [OF rb _ _ fresh_lagging [OF rb], of m] show ?thesis
    by (simp add: ring_put_def ring_fits_def order_trans [OF rec_size_ge])
qed

lemma ring_indices_differ:
  assumes "ring_holds rb H (m # q)"
  shows "rb_producer_index rb \<noteq> rb_consumer_index rb"
proof -
  define c where "c = unat (rb_capacity rb)"
  have "ring_pos c H" "total (m # q) \<le> c" "0 < total (m # q)"
    using assms by (simp_all add: ring_holds_def Let_def c_def)
  then have "idx c H \<noteq> idx c (H + total (m # q))"
    using idx_eq_iff [of c H "H + total (m # q)"] by (simp add: ring_pos_def del: total.simps)
  then show ?thesis using assms by (simp add: ring_holds_def Let_def flip: c_def)
qed

lemma ring_take_ok:
  assumes "ring_rel c buf rb (m # q)"
  shows "\<exists>rb'. ring_take buf rb = Some (Inr (m, rb')) \<and> ring_rel c buf rb' q"
proof -
  from assms obtain H where rb: "ring_holds rb H (m # q)" and c: "unat (rb_capacity rb) = c"
    by (auto simp: ring_rel_def)
  have len: "length m < c"
    using rb rec_size_ge [of "length m"] c by (auto simp: ring_holds_def Let_def RecordHeader_size_def)
  have buf: "c \<le> length buf" "length buf < 2 ^ 64" using assms by (simp_all add: ring_rel_def)
  obtain rb' where "Pop (\<lambda>_. rb_producer_index rb) buf (of_nat (length buf)) rb =
      Some (Inr (of_nat (length m), splice 0 m buf, rb'))"
    and "ring_holds rb' (H + rec_size (length m)) q" "rb_capacity rb' = rb_capacity rb"
    using Pop_returns [OF rb, of "\<lambda>_. rb_producer_index rb" 0 buf "length buf"]
      ring_indices_differ [OF rb] len buf by auto
  moreover have "take (length m) (splice 0 m buf) = m" by (simp add: splice_def)
  ultimately show ?thesis using len buf c by (auto simp: ring_take_def ring_rel_def)
qed

lemma ring_take_waits:
  assumes "ring_rel c buf rb []"
  shows "ring_take buf rb = None"
proof -
  from assms have "rb_producer_index rb = rb_consumer_index rb"
    by (auto simp: ring_rel_def ring_holds_def Let_def)
  then show ?thesis by (simp add: ring_take_def Pop_blocks)
qed

interpretation ring: fifo "ring_rel c buf" "ring_fits c" ring_put "ring_take buf" for c buf
  by unfold_locales
    (fact ring_put_ok ring_put_waits ring_take_ok ring_take_waits)+

section \<open>Properties\<close>

text \<open>C4: every schedule of \<open>Push\<close> and \<open>Pop\<close> calls on a ring of \<open>c\<close> bytes, made one after the
  other, takes exactly the pushed messages in their order, each byte for byte, however often
  the ring and the 32-bit version counter wrap round: what was taken followed by what is left is
  what was there followed by what was put in.  It waits for ever only where a queue bounded
  by \<open>c\<close> bytes would.\<close>

theorem ring_fifo:
  assumes "ring_rel c buf rb q" and "\<forall>m \<in> set (puts ops). RecordHeader_size + length m \<le> c"
  shows "case fifo_run ring_put (ring_take buf) ops rb of
      None \<Rightarrow> list_run (ring_fits c) ops q = None
    | Some (Inl e) \<Rightarrow> False
    | Some (Inr (out, rb')) \<Rightarrow> \<exists>q'. list_run (ring_fits c) ops q = Some (out, q') \<and>
        ring_rel c buf rb' q' \<and> out @ q' = q @ puts ops"
proof -
  have d: "4 dvd c" using assms(1) by (auto simp: ring_rel_def ring_holds_def Let_def ring_pos_def)
  then have f: "\<forall>m \<in> set (puts ops). ring_fits c [] m"
    using assms(2) by (simp add: ring_fits_def rec_size_le_iff)
  show ?thesis
  proof (cases "list_run (ring_fits c) ops q")
    case None
    with ring.run_waits [OF assms(1) None f] show ?thesis by simp
  next
    case (Some r)
    then obtain out q' where r: "list_run (ring_fits c) ops q = Some (out, q')" by (cases r) auto
    with ring.run_list_run [OF assms(1) r] list_run_conserves [OF r] show ?thesis by auto
  qed
qed

text \<open>C8: a freshly constructed ring buffer on memory of its capacity accepts the messages that
  fit and returns them; a capacity that is not a multiple of the header size is refused.\<close>

theorem constructed_ring:
  assumes "0 < c" and "c + 3 < 2 ^ 32" and "length mem = c" and "c \<le> length buf" and "length buf < 2 ^ 64"
  shows "case SPSCRingBuffer (of_nat c) mem of
      Inl e \<Rightarrow> \<not> 4 dvd c \<and> e = Runtime_Error ''wrong capacity''
    | Inr rb \<Rightarrow> 4 dvd c \<and> \<not> IsInitialized rb \<and> GetCapacity rb = of_nat c \<and> ring_rel c buf rb []"
proof (cases "4 dvd c")
  case True
  then obtain rb where rb: "SPSCRingBuffer (of_nat c) mem = Inr rb" "ring_holds rb 0 []"
      "unat (rb_capacity rb) = c" "\<not> IsInitialized rb"
    using SPSCRingBuffer_ok [of c mem] assms by auto
  have "GetCapacity rb = of_nat c"
    using rb(3) by (metis GetCapacity_def of_nat_unat)
  with True rb assms show ?thesis by (auto simp: ring_rel_def)
next
  case False
  with assms show ?thesis by (simp add: SPSCRingBuffer_unaligned)
qed

text \<open>A ring of 16 bytes just before the end of its memory: one message is still in it.\<close>

definition ring16 :: ring_buffer where
  "ring16 = \<lparr>rb_capacity = 16, rb_is_initialized = True,
     rb_producer_index = u64_of_index \<lparr>idx_value = 0, idx_version = 1\<rparr>,
     rb_consumer_index = u64_of_index \<lparr>idx_value = 8, idx_version = 0\<rparr>,
     rb_ring = [0, 0, 0, 0, 0, 0, 0, 0, 2, 0, 0, 0, 41, 42, 0, 0]\<rparr>"

lemma ring16_holds: "ring_holds ring16 8 [[41, 42]]"
  by (simp add: ring16_def ring_holds_def ring_pos_def idx_def rec_size_def align4_def Let_def
      RecordHeader_size_def record_at_def cread_numeral cread_Suc le_bytes_numeral)

lemma ring16_capacity [simp]: "rb_capacity ring16 = 16"
  by (simp add: ring16_def)

lemma ring16_rel: "ring_rel 16 (replicate 16 0) ring16 [[41, 42]]"
  unfolding ring_rel_def using ring16_holds by (auto simp: ring16_def)

theorem ring_fifo_witness:
  "case fifo_run ring_put (ring_take (replicate 16 0)) [Put [1, 2, 3], Take, Put [5, 6, 7, 8], Take] ring16 of
     Some (Inr (out, rb')) \<Rightarrow> out = [[41, 42], [1, 2, 3]] \<and> ring_rel 16 (replicate 16 0) rb' [[5, 6, 7, 8]]
   | _ \<Rightarrow> False"
proof -
  have "list_run (ring_fits 16) [Put [1, 2, 3], Take, Put [5, 6, 7, 8], Take] [[41, 42 :: byte]] =
      Some ([[41, 42], [1, 2, 3]], [[5, 6, 7, 8]])"
    by (simp add: ring_fits_def rec_size_def align4_def RecordHeader_size_def)
  then show ?thesis
    using ring_fifo [OF ring16_rel, of "[Put [1, 2, 3], Take, Put [5, 6, 7, 8], Take]"]
    by (auto simp: RecordHeader_size_def split: option.splits sum.splits)
qed

theorem constructed_ring_witness:
  "\<exists>rb. SPSCRingBuffer 16 (replicate 16 0) = Inr rb \<and> ring_rel 16 (replicate 16 0) rb []"
  using constructed_ring [of 16 "replicate 16 0" "replicate 16 0"]
  by (auto split: sum.splits)

text \<open>C9: \<open>Push\<close> on a ring that holds the messages \<open>ms\<close>, with loads of the consumer index that
  may be outdated (any position the consumer has left behind, as long as the producer is not
  more than the capacity ahead) and that show the newest value at some time: a record larger
  than the ring is refused with an exception, a record for which there is no room makes
  \<open>Push\<close> wait for ever, and otherwise \<open>Push\<close> returns and the ring holds the message after
  the others.  No assertion fails and no byte outside of the ring is touched.\<close>

theorem Push_outcome:
  assumes "ring_holds rb H ms" and "length m < 2 ^ 64"
    and "lagging (unat (rb_capacity rb)) H (H + total ms) loads" and "loads d = rb_consumer_index rb"
  shows "if unat (rb_capacity rb) < RecordHeader_size + length m
    then Push loads m rb = Some (Inl (Runtime_Error ''message is not fit in ring memory buffer''))
    else if unat (rb_capacity rb) < total ms + rec_size (length m) then Push loads m rb = None
    else \<exists>rb'. Push loads m rb = Some (Inr rb') \<and> ring_holds rb' H (ms @ [m]) \<and>
      rb_capacity rb' = rb_capacity rb"
  using assms Push_returns [OF assms(1) _ assms(3,4), of m] Push_blocks [OF assms(1) _ _ assms(3), of m]
  by (simp add: Push_too_big)

text \<open>The first loads still show position 0, one full turn behind the producer.\<close>

theorem Push_outcome_witness:
  "\<exists>rb'. Push (\<lambda>k. if k < 3 then 0 else rb_consumer_index ring16) [9] ring16 = Some (Inr rb') \<and>
    ring_holds rb' 8 [[41, 42], [9]]"
proof -
  have "lagging 16 8 16 (\<lambda>k. if k < 3 then 0 else rb_consumer_index ring16)"
    unfolding lagging_def
  proof
    fix k
    show "\<exists>C. (if k < 3 then 0 else rb_consumer_index ring16) = u64_of_index (idx 16 C) \<and>
        C \<le> 8 \<and> 16 \<le> C + 16"
      by (cases "k < 3"; intro exI [of _ "if k < 3 then 0 else 8"])
        (simp_all add: ring16_def idx_def u64_of_index_def)
  qed
  then show ?thesis
    using Push_outcome [OF ring16_holds, of "[9]" "\<lambda>k. if k < 3 then 0 else rb_consumer_index ring16" 3]
    by (auto simp: rec_size_def align4_def RecordHeader_size_def)
qed

text \<open>C10: \<open>Pop\<close> with any loads of the producer index: it waits for ever when no load
  differs from its own index; otherwise it takes the oldest message into the first bytes of
  the caller's memory and leaves the rest of that memory and the other messages alone, or, when the
  announced capacity is too small for the message, fails with an exception.\<close>

theorem Pop_outcome:
  assumes "ring_holds rb H (m # ms)" and "length buf < 2 ^ 64" and "cap \<le> length buf"
  shows "if \<forall>k. loads k = rb_consumer_index rb then Pop loads buf (of_nat cap) rb = None
    else if cap < length m then Pop loads buf (of_nat cap) rb =
        Some (Inl (Runtime_Error ''message is not fit in outer memory buffer''))
    else \<exists>rb'. Pop loads buf (of_nat cap) rb = Some (Inr (of_nat (length m), splice 0 m buf, rb')) \<and>
      ring_holds rb' (H + rec_size (length m)) ms \<and> rb_capacity rb' = rb_capacity rb"
proof (cases "\<forall>k. loads k = rb_consumer_index rb")
  case True
  then show ?thesis by (simp add: Pop_blocks)
next
  case False
  then obtain d where d: "loads d \<noteq> rb_consumer_index rb" by blast
  have cap: "cap < 2 ^ 64" using assms(2,3) by simp
  show ?thesis
    unfolding if_not_P [OF False] using Pop_returns [where loads = loads and d = d, OF assms(1) d _ assms(2) _ cap]
      Pop_too_big [where loads = loads and d = d, OF assms(1) d cap] assms(3)
    by simp
qed

theorem Pop_outcome_witness:
  "\<exists>rb'. Pop (\<lambda>k. if k < 3 then rb_consumer_index ring16 else rb_producer_index ring16)
      [7, 7, 7, 7] 3 ring16 = Some (Inr (2, [41, 42, 7, 7], rb')) \<and> ring_holds rb' 16 []"
proof -
  define loads where "loads = (\<lambda>k :: nat. if k < 3 then rb_consumer_index ring16 else rb_producer_index ring16)"
  have "loads 3 \<noteq> rb_consumer_index ring16" by (simp add: loads_def ring16_def)
  then have n: "\<not> (\<forall>k. loads k = rb_consumer_index ring16)" by blast
  have "(3 :: nat) \<le> length [7, 7, 7, 7 :: byte]" and "length [7, 7, 7, 7 :: byte] < 2 ^ 64" by simp_all
  from Pop_outcome [OF ring16_holds this(2,1), of loads, unfolded if_not_P [OF n]]
  show ?thesis
    by (auto simp: splice_def rec_size_def align4_def RecordHeader_size_def simp flip: loads_def)
qed

end
