(* ===== verification/Packers.thy ===== *)
theory Packers
  imports Buffer
begin

text \<open>
  The packers (\<open>src/src/connection/include/connection/packers\<close>): how 64-bit numbers, byte
  strings, time points and structures become bytes of a message buffer and back.  A
  packer is the record of the overloads a \<open>SerializingPacker\<close>/\<open>DeserializingPacker\<close> pair
  dispatches to; the traits for \<open>std::string\<close>, time points and the structure of the unit
  test are functions of a packer, as the templates are.  Locale \<open>word_packer\<close> states what
  they rely on; it is interpreted on both packers, for hosts of either byte order.
\<close>

section \<open>Byte order\<close>

datatype Endianness = kBig | kLittle

text \<open>The object representation of an integer of \<open>n\<close> bytes on a host, and back.\<close>

definition obj_bytes :: "Endianness \<Rightarrow> nat \<Rightarrow> nat \<Rightarrow> byte list" where
  "obj_bytes host n x = (case host of kBig \<Rightarrow> rev (le_bytes n x) | kLittle \<Rightarrow> le_bytes n x)"

definition obj_nat :: "Endianness \<Rightarrow> byte list \<Rightarrow> nat" where
  "obj_nat host bs = (case host of kBig \<Rightarrow> le_nat (rev bs) | kLittle \<Rightarrow> le_nat bs)"

text \<open>\<open>EndiannessChecker\<close>: a union whose 16-bit member is \<open>0x0201\<close>; \<open>Value\<close> looks at its first byte.\<close>

definition EndiannessChecker_IsLittle :: "Endianness \<Rightarrow> bool" where
  "EndiannessChecker_IsLittle host = (obj_bytes host 2 0x0201 ! 0 = 0x01)"

definition EndiannessChecker_Value :: "Endianness \<Rightarrow> Endianness" where
  "EndiannessChecker_Value host = (if EndiannessChecker_IsLittle host then kLittle else kBig)"

section \<open>Packers\<close>

text \<open>
  A 64-bit object (\<open>int64_t\<close> in two's complement, \<open>uint64_t\<close>, or the bits of a \<open>double\<close>) is a
  word; the three overloads of each packer have the same body.
\<close>

record packer =
  SerializeImpl :: "u64 \<Rightarrow> buffer \<Rightarrow> buffer result"
  SerializeImpl_view :: "byte list \<Rightarrow> u64 \<Rightarrow> buffer \<Rightarrow> buffer result"
  DeserializeImpl :: "buffer \<Rightarrow> (u64 \<times> buffer) result"
  DeserializeImpl_view :: "byte list \<Rightarrow> u64 \<Rightarrow> buffer \<Rightarrow> (byte list \<times> buffer) result"

definition LocalPacker_SerializeImpl :: "Endianness \<Rightarrow> u64 \<Rightarrow> buffer \<Rightarrow> buffer result" where
  "LocalPacker_SerializeImpl host w b = WriteBytes (obj_bytes host 8 (unat w)) 8 b"

text \<open>The object read into starts as eight bytes of its own, which the read replaces.\<close>

definition LocalPacker_DeserializeImpl :: "Endianness \<Rightarrow> buffer \<Rightarrow> (u64 \<times> buffer) result" where
  "LocalPacker_DeserializeImpl host b =
     rbind (ReadBytes (replicate 8 0) 8 b) (\<lambda>(bs, b'). Inr (of_nat (obj_nat host bs), b'))"

definition LocalPacker :: "Endianness \<Rightarrow> packer" where
  "LocalPacker host = \<lparr>SerializeImpl = LocalPacker_SerializeImpl host, SerializeImpl_view = WriteBytes,
     DeserializeImpl = LocalPacker_DeserializeImpl host, DeserializeImpl_view = ReadBytes\<rparr>"

text \<open>\<open>NetworkPacker\<close> has the host's byte order as the template argument \<open>THostEndian\<close>.\<close>

definition NetworkPacker_SerializeImpl ::
  "Endianness \<Rightarrow> Endianness \<Rightarrow> u64 \<Rightarrow> buffer \<Rightarrow> buffer result" where
  "NetworkPacker_SerializeImpl host THostEndian w b =
     (case THostEndian of
        kBig \<Rightarrow> WriteBytes (obj_bytes host 8 (unat w)) 8 b
      | kLittle \<Rightarrow> WriteBytesInReverseOrder (obj_bytes host 8 (unat w)) 8 b)"

definition NetworkPacker_DeserializeImpl ::
  "Endianness \<Rightarrow> Endianness \<Rightarrow> buffer \<Rightarrow> (u64 \<times> buffer) result" where
  "NetworkPacker_DeserializeImpl host THostEndian b =
     rbind (case THostEndian of
              kBig \<Rightarrow> ReadBytes (replicate 8 0) 8 b
            | kLittle \<Rightarrow> ReadBytesInReverseOrder (replicate 8 0) 8 b)
       (\<lambda>(bs, b'). Inr (of_nat (obj_nat host bs), b'))"

definition NetworkPacker :: "Endianness \<Rightarrow> Endianness \<Rightarrow> packer" where
  "NetworkPacker host THostEndian =
     \<lparr>SerializeImpl = NetworkPacker_SerializeImpl host THostEndian, SerializeImpl_view = WriteBytes,
      DeserializeImpl = NetworkPacker_DeserializeImpl host THostEndian, DeserializeImpl_view = ReadBytes\<rparr>"

section \<open>Traits\<close>

definition string_Serialize :: "packer \<Rightarrow> byte list \<Rightarrow> buffer \<Rightarrow> buffer result" where
  "string_Serialize p s b =
     rbind (SerializeImpl p (of_nat (length s)) b) (SerializeImpl_view p s (of_nat (length s)))"

text \<open>
  Strings of the implementation: \<open>string_max_size\<close> is \<open>std::string::max_size()\<close>, beyond which \<open>resize\<close> throws
  \<open>std::length_error\<close>, and \<open>string_memory n\<close> says whether there is memory for \<open>n\<close> characters, in the string or from the
  allocator; without it \<open>resize\<close> throws \<open>std::bad_alloc\<close>.
\<close>

record string_impl =
  string_max_size :: u64
  string_memory :: "u64 \<Rightarrow> bool"

definition resize :: "string_impl \<Rightarrow> u64 \<Rightarrow> byte list \<Rightarrow> byte list result" where
  "resize si n s =
     (if string_max_size si < n then Inl Length_Error
      else if \<not> string_memory si n then Inl Bad_Alloc
      else Inr (take (unat n) s @ replicate (unat n - length s) 0))"

text \<open>What the string held before does not matter; here it was empty.\<close>

definition string_Deserialize :: "string_impl \<Rightarrow> packer \<Rightarrow> buffer \<Rightarrow> (byte list \<times> buffer) result" where
  "string_Deserialize si p b =
     rbind (DeserializeImpl p b) (\<lambda>(n, b').
     rbind (resize si n []) (\<lambda>s.
     DeserializeImpl_view p s n b'))"

definition time_point_Serialize :: "packer \<Rightarrow> time_point \<Rightarrow> buffer \<Rightarrow> buffer result" where
  "time_point_Serialize p t b = SerializeImpl p (time_since_epoch t) b"

definition time_point_Deserialize :: "packer \<Rightarrow> buffer \<Rightarrow> (time_point \<times> buffer) result" where
  "time_point_Deserialize p b =
     rbind (DeserializeImpl p b) (\<lambda>(count, b'). Inr (time_point count, b'))"

text \<open>The structure the unit test sends through every packer.\<close>

record ComplexObject =
  co_i :: u64
  co_d :: u64
  co_s :: "byte list"
  co_u :: u64

definition ComplexObject_Serialize :: "packer \<Rightarrow> ComplexObject \<Rightarrow> buffer \<Rightarrow> buffer result" where
  "ComplexObject_Serialize p ob b =
     rbind (SerializeImpl p (co_i ob) b) (\<lambda>b.
     rbind (SerializeImpl p (co_d ob) b) (\<lambda>b.
     rbind (string_Serialize p (co_s ob) b) (\<lambda>b.
     SerializeImpl p (co_u ob) b)))"

definition ComplexObject_Deserialize :: "string_impl \<Rightarrow> packer \<Rightarrow> buffer \<Rightarrow> (ComplexObject \<times> buffer) result" where
  "ComplexObject_Deserialize si p b =
     rbind (DeserializeImpl p b) (\<lambda>(i, b).
     rbind (DeserializeImpl p b) (\<lambda>(d, b).
     rbind (string_Deserialize si p b) (\<lambda>(s, b).
     rbind (DeserializeImpl p b) (\<lambda>(u, b).
     Inr (\<lparr>co_i = i, co_d = d, co_s = s, co_u = u\<rparr>, b)))))"

text \<open>What \<open>resize\<close> comes to, and an implementation that has room for everything a buffer can hold.\<close>

lemma resize_Inl: "resize si n s = Inl e \<Longrightarrow> e \<in> {Length_Error, Bad_Alloc}"
  by (auto simp: resize_def split: if_splits)

lemma resize_Inr:
  assumes "resize si n s = Inr s'"
  shows "length s' = unat n" "unat n \<le> unat (string_max_size si)"
  using assms by (auto simp: resize_def word_less_nat_alt split: if_splits)

definition strings_fit :: "string_impl \<Rightarrow> bool" where
  "strings_fit si \<longleftrightarrow> kBufferCapacityInBytes \<le> unat (string_max_size si) \<and>
     (\<forall>n. unat n \<le> kBufferCapacityInBytes \<longrightarrow> string_memory si n)"

lemma resize_fits: "strings_fit si \<Longrightarrow> unat n \<le> kBufferCapacityInBytes \<Longrightarrow> \<exists>s'. resize si n s = Inr s' \<and> length s' = unat n"
  by (auto simp: resize_def strings_fit_def word_less_nat_alt)

definition ample_strings :: string_impl where
  "ample_strings = \<lparr>string_max_size = 2 ^ 62, string_memory = (\<lambda>n. n \<le> 2 ^ 30)\<rparr>"

lemma ample_strings: "strings_fit ample_strings" "unat (string_max_size ample_strings) < 2 ^ 63"
  by (simp_all add: ample_strings_def strings_fit_def kBufferCapacityInBytes_def word_le_nat_alt)

section \<open>Contract of a packer\<close>

text \<open>
  A number becomes eight bytes \<open>enc w\<close>, from which \<open>dec\<close> gives it back; a view is copied as
  it is; what does not fit is refused.
\<close>

locale word_packer =
  fixes p :: packer and enc :: "u64 \<Rightarrow> byte list" and dec :: "byte list \<Rightarrow> u64"
  assumes length_enc: "length (enc w) = 8"
    and dec_enc: "dec (enc w) = w"
    and ser_word: "buffer_inv b \<Longrightarrow> SerializeImpl p w b = WriteBytes (enc w) 8 b"
    and des_word: "buffer_inv b \<Longrightarrow> DeserializeImpl p b =
      rbind (ReadBytes (replicate 8 0) 8 b) (\<lambda>(bs, b'). Inr (dec bs, b'))"
    and ser_view: "SerializeImpl_view p = WriteBytes"
    and des_view: "DeserializeImpl_view p = ReadBytes"
begin

lemma ser_word_ok:
  assumes "buffer_inv b" and "wr b + 8 \<le> kBufferCapacityInBytes"
  shows "\<exists>b'. SerializeImpl p w b = Inr b' \<and> buffer_grows b (enc w) b'"
  using WriteBytes_ok [of b "enc w"] assms by (simp add: ser_word length_enc)

lemma ser_word_full:
  assumes "buffer_inv b" and "kBufferCapacityInBytes < wr b + 8"
  shows "SerializeImpl p w b = Inl (Runtime_Error ''message is not fit in buffer'')"
  using WriteBytes_full [of b 8 "enc w"] assms by (simp add: ser_word)

lemma des_word_ok:
  assumes "buffer_inv b" and "rd b + 8 \<le> kBufferCapacityInBytes"
  shows "\<exists>b'. DeserializeImpl p b = Inr (dec (take 8 (unread b)), b') \<and> buffer_reads b 8 b'"
  using ReadBytes_ok [of b 8 "replicate 8 0"] assms by (auto simp: des_word)

lemma des_word_short:
  assumes "buffer_inv b" and "kBufferCapacityInBytes < rd b + 8"
  shows "DeserializeImpl p b = Inl (Runtime_Error ''not enough message in buffer'')"
  using ReadBytes_short [of b 8 "replicate 8 0"] assms by (simp add: des_word)

lemma string_Serialize_ok:
  assumes inv: "buffer_inv b" and fits: "wr b + (8 + length s) \<le> kBufferCapacityInBytes"
  shows "\<exists>b'. string_Serialize p s b = Inr b' \<and> buffer_grows b (enc (of_nat (length s)) @ s) b'"
proof -
  obtain b1 where b1: "SerializeImpl p (of_nat (length s)) b = Inr b1"
    "buffer_grows b (enc (of_nat (length s))) b1"
    using ser_word_ok [OF inv] fits by fastforce
  then have "buffer_inv b1" "wr b1 = wr b + 8" by (simp_all add: buffer_grows_def length_enc)
  then obtain b2 where "WriteBytes s (of_nat (length s)) b1 = Inr b2" "buffer_grows b1 s b2"
    using WriteBytes_ok [of b1 s] fits by auto
  with b1 buffer_grows_trans [OF b1(2) _ inv, of s b2] show ?thesis
    by (simp add: string_Serialize_def ser_view)
qed

lemma string_Serialize_full:
  assumes inv: "buffer_inv b" and big: "kBufferCapacityInBytes < wr b + (8 + length s)"
    and "length s < 2 ^ 63"
  shows "string_Serialize p s b = Inl (Runtime_Error ''message is not fit in buffer'')"
proof (cases "wr b + 8 \<le> kBufferCapacityInBytes")
  case True
  then obtain b1 where b1: "SerializeImpl p (of_nat (length s)) b = Inr b1"
    "buffer_grows b (enc (of_nat (length s))) b1"
    using ser_word_ok [OF inv] by blast
  then have "buffer_inv b1" "wr b1 = wr b + 8" by (simp_all add: buffer_grows_def length_enc)
  with b1 big assms(3) show ?thesis
    by (simp add: string_Serialize_def ser_view WriteBytes_full)
next
  case False
  then show ?thesis using inv by (simp add: string_Serialize_def ser_word_full)
qed

text \<open>Reading a string, by the length \<open>n\<close> that is in front of it.\<close>

lemma string_Deserialize_step:
  assumes "buffer_inv b" and "rd b + 8 \<le> kBufferCapacityInBytes" and "n = dec (take 8 (unread b))"
  obtains b1 where "string_Deserialize si p b = rbind (resize si n []) (\<lambda>s. ReadBytes s n b1)"
    and "buffer_reads b 8 b1" and "unread b1 = drop 8 (unread b)"
proof -
  obtain b1 where b1: "DeserializeImpl p b = Inr (n, b1)" "buffer_reads b 8 b1"
    using des_word_ok [OF assms(1,2)] assms(3) by auto
  show ?thesis
    by (rule that [of b1])
      (simp_all add: string_Deserialize_def des_view b1(1) b1(2) buffer_reads_unread [OF b1(2)])
qed

lemma string_Deserialize_too_long:
  assumes "buffer_inv b" and "rd b + 8 \<le> kBufferCapacityInBytes" and "resize si (dec (take 8 (unread b))) [] = Inl e"
  shows "string_Deserialize si p b = Inl e"
  using string_Deserialize_step [OF assms(1,2) refl, of si] assms(3) by auto

lemma string_Deserialize_short:
  assumes inv: "buffer_inv b" and max: "unat (string_max_size si) < 2 ^ 63"
    and size: "resize si (dec (take 8 (unread b))) [] = Inr s"
    and short: "kBufferCapacityInBytes < rd b + (8 + unat (dec (take 8 (unread b))))"
  shows "string_Deserialize si p b = Inl (Runtime_Error ''not enough message in buffer'')"
proof (cases "rd b + 8 \<le> kBufferCapacityInBytes")
  case True
  let ?n = "dec (take 8 (unread b))"
  obtain b1 where b1: "string_Deserialize si p b = rbind (resize si ?n []) (\<lambda>s. ReadBytes s ?n b1)" "buffer_reads b 8 b1"
    using string_Deserialize_step [OF inv True refl] by blast
  have "length s = unat ?n" "unat ?n < 2 ^ 63" using resize_Inr [OF size] max by simp_all
  then show ?thesis
    using b1 size short ReadBytes_short [of b1 "unat ?n" s] by (simp add: buffer_reads_def)
next
  case False
  then show ?thesis using inv by (simp add: string_Deserialize_def des_word_short)
qed

lemma string_Deserialize_ok:
  assumes inv: "buffer_inv b" and size: "resize si (dec (take 8 (unread b))) [] = Inr s"
    and fits: "rd b + (8 + unat (dec (take 8 (unread b)))) \<le> kBufferCapacityInBytes"
  shows "\<exists>b'. string_Deserialize si p b =
      Inr (take (unat (dec (take 8 (unread b)))) (drop 8 (unread b)), b') \<and>
    buffer_reads b (8 + unat (dec (take 8 (unread b)))) b'"
proof -
  let ?n = "dec (take 8 (unread b))"
  have "rd b + 8 \<le> kBufferCapacityInBytes" using fits by simp
  then obtain b1 where b1: "string_Deserialize si p b = rbind (resize si ?n []) (\<lambda>s. ReadBytes s ?n b1)"
    "buffer_reads b 8 b1" "unread b1 = drop 8 (unread b)"
    using string_Deserialize_step [OF inv _ refl] by blast
  have "buffer_inv b1" "rd b1 + unat ?n \<le> kBufferCapacityInBytes" using b1(2) fits by (simp_all add: buffer_reads_def)
  from ReadBytes_ok [OF this resize_Inr(1) [OF size, symmetric]]
  obtain b2 where b2: "ReadBytes s ?n b1 = Inr (take (unat ?n) (unread b1), b2)" "buffer_reads b1 (unat ?n) b2" by auto
  have "string_Deserialize si p b = Inr (take (unat ?n) (drop 8 (unread b)), b2)"
    unfolding b1(1) size rbind.simps b2(1) b1(3) ..
  then show ?thesis using buffer_reads_trans [OF b1(2) b2(2)] by blast
qed

lemma string_round_trip:
  assumes inv: "buffer_inv b" and bytes: "take (8 + length s) (unread b) = enc (of_nat (length s)) @ s"
    and "rd b + (8 + length s) \<le> kBufferCapacityInBytes" and "strings_fit si"
  shows "\<exists>b'. string_Deserialize si p b = Inr (s, b') \<and> buffer_reads b (8 + length s) b'"
proof -
  have "take 8 (unread b) = take 8 (take (8 + length s) (unread b))" by simp
  also have "\<dots> = enc (of_nat (length s))" unfolding bytes by (simp add: length_enc)
  finally have n: "unat (dec (take 8 (unread b))) = length s"
    using assms(3) buffer_capacity_less by (simp add: dec_enc)
  have "take (length s) (drop 8 (unread b)) = drop 8 (take (8 + length s) (unread b))"
    by (simp add: drop_take)
  also have "\<dots> = s" unfolding bytes by (simp add: length_enc)
  finally have s: "take (length s) (drop 8 (unread b)) = s" .
  obtain s' where "resize si (dec (take 8 (unread b))) [] = Inr s'"
    using resize_fits [OF assms(4), of "dec (take 8 (unread b))" "[]"] n assms(3) by auto
  from string_Deserialize_ok [OF inv this] assms(3) n s show ?thesis by simp
qed

end

section \<open>Both packers keep the contract\<close>

lemma length_obj_bytes [simp]: "length (obj_bytes host n x) = n"
  by (simp add: obj_bytes_def split: Endianness.split)

lemma obj_nat_bytes [byte_simps]: "x < 256 ^ n \<Longrightarrow> obj_nat host (obj_bytes host n x) = x"
  by (simp add: obj_nat_def obj_bytes_def byte_simps split: Endianness.split)

lemma obj_word [byte_simps]: "of_nat (obj_nat host (obj_bytes host 8 (unat w))) = (w :: u64)"
proof -
  have "unat w < 256 ^ 8" using unsigned_less [of w] by simp
  then show ?thesis by (simp add: byte_simps)
qed

interpretation local_packer: word_packer "LocalPacker host"
    "\<lambda>w. obj_bytes host 8 (unat w)" "\<lambda>bs. of_nat (obj_nat host bs)" for host
  by unfold_locales
    (simp_all add: LocalPacker_def LocalPacker_SerializeImpl_def LocalPacker_DeserializeImpl_def byte_simps)

text \<open>The bytes of a number on the wire.\<close>

definition wire_bytes :: "Endianness \<Rightarrow> Endianness \<Rightarrow> u64 \<Rightarrow> byte list" where
  "wire_bytes host THostEndian w =
     (case THostEndian of kBig \<Rightarrow> obj_bytes host 8 (unat w) | kLittle \<Rightarrow> rev (obj_bytes host 8 (unat w)))"

definition wire_word :: "Endianness \<Rightarrow> Endianness \<Rightarrow> byte list \<Rightarrow> u64" where
  "wire_word host THostEndian bs =
     (case THostEndian of kBig \<Rightarrow> of_nat (obj_nat host bs) | kLittle \<Rightarrow> of_nat (obj_nat host (rev bs)))"

lemma network_ser:
  assumes "buffer_inv b"
  shows "NetworkPacker_SerializeImpl host E w b = WriteBytes (wire_bytes host E w) 8 b"
  using WriteBytesInReverseOrder_eq [OF assms, of "obj_bytes host 8 (unat w)"]
  by (simp add: NetworkPacker_SerializeImpl_def wire_bytes_def split: Endianness.split)

lemma network_des:
  assumes "buffer_inv b"
  shows "NetworkPacker_DeserializeImpl host E b =
    rbind (ReadBytes (replicate 8 0) 8 b) (\<lambda>(bs, b'). Inr (wire_word host E bs, b'))"
  using ReadBytesInReverseOrder_eq [OF assms, of "replicate 8 0"]
  by (simp add: NetworkPacker_DeserializeImpl_def wire_word_def rbind_assoc case_prod_unfold
      split: Endianness.split)

interpretation network_packer: word_packer "NetworkPacker host E"
    "wire_bytes host E" "wire_word host E" for host E
proof unfold_locales
  fix w b
  show "length (wire_bytes host E w) = 8" and "wire_word host E (wire_bytes host E w) = w"
    by (simp_all add: wire_bytes_def wire_word_def byte_simps split: Endianness.split)
  assume "buffer_inv b"
  then show "SerializeImpl (NetworkPacker host E) w b = WriteBytes (wire_bytes host E w) 8 b"
    and "DeserializeImpl (NetworkPacker host E) b =
      rbind (ReadBytes (replicate 8 0) 8 b) (\<lambda>(bs, b'). Inr (wire_word host E bs, b'))"
    by (simp_all add: NetworkPacker_def network_ser network_des)
qed (simp_all add: NetworkPacker_def)

section \<open>Structures\<close>

text \<open>
  A chain of fields: \<open>writes\<close> says that a serialiser appends \<open>bs\<close>, \<open>reads\<close> that a deserialiser
  that finds \<open>bs\<close> next returns \<open>x\<close> and skips them.  Both compose, so the traits of a
  structure need one line per field.
\<close>

definition writes :: "(buffer \<Rightarrow> buffer result) \<Rightarrow> byte list \<Rightarrow> bool" where
  "writes f bs \<longleftrightarrow> (\<forall>b. buffer_inv b \<longrightarrow> wr b + length bs \<le> kBufferCapacityInBytes \<longrightarrow>
     (\<exists>b'. f b = Inr b' \<and> buffer_grows b bs b'))"

definition reads :: "(buffer \<Rightarrow> ('a \<times> buffer) result) \<Rightarrow> byte list \<Rightarrow> 'a \<Rightarrow> bool" where
  "reads f bs x \<longleftrightarrow> (\<forall>b. buffer_inv b \<longrightarrow> take (length bs) (unread b) = bs \<longrightarrow>
     (\<exists>b'. f b = Inr (x, b') \<and> buffer_reads b (length bs) b'))"

lemma writes_seq:
  assumes "writes f xs" and "writes g ys"
  shows "writes (\<lambda>b. rbind (f b) g) (xs @ ys)"
  unfolding writes_def
proof (intro allI impI)
  fix b assume inv: "buffer_inv b" and fits: "wr b + length (xs @ ys) \<le> kBufferCapacityInBytes"
  then obtain b1 where b1: "f b = Inr b1" "buffer_grows b xs b1"
    using assms(1) by (auto simp: writes_def)
  then have "buffer_inv b1" "wr b1 + length ys \<le> kBufferCapacityInBytes"
    using fits by (simp_all add: buffer_grows_def)
  then obtain b2 where "g b1 = Inr b2" "buffer_grows b1 ys b2"
    using assms(2) by (auto simp: writes_def)
  with b1 show "\<exists>b'. rbind (f b) g = Inr b' \<and> buffer_grows b (xs @ ys) b'"
    using buffer_grows_trans [OF b1(2) _ inv] by auto
qed

lemma reads_return: "reads (\<lambda>b. Inr (x, b)) [] x"
  by (simp add: reads_def buffer_reads_def)

lemma reads_seq:
  assumes "reads f xs x" and "reads (g x) ys y"
  shows "reads (\<lambda>b. rbind (f b) (\<lambda>(x, b). g x b)) (xs @ ys) y"
  unfolding reads_def
proof (intro allI impI)
  fix b assume inv: "buffer_inv b" and bytes: "take (length (xs @ ys)) (unread b) = xs @ ys"
  have "take (length xs) (unread b) = take (length xs) (take (length (xs @ ys)) (unread b))" by simp
  also have "\<dots> = xs" unfolding bytes by simp
  finally obtain b1 where b1: "f b = Inr (x, b1)" "buffer_reads b (length xs) b1"
    using assms(1) inv by (auto simp: reads_def)
  have "take (length ys) (unread b1) = drop (length xs) (take (length (xs @ ys)) (unread b))"
    by (simp add: buffer_reads_unread [OF b1(2)] drop_take)
  also have "\<dots> = ys" unfolding bytes by simp
  finally obtain b2 where b2: "g x b1 = Inr (y, b2)" "buffer_reads b1 (length ys) b2"
    using assms(2) b1(2) by (auto simp: reads_def buffer_reads_def)
  with b1 buffer_reads_trans [OF b1(2) b2(2)]
  show "\<exists>b'. rbind (f b) (\<lambda>(x, b). g x b) = Inr (y, b') \<and> buffer_reads b (length (xs @ ys)) b'" by simp
qed

lemma reads_fits:
  assumes "buffer_inv b" and "take n (unread b) = bs" and "n = length bs" and "0 < n"
  shows "rd b + n \<le> kBufferCapacityInBytes"
proof -
  have "length (take n (unread b)) = n" using assms(2,3) by simp
  then have "n \<le> length (unread b)" by simp
  then show ?thesis using length_unread [OF assms(1)] assms(4) by simp
qed

text \<open>The bytes of a string and of the structure under an encoding \<open>enc\<close> of numbers.\<close>

definition string_bytes :: "(u64 \<Rightarrow> byte list) \<Rightarrow> byte list \<Rightarrow> byte list" where
  "string_bytes enc s = enc (of_nat (length s)) @ s"

definition ComplexObject_bytes :: "(u64 \<Rightarrow> byte list) \<Rightarrow> ComplexObject \<Rightarrow> byte list" where
  "ComplexObject_bytes enc ob =
     enc (co_i ob) @ enc (co_d ob) @ string_bytes enc (co_s ob) @ enc (co_u ob)"

context word_packer
begin

lemma writes_word: "writes (SerializeImpl p w) (enc w)"
  using ser_word_ok by (simp add: writes_def length_enc)

lemma reads_word: "reads (DeserializeImpl p) (enc w) w"
  unfolding reads_def
proof (intro allI impI)
  fix b assume b: "buffer_inv b" "take (length (enc w)) (unread b) = enc w"
  then have "rd b + 8 \<le> kBufferCapacityInBytes"
    using reads_fits [OF b] by (simp add: length_enc)
  then show "\<exists>b'. DeserializeImpl p b = Inr (w, b') \<and> buffer_reads b (length (enc w)) b'"
    using des_word_ok [OF b(1)] b(2) by (simp add: length_enc dec_enc)
qed

lemma writes_string: "writes (string_Serialize p s) (string_bytes enc s)"
  using string_Serialize_ok by (simp add: writes_def string_bytes_def length_enc)

lemma reads_string:
  assumes "strings_fit si"
  shows "reads (string_Deserialize si p) (string_bytes enc s) s"
  unfolding reads_def
proof (intro allI impI)
  fix b assume b: "buffer_inv b" "take (length (string_bytes enc s)) (unread b) = string_bytes enc s"
  then have "rd b + (8 + length s) \<le> kBufferCapacityInBytes"
    using reads_fits [OF b] by (simp add: string_bytes_def length_enc)
  then show "\<exists>b'. string_Deserialize si p b = Inr (s, b') \<and>
      buffer_reads b (length (string_bytes enc s)) b'"
    using string_round_trip [OF b(1), of s] b(2) assms by (simp add: string_bytes_def length_enc)
qed

lemma writes_ComplexObject: "writes (ComplexObject_Serialize p ob) (ComplexObject_bytes enc ob)"
  unfolding ComplexObject_Serialize_def [abs_def] ComplexObject_bytes_def
  by (intro writes_seq writes_word writes_string)

lemma reads_ComplexObject:
  assumes "strings_fit si"
  shows "reads (ComplexObject_Deserialize si p) (ComplexObject_bytes enc ob) ob"
proof -
  have "reads (ComplexObject_Deserialize si p)
      (enc (co_i ob) @ enc (co_d ob) @ string_bytes enc (co_s ob) @ enc (co_u ob) @ [])
      \<lparr>co_i = co_i ob, co_d = co_d ob, co_s = co_s ob, co_u = co_u ob\<rparr>"
    unfolding ComplexObject_Deserialize_def [abs_def]
    by (rule reads_seq, rule reads_word, rule reads_seq, rule reads_word, rule reads_seq,
        rule reads_string [OF assms], rule reads_seq, rule reads_word, rule reads_return)
  then show ?thesis by (cases ob) (simp add: ComplexObject_bytes_def)
qed

end

text \<open>
  A buffer a connector has filled: \<open>received bs b\<close> says that reading starts at the bytes of
  the message \<open>bs\<close>.
\<close>

definition received :: "byte list \<Rightarrow> buffer \<Rightarrow> bool" where
  "received bs b \<longleftrightarrow> buffer_inv b \<and> take (length bs) (unread b) = bs"

lemma received_reads: "reads f bs x \<Longrightarrow> received bs b \<Longrightarrow> \<exists>b'. f b = Inr (x, b') \<and> buffer_inv b'"
  by (auto simp: reads_def received_def buffer_reads_def)

lemma writes_reset:
  assumes "writes f bs" and "buffer_inv b" and "length bs \<le> kBufferCapacityInBytes"
  shows "\<exists>b'. f (Reset b) = Inr b' \<and> buffer_inv b' \<and> written b' = bs"
proof -
  have "buffer_inv (Reset b)" "wr (Reset b) + length bs \<le> kBufferCapacityInBytes"
    using assms(2,3) by simp_all
  then obtain b' where "f (Reset b) = Inr b'" "buffer_grows (Reset b) bs b'"
    using assms(1) unfolding writes_def by blast
  then show ?thesis by (auto simp: buffer_grows_def written_def [of "Reset b"])
qed

section \<open>Properties\<close>

lemma checker_value: "EndiannessChecker_Value host = host"
  by (cases host)
    (simp_all add: EndiannessChecker_Value_def EndiannessChecker_IsLittle_def obj_bytes_def le_bytes_numeral)

text \<open>\<open>EndiannessChecker\<close> reports the byte order of the host it runs on.\<close>

theorem EndiannessChecker_correct: "EndiannessChecker_Value host = host"
  by (rule checker_value)

lemma wire_bytes_host: "wire_bytes host (EndiannessChecker_Value host) w = rev (le_bytes 8 (unat w))"
  by (cases host) (simp_all add: checker_value wire_bytes_def obj_bytes_def)

lemma wire_network: "word_packer (NetworkPacker host (EndiannessChecker_Value host))
    (\<lambda>w. rev (le_bytes 8 (unat w))) (wire_word host (EndiannessChecker_Value host))"
proof -
  have "wire_bytes host (EndiannessChecker_Value host) = (\<lambda>w. rev (le_bytes 8 (unat w)))"
    by (rule ext) (rule wire_bytes_host)
  then show ?thesis
    using network_packer.word_packer_axioms [of host "EndiannessChecker_Value host"] by simp
qed

text \<open>C14: the network packer chosen for the host's byte order puts numbers on the wire most significant
  byte first, on every host.\<close>

theorem wire_big_endian:
  assumes "buffer_inv b" and "wr b + 8 \<le> kBufferCapacityInBytes"
  shows "\<exists>b'. SerializeImpl (NetworkPacker host (EndiannessChecker_Value host)) w b = Inr b' \<and>
    buffer_grows b (rev (le_bytes 8 (unat w))) b'"
  using word_packer.ser_word_ok [OF wire_network assms] .

theorem wire_big_endian_witness:
  "\<exists>b'. SerializeImpl (NetworkPacker kLittle (EndiannessChecker_Value kLittle)) 258 start_buffer = Inr b' \<and>
    buffer_grows start_buffer [0, 0, 0, 0, 0, 0, 1, 2] b'"
proof -
  have e: "(258 :: byte) = 2" by simp
  show ?thesis
    using wire_big_endian [of start_buffer kLittle 258]
    by (simp add: kBufferCapacityInBytes_def le_bytes_numeral e)
qed

text \<open>A string packed by the network packer on one host is what the network packer on another host,
  of the same or the other byte order, unpacks from a buffer filled with the bytes
  written.\<close>

theorem string_between_hosts:
  assumes "buffer_inv b" and "8 + length s \<le> kBufferCapacityInBytes"
    and "strings_fit si"
  shows "\<exists>b1. string_Serialize (NetworkPacker host1 (EndiannessChecker_Value host1)) s (Reset b) = Inr b1 \<and>
    (\<forall>b2. received (written b1) b2 \<longrightarrow>
      (\<exists>b3. string_Deserialize si (NetworkPacker host2 (EndiannessChecker_Value host2)) b2 =
        Inr (s, b3)))"
proof -
  let ?enc = "\<lambda>w :: u64. rev (le_bytes 8 (unat w))"
  have "length (string_bytes ?enc s) \<le> kBufferCapacityInBytes" using assms(2) by (simp add: string_bytes_def)
  then obtain b1 where b1: "string_Serialize (NetworkPacker host1 (EndiannessChecker_Value host1)) s (Reset b) =
      Inr b1" "written b1 = string_bytes ?enc s"
    using writes_reset [OF word_packer.writes_string [OF wire_network] assms(1)] by blast
  have "\<exists>b3. string_Deserialize si (NetworkPacker host2 (EndiannessChecker_Value host2)) b2 = Inr (s, b3)"
    if "received (written b1) b2" for b2
    using received_reads [OF word_packer.reads_string [OF wire_network assms(3)]] that
    unfolding b1(2) by blast
  with b1(1) show ?thesis by blast
qed

lemma received_bytes:
  assumes "length bs \<le> kBufferCapacityInBytes" and "length mem = kBufferCapacityInBytes"
  shows "received bs (Buffer_init 4096 (splice 0 bs mem))"
  using assms Buffer_init_inv [of "splice 0 bs mem" 4096]
  by (simp add: received_def unread_def) (simp add: Buffer_init_def splice_def)

theorem string_between_hosts_witness:
  "\<exists>b1 b2 b3. string_Serialize (NetworkPacker kLittle (EndiannessChecker_Value kLittle)) [104, 105] (Reset start_buffer) = Inr b1 \<and>
    string_Deserialize ample_strings (NetworkPacker kBig (EndiannessChecker_Value kBig)) b2 = Inr ([104, 105], b3)"
proof -
  obtain b1 where b1: "string_Serialize (NetworkPacker kLittle (EndiannessChecker_Value kLittle)) [104, 105]
      (Reset start_buffer) = Inr b1"
    and all: "\<forall>b2. received (written b1) b2 \<longrightarrow> (\<exists>b3. string_Deserialize ample_strings
      (NetworkPacker kBig (EndiannessChecker_Value kBig)) b2 = Inr ([104, 105], b3))"
    using string_between_hosts [of start_buffer "[104, 105]" ample_strings kLittle kBig] ample_strings
    by (auto simp: kBufferCapacityInBytes_def)
  have "string_Serialize (NetworkPacker kLittle (EndiannessChecker_Value kLittle)) [104, 105] (Reset start_buffer) = Inr b1
      \<Longrightarrow> length (written b1) \<le> kBufferCapacityInBytes"
    using writes_reset [OF word_packer.writes_string [OF wire_network], of start_buffer "[104, 105]" kLittle]
    by (auto simp: string_bytes_def kBufferCapacityInBytes_def)
  with b1 have "received (written b1) (Buffer_init 4096 (splice 0 (written b1) (replicate kBufferCapacityInBytes 0)))"
    by (intro received_bytes) simp_all
  with b1 all show ?thesis by blast
qed

lemma packers_keep_contract:
  "p \<in> {LocalPacker host, NetworkPacker host E} \<Longrightarrow> \<exists>enc dec. word_packer p enc dec"
  by (metis insertE singletonD local_packer.word_packer_axioms network_packer.word_packer_axioms)

text \<open>With every packer, a structure of numbers and a string that fits in the buffer comes back as it
  was packed, from a buffer filled with the bytes written.\<close>

theorem structure_round_trip:
  assumes "p \<in> {LocalPacker host, NetworkPacker host E}" and "buffer_inv b"
    and "32 + length (co_s ob) \<le> kBufferCapacityInBytes" and "strings_fit si"
  shows "\<exists>b1. ComplexObject_Serialize p ob (Reset b) = Inr b1 \<and>
    (\<forall>b2. received (written b1) b2 \<longrightarrow>
      (\<exists>b3. ComplexObject_Deserialize si p b2 = Inr (ob, b3)))"
proof -
  from assms(1) obtain enc dec where p: "word_packer p enc dec"
    using packers_keep_contract by blast
  have "length (ComplexObject_bytes enc ob) \<le> kBufferCapacityInBytes"
    using assms(3) by (simp add: ComplexObject_bytes_def string_bytes_def word_packer.length_enc [OF p])
  then obtain b1 where b1: "ComplexObject_Serialize p ob (Reset b) = Inr b1"
      "written b1 = ComplexObject_bytes enc ob"
    using writes_reset [OF word_packer.writes_ComplexObject [OF p] assms(2)] by blast
  have "\<exists>b3. ComplexObject_Deserialize si p b2 = Inr (ob, b3)" if "received (written b1) b2" for b2
    using received_reads [OF word_packer.reads_ComplexObject [OF p assms(4)]] that
    unfolding b1(2) by blast
  with b1(1) show ?thesis by blast
qed

theorem structure_round_trip_witness:
  "\<exists>b1. ComplexObject_Serialize (LocalPacker kLittle)
      \<lparr>co_i = 123, co_d = 5, co_s = [104, 105], co_u = 654\<rparr> (Reset start_buffer) = Inr b1"
  using structure_round_trip [of "LocalPacker kLittle" kLittle kBig start_buffer
      "\<lparr>co_i = 123, co_d = 5, co_s = [104, 105], co_u = 654\<rparr>" ample_strings] ample_strings
  by (auto simp: kBufferCapacityInBytes_def)

text \<open>Unpacking a string from a buffer with any bytes in it ends with a string of the length that
  stands in front of it, taken from the bytes that follow and inside the array, or with one
  of three exceptions; no byte outside of the array is read.\<close>

theorem string_Deserialize_total:
  assumes "p \<in> {LocalPacker host, NetworkPacker host E}" and "buffer_inv b" and "unat (string_max_size si) < 2 ^ 63"
  shows "case string_Deserialize si p b of
      Inl e \<Rightarrow> e \<in> {Length_Error, Bad_Alloc, Runtime_Error ''not enough message in buffer''}
    | Inr (s, b') \<Rightarrow> s = take (length s) (drop 8 (unread b)) \<and> buffer_reads b (8 + length s) b'"
proof -
  from assms(1) obtain enc dec where p: "word_packer p enc dec"
    using packers_keep_contract by blast
  let ?n = "dec (take 8 (unread b))"
  show ?thesis
  proof (cases "rd b + 8 \<le> kBufferCapacityInBytes")
    case False
    then show ?thesis by (simp add: string_Deserialize_def word_packer.des_word_short [OF p assms(2)])
  next
    case True
    show ?thesis
    proof (cases "resize si ?n []")
      case (Inl e)
      then show ?thesis using word_packer.string_Deserialize_too_long [OF p assms(2) True Inl] resize_Inl [OF Inl] by auto
    next
      case (Inr s)
      show ?thesis
      proof (cases "rd b + (8 + unat ?n) \<le> kBufferCapacityInBytes")
        case True
        then obtain b' where "string_Deserialize si p b = Inr (take (unat ?n) (drop 8 (unread b)), b')"
          "buffer_reads b (8 + unat ?n) b'"
          using word_packer.string_Deserialize_ok [OF p assms(2) Inr] by blast
        with True length_unread [OF assms(2)] show ?thesis by simp
      next
        case False
        then show ?thesis by (simp add: word_packer.string_Deserialize_short [OF p assms(2,3) Inr])
      qed
    qed
  qed
qed

text \<open>A length of \<open>2 ^ 64 - 1\<close> in front of the string is refused.\<close>

theorem string_Deserialize_total_witness:
  "case string_Deserialize ample_strings (LocalPacker kLittle) (Buffer_init 4096 (replicate kBufferCapacityInBytes (- 1))) of
     Inl e \<Rightarrow> e \<in> {Length_Error, Bad_Alloc, Runtime_Error ''not enough message in buffer''}
   | Inr (s, b') \<Rightarrow> length s < 10000"
proof -
  let ?b = "Buffer_init 4096 (replicate kBufferCapacityInBytes (- 1))"
  have inv: "buffer_inv ?b" by (simp add: Buffer_init_inv)
  have "length s < 10000" if "buffer_reads ?b (8 + length s) b'" for s :: "byte list" and b'
    using that by (auto simp: buffer_reads_def buffer_inv_def kBufferCapacityInBytes_def)
  then show ?thesis
    using string_Deserialize_total [of "LocalPacker kLittle" kLittle kBig ?b ample_strings] inv ample_strings
    by (auto split: sum.splits)
qed

end
