(* ===== verification/Cursor.thy ===== *)
theory Cursor
  imports Prelude
begin

text \<open>
  The iteration interface \<open>ToFirst\<close>/\<open>HasNext\<close>/\<open>Next\<close> that the generator and the measurer
  offer to the actors (\<open>IGenerator\<close>, \<open>IMeasurer\<close>), as a locale, and the loop
  \<open>while (x.HasNext()) { ... x.Next() ... }\<close> of the actors.  Vectors and their iterators are
  modelled as far as both classes use them.
\<close>

section \<open>Vectors\<close>

text \<open>
  What the standard leaves to the implementation of \<open>std::vector\<close> and \<open>std::string\<close>: the maximal size, the
  capacity \<open>reserve\<close> gives an empty vector, and the capacity after a reallocation.
\<close>

record vector_impl =
  vi_max_size :: u64
  vi_reserve :: "u64 \<Rightarrow> nat"
  vi_grow :: "nat \<Rightarrow> nat"

text \<open>An implementation, the one of libstdc++ on 64-bit systems, for concrete runs.\<close>

definition exact_vectors :: vector_impl where
  "exact_vectors = \<lparr>vi_max_size = 2 ^ 60 - 1, vi_reserve = unat, vi_grow = (\<lambda>c. 2 * c)\<rparr>"

text \<open>
  An iterator is an offset; it is \<open>None\<close> before its first assignment and after a reallocation, and
  using it then is undefined behaviour.
\<close>

record 'a vec =
  elems :: "'a list"
  vcap :: nat
  iter :: "nat option"

definition vec_reserve :: "vector_impl \<Rightarrow> u64 \<Rightarrow> 'a vec result" where
  "vec_reserve impl n =
     (if vi_max_size impl < n then Inl Length_Error
      else Inr \<lparr>elems = [], vcap = vi_reserve impl n, iter = None\<rparr>)"

definition vec_emplace_back :: "vector_impl \<Rightarrow> 'a \<Rightarrow> 'a vec \<Rightarrow> 'a vec" where
  "vec_emplace_back impl x v =
     (if length (elems v) < vcap v then v\<lparr>elems := elems v @ [x]\<rparr>
      else v\<lparr>elems := elems v @ [x], vcap := vi_grow impl (vcap v), iter := None\<rparr>)"

definition vec_to_first :: "'a vec \<Rightarrow> 'a vec" where
  "vec_to_first v = v\<lparr>iter := Some 0\<rparr>"

definition vec_has_next :: "'a vec \<Rightarrow> bool result" where
  "vec_has_next v =
     (case iter v of
        None \<Rightarrow> Inl (Undefined_Behaviour ''invalid iterator'')
      | Some i \<Rightarrow> Inr (i \<noteq> length (elems v)))"

definition vec_next :: "'a vec \<Rightarrow> ('a \<times> 'a vec) result" where
  "vec_next v =
     (case iter v of
        None \<Rightarrow> Inl (Undefined_Behaviour ''invalid iterator'')
      | Some i \<Rightarrow>
          if i < length (elems v) then Inr (elems v ! i, v\<lparr>iter := Some (Suc i)\<rparr>)
          else Inl (Undefined_Behaviour ''dereferenced end''))"

section \<open>The loop of the actors\<close>

text \<open>A loop of which every turn may fail or wait; \<open>None\<close> is a loop that does not end, or a turn that waits for ever.\<close>

partial_function (option) while_loop ::
  "('s \<Rightarrow> 'e + bool) \<Rightarrow> ('s \<Rightarrow> ('e + 's) option) \<Rightarrow> 's \<Rightarrow> ('e + 's) option" where
  "while_loop cond body s =
     (case cond s of
        Inl e \<Rightarrow> Some (Inl e)
      | Inr b \<Rightarrow> if b then obind (body s) (\<lambda>s'. while_loop cond body s') else Some (Inr s))"

text \<open>What every turn keeps holds at the end, and what every failing turn gives is how the loop fails.\<close>

lemma while_loop_ends:
  assumes run: "while_loop cond body s = Some r" and "I s"
    and "\<And>s e. I s \<Longrightarrow> cond s = Inl e \<Longrightarrow> F e"
    and "\<And>s e. I s \<Longrightarrow> body s = Some (Inl e) \<Longrightarrow> F e"
    and "\<And>s s'. I s \<Longrightarrow> cond s = Inr True \<Longrightarrow> body s = Some (Inr s') \<Longrightarrow> I s'"
  shows "case r of Inl e \<Rightarrow> F e | Inr s' \<Rightarrow> I s'"
proof -
  let ?P = "\<lambda>c b s r. c = cond \<longrightarrow> b = body \<longrightarrow> I s \<longrightarrow> (case r of Inl e \<Rightarrow> F e | Inr s' \<Rightarrow> I s')"
  have "?P cond body s r"
  proof (rule while_loop.raw_induct [where P = ?P, OF _ run], intro impI)
    fix loop c b s r
    assume IH: "\<And>c b s r. loop c b s = Some r \<Longrightarrow> ?P c b s r"
      and turn: "(case c s of Inl e \<Rightarrow> Some (Inl e)
        | Inr t \<Rightarrow> if t then obind (b s) (loop c b) else Some (Inr s)) = Some r"
      and c: "c = cond" and b: "b = body" and I: "I s"
    show "case r of Inl e \<Rightarrow> F e | Inr s' \<Rightarrow> I s'"
    proof (cases "cond s")
      case (Inl e)
      then show ?thesis using turn assms(3) [OF I] by (auto simp: c)
    next
      case (Inr t)
      show ?thesis
      proof (cases t)
        case True
        with turn Inr have "obind (body s) (loop cond body) = Some r" by (simp add: c b)
        then consider e where "body s = Some (Inl e)" "r = Inl e"
          | s' where "body s = Some (Inr s')" "loop cond body s' = Some r"
          by (cases "body s"; cases "the (body s)") auto
        then show ?thesis
          using assms(4) [OF I] assms(5) [OF I] Inr True IH by cases auto
      qed (use turn Inr I in \<open>auto simp: c\<close>)
    qed
  qed
  then show ?thesis using \<open>I s\<close> by simp
qed

text \<open>The loop over one object, with a body that gets what \<open>Next\<close> returns.\<close>

definition cursor_loop ::
  "('c \<Rightarrow> 'e + bool) \<Rightarrow> ('c \<Rightarrow> 'e + ('a \<times> 'c)) \<Rightarrow> ('a \<Rightarrow> 's \<Rightarrow> ('e + 's) option) \<Rightarrow>
   'c \<Rightarrow> 's \<Rightarrow> ('e + ('c \<times> 's)) option" where
  "cursor_loop has_next get body c s =
     while_loop (\<lambda>(c, s). has_next c)
       (\<lambda>(c, s). obind (Some (get c)) (\<lambda>(x, c'). obind (body x s) (\<lambda>s'. Some (Inr (c', s'))))) (c, s)"

text \<open>
  \<open>content\<close> is what iterating leaves alone, \<open>items\<close> the sequence it stands for, and \<open>at c i\<close> says
  that \<open>i\<close> items have been taken.
\<close>

locale cursor =
  fixes content :: "'c \<Rightarrow> 'f" and items :: "'f \<Rightarrow> 'a list" and at :: "'c \<Rightarrow> nat \<Rightarrow> bool"
    and to_first :: "'c \<Rightarrow> 'c" and has_next :: "'c \<Rightarrow> bool result" and get :: "'c \<Rightarrow> ('a \<times> 'c) result"
  assumes to_first: "at (to_first c) 0 \<and> content (to_first c) = content c"
    and has_next: "at c i \<Longrightarrow> i \<le> length (items (content c)) \<Longrightarrow>
      has_next c = Inr (i < length (items (content c)))"
    and get: "at c i \<Longrightarrow> i < length (items (content c)) \<Longrightarrow>
      \<exists>c'. get c = Inr (items (content c) ! i, c') \<and> at c' (Suc i) \<and> content c' = content c"
begin

text \<open>
  A loop over an object and a state, whose turns each take one item, passes every remaining item to its
  body, in order, and ends when they are used up.
\<close>

lemma while_from:
  assumes "at c i" and "i \<le> length (items (content c))"
    and cond: "\<And>c s b. has_next c = Inr b \<Longrightarrow> cond (c, s) = Inr b"
    and turn: "\<And>c s x c'. get c = Inr (x, c') \<Longrightarrow> turn (c, s) = obind (body x s) (\<lambda>s'. Some (Inr (c', s')))"
  shows "\<exists>c'. while_loop cond turn (c, s) =
      obind (ofold body (drop i (items (content c))) s) (\<lambda>s'. Some (Inr (c', s'))) \<and>
    content c' = content c"
  using assms(1,2)
proof (induction "length (items (content c)) - i" arbitrary: c i s)
  case 0
  then have i: "i = length (items (content c))" by simp
  with 0 have "cond (c, s) = Inr False" using cond [of c False s] has_next [of c i] by simp
  with i show ?case by (intro exI [of _ c]) (simp add: while_loop.simps [of cond turn "(c, s)"])
next
  case (Suc n)
  let ?xs = "items (content c)"
  from Suc have i: "i < length ?xs" by simp
  then have h: "cond (c, s) = Inr True" using Suc.prems has_next [of c i] cond [of c True s] by simp
  obtain c1 where c1: "get c = Inr (?xs ! i, c1)" "at c1 (Suc i)" "content c1 = content c"
    using get [OF Suc.prems(1) i] by blast
  have d: "drop i ?xs = ?xs ! i # drop (Suc i) ?xs" using i by (simp add: Cons_nth_drop_Suc)
  have e: "while_loop cond turn (c, s) = obind (body (?xs ! i) s) (\<lambda>s'. while_loop cond turn (c1, s'))"
    by (simp add: while_loop.simps [of cond turn "(c, s)"] h turn [OF c1(1)] obind_assoc)
  have IH: "\<exists>c'. while_loop cond turn (c1, s') =
        obind (ofold body (drop (Suc i) ?xs) s') (\<lambda>s'. Some (Inr (c', s'))) \<and>
      content c' = content c" for s'
    using Suc.hyps(1) [of c1 "Suc i" s'] Suc.hyps(2) c1 i by simp
  show ?case
  proof (cases "body (?xs ! i) s")
    case None
    with e d IH show ?thesis by (auto intro: exI)
  next
    case (Some r)
    then show ?thesis using e d IH by (cases r) (auto intro: exI)
  qed
qed

lemma while_all:
  assumes "\<And>c s b. has_next c = Inr b \<Longrightarrow> cond (c, s) = Inr b"
    and "\<And>c s x c'. get c = Inr (x, c') \<Longrightarrow> turn (c, s) = obind (body x s) (\<lambda>s'. Some (Inr (c', s')))"
  obtains c' where "while_loop cond turn (to_first c, s) =
      obind (ofold body (items (content c)) s) (\<lambda>s'. Some (Inr (c', s')))" "content c' = content c"
proof -
  have "at (to_first c) 0" "content (to_first c) = content c" using to_first [of c] by simp_all
  from while_from [where c = "to_first c" and i = 0 and s = s and cond = cond
       and turn = turn and body = body, OF this(1) _ assms, unfolded this(2)] show ?thesis
    using that by auto
qed

lemma loop_all:
  obtains c' where "cursor_loop has_next get body (to_first c) s =
      obind (ofold body (items (content c)) s) (\<lambda>s'. Some (Inr (c', s')))" "content c' = content c"
proof -
  show ?thesis
    by (rule while_all [where body = body and c = c and s = s and cond = "\<lambda>(c, s). has_next c" and
        turn = "\<lambda>(c, s). obind (Some (get c)) (\<lambda>(x, c'). obind (body x s) (\<lambda>s'. Some (Inr (c', s'))))"])
      (simp_all add: that cursor_loop_def)
qed

end

section \<open>Two cursors in step\<close>

text \<open>A loop \<open>while (a.HasNext() && b.HasNext())\<close> that calls \<open>Next\<close> of both.\<close>

definition both_to_first :: "('a \<Rightarrow> 'a) \<Rightarrow> ('b \<Rightarrow> 'b) \<Rightarrow> 'a \<times> 'b \<Rightarrow> 'a \<times> 'b" where
  "both_to_first f g c = (f (fst c), g (snd c))"

definition both_have_next :: "('a \<Rightarrow> bool result) \<Rightarrow> ('b \<Rightarrow> bool result) \<Rightarrow> 'a \<times> 'b \<Rightarrow> bool result" where
  "both_have_next f g c = rbind (f (fst c)) (\<lambda>b. if b then g (snd c) else Inr False)"

definition both_next :: "('a \<Rightarrow> ('x \<times> 'a) result) \<Rightarrow> ('b \<Rightarrow> ('y \<times> 'b) result) \<Rightarrow>
    'a \<times> 'b \<Rightarrow> (('x \<times> 'y) \<times> 'a \<times> 'b) result" where
  "both_next f g c =
     rbind (g (snd c)) (\<lambda>(y, b). rbind (f (fst c)) (\<lambda>(x, a). Inr ((x, y), (a, b))))"

locale two_cursors =
  a: cursor content_a items_a at_a to_first_a has_next_a get_a +
  b: cursor content_b items_b at_b to_first_b has_next_b get_b
  for content_a :: "'a \<Rightarrow> 'f" and items_a :: "'f \<Rightarrow> 'x list" and at_a to_first_a has_next_a get_a
    and content_b :: "'b \<Rightarrow> 'g" and items_b :: "'g \<Rightarrow> 'y list" and at_b to_first_b has_next_b get_b

sublocale two_cursors \<subseteq> pair: cursor "\<lambda>c. (content_a (fst c), content_b (snd c))"
    "\<lambda>f. zip (items_a (fst f)) (items_b (snd f))" "\<lambda>c i. at_a (fst c) i \<and> at_b (snd c) i"
    "both_to_first to_first_a to_first_b" "both_have_next has_next_a has_next_b" "both_next get_a get_b"
proof unfold_locales
  fix c and i :: nat
  let ?f = "(content_a (fst c), content_b (snd c))"
  assume at: "at_a (fst c) i \<and> at_b (snd c) i"
  show "both_have_next has_next_a has_next_b c = Inr (i < length (zip (items_a (fst ?f)) (items_b (snd ?f))))"
    if "i \<le> length (zip (items_a (fst ?f)) (items_b (snd ?f)))"
    using that at a.has_next [of "fst c" i] b.has_next [of "snd c" i]
    by (auto simp: both_have_next_def)
  show "\<exists>c'. both_next get_a get_b c = Inr (zip (items_a (fst ?f)) (items_b (snd ?f)) ! i, c') \<and>
      (at_a (fst c') (Suc i) \<and> at_b (snd c') (Suc i)) \<and> (content_a (fst c'), content_b (snd c')) = ?f"
    if "i < length (zip (items_a (fst ?f)) (items_b (snd ?f)))"
    using that at a.get [of "fst c" i] b.get [of "snd c" i] by (auto simp: both_next_def)
qed (simp add: both_to_first_def a.to_first b.to_first)

definition vec_at :: "'a vec \<Rightarrow> nat \<Rightarrow> bool" where
  "vec_at v i \<longleftrightarrow> iter v = Some i"

definition vec_content :: "'a vec \<Rightarrow> 'a list \<times> nat" where
  "vec_content v = (elems v, vcap v)"

interpretation vec: cursor vec_content fst vec_at vec_to_first vec_has_next vec_next
  by unfold_locales (auto simp: vec_content_def vec_at_def vec_to_first_def vec_has_next_def vec_next_def)

end
