(* ===== verification/Links.thy ===== *)
theory Links
  imports Connectors Ring_Queue Packers Cursor
begin

text \<open>
  What the actors rely on of a connection (\<open>IClient\<close>, \<open>IServer\<close>): \<open>Send\<close> hands over the bytes
  written to the buffer, and \<open>Receive\<close> puts the next message at the start of the buffer's memory.
  Both are locales, with the loops of the actors proved over them once, and are interpreted on the
  connectors over descriptors and on the ring buffer.
\<close>

section \<open>Sending\<close>

locale client_link =
  fixes send :: "buffer \<Rightarrow> 'w \<Rightarrow> ('w, 'w) outcome" and put :: "byte list \<Rightarrow> 'w \<Rightarrow> ('w, 'w) outcome"
  assumes send: "buffer_inv b \<Longrightarrow> send b w = put (written b) w"
begin

text \<open>Packing every item into the reset buffer and sending it puts the packed items, one after the other.\<close>

definition send_item :: "('x \<Rightarrow> buffer \<Rightarrow> buffer result) \<Rightarrow> 'x \<Rightarrow> buffer \<times> 'w \<Rightarrow> (buffer \<times> 'w, 'w) outcome" where
  "send_item pack x s =
     obind (in_world (snd s) (pack x (Reset (fst s)))) (\<lambda>b. obind (send b (snd s)) (\<lambda>w. Some (Inr (b, w))))"

lemma send_item:
  assumes "writes (pack x) (enc x)" and "length (enc x) \<le> kBufferCapacityInBytes" and "buffer_inv b"
  shows "\<exists>b'. buffer_inv b' \<and> send_item pack x (b, w) = obind (put (enc x) w) (\<lambda>w'. Some (Inr (b', w')))"
proof -
  obtain b' where "pack x (Reset b) = Inr b'" "buffer_inv b'" "written b' = enc x"
    using writes_reset [OF assms(1,3,2)] by blast
  then show ?thesis by (auto simp: send_item_def send)
qed

lemma send_items:
  assumes "\<forall>x \<in> set xs. writes (pack x) (enc x) \<and> length (enc x) \<le> kBufferCapacityInBytes"
    and "buffer_inv b"
  shows "\<exists>b'. buffer_inv b' \<and> ofold (send_item pack) xs (b, w) =
    obind (ofold put (map enc xs) w) (\<lambda>w'. Some (Inr (b', w')))"
  using assms
proof (induction xs arbitrary: b w)
  case (Cons x xs)
  obtain b1 where b1: "buffer_inv b1"
    "send_item pack x (b, w) = obind (put (enc x) w) (\<lambda>w'. Some (Inr (b1, w')))"
    using send_item [of pack x enc b w] Cons.prems by auto
  show ?case
  proof (cases "put (enc x) w")
    case (Some r)
    with Cons.IH [OF _ b1(1)] Cons.prems(1) b1 show ?thesis by (cases r) auto
  qed (use b1 in auto)
qed auto

end

section \<open>Receiving\<close>

text \<open>\<open>takes t w ms w'\<close>: taking from \<open>w\<close> gives the messages \<open>ms\<close> and leaves \<open>w'\<close>.\<close>

fun takes :: "('w \<Rightarrow> (byte list \<times> 'w, 'w) outcome) \<Rightarrow> 'w \<Rightarrow> byte list list \<Rightarrow> 'w \<Rightarrow> bool" where
  "takes t w [] w' \<longleftrightarrow> w' = w"
| "takes t w (m # ms) w' \<longleftrightarrow>
     (case t w of Some (Inr (m', w1)) \<Rightarrow> m' = m \<and> takes t w1 ms w' | _ \<Rightarrow> False)"

lemma takes_Cons: "takes t w (m # ms) w' \<longleftrightarrow> (\<exists>w1. t w = Some (Inr (m, w1)) \<and> takes t w1 ms w')"
  by (auto split: option.splits sum.splits)

text \<open>\<open>ok\<close> is the state of a connection that works; \<open>take_msg\<close> is the next message.\<close>

locale server_link =
  fixes ok :: "'w \<Rightarrow> bool" and receive :: "buffer \<Rightarrow> 'w \<Rightarrow> (buffer \<times> 'w, 'w) outcome"
    and take_msg :: "'w \<Rightarrow> (byte list \<times> 'w, 'w) outcome"
  assumes receive: "ok w \<Longrightarrow> buffer_inv b \<Longrightarrow> rd b = 0 \<Longrightarrow> take_msg w = Some (Inr (m, w')) \<Longrightarrow>
      length m \<le> kBufferCapacityInBytes \<Longrightarrow>
      ok w' \<and> (\<exists>b'. receive b w = Some (Inr (b', w')) \<and> received m b')"
begin

definition receive_item :: "(buffer \<Rightarrow> ('x \<times> buffer) result) \<Rightarrow> buffer \<times> 'w \<Rightarrow> ('x \<times> buffer \<times> 'w, 'w) outcome" where
  "receive_item unpack s =
     obind (receive (Reset (fst s)) (snd s)) (\<lambda>(b, w). obind (in_world w (unpack b)) (\<lambda>(x, b). Some (Inr (x, b, w))))"

lemma receive_item:
  assumes "ok w" and "buffer_inv b" and "take_msg w = Some (Inr (m, w'))"
    and "reads unpack m x" and "length m \<le> kBufferCapacityInBytes"
  shows "ok w' \<and> (\<exists>b'. buffer_inv b' \<and> receive_item unpack (b, w) = Some (Inr (x, b', w')))"
proof -
  obtain b1 where "ok w'" "receive (Reset b) w = Some (Inr (b1, w'))" "received m b1"
    using receive [OF assms(1) Reset_inv [OF assms(2)] _ assms(3,5)] by auto
  moreover obtain b' where "unpack b1 = Inr (x, b')" "buffer_inv b'"
    using received_reads [OF assms(4) \<open>received m b1\<close>] by blast
  ultimately show ?thesis by (auto simp: receive_item_def)
qed

end

section \<open>Connections over a descriptor\<close>

lemma buffer_content_written: "buffer_inv b \<Longrightarrow> buffer_content b = Inr (written b)"
  by (simp add: buffer_content_def Data_def UsedBytes_def written_def wr_def buffer_offset_def mem_read_def
      buffer_inv_def)

lemma UsedBytes_written: "buffer_inv b \<Longrightarrow> UsedBytes b = of_nat (length (written b))"
  by (simp add: UsedBytes_def written_def wr_def buffer_offset_def buffer_inv_def min_absorb2)

text \<open>\<open>Send\<close> and \<open>Receive\<close> as operations on the history.\<close>

definition sending :: "(buffer \<Rightarrow> unit io) \<Rightarrow> kernel \<Rightarrow> buffer \<Rightarrow> history \<Rightarrow> (history, history) outcome" where
  "sending f K b h = obind (io_outcome (f b) K h) (\<lambda>(_, h'). Some (Inr h'))"

definition receiving :: "(buffer \<Rightarrow> buffer io) \<Rightarrow> kernel \<Rightarrow> buffer \<Rightarrow> history \<Rightarrow> (buffer \<times> history, history) outcome" where
  "receiving f K b h = io_outcome (f b) K h"

definition fd_send :: "kernel \<Rightarrow> FileDescriptor \<Rightarrow> buffer \<Rightarrow> history \<Rightarrow> (history, history) outcome" where
  "fd_send K fd = sending (fd_Send fd) K"

text \<open>One \<open>write\<close> with all the bytes, which is a failure unless it takes them all.\<close>

definition fd_put :: "kernel \<Rightarrow> FileDescriptor \<Rightarrow> byte list \<Rightarrow> history \<Rightarrow> (history, history) outcome" where
  "fd_put K fd bs h = map_option
     (\<lambda>r. let h' = h @ [(Sys_write fd bs, r)] in
          if (of_int (reply_value r) :: u64) = of_nat (length bs) then Inr h'
          else Inl (Runtime_Error ''write() failed'', h')) (K h (Sys_write fd bs))"

interpretation fd_client: client_link "fd_send K fd" "fd_put K fd" for K fd
proof
  fix b h assume b: "buffer_inv b"
  show "fd_send K fd b h = fd_put K fd (written b) h"
    by (cases "K h (Sys_write fd (written b))")
      (simp_all add: fd_send_def sending_def io_outcome_def fd_Send_def fd_put_def Let_def io_bind_def io_of_result_def sys_def io_throw_def
        io_return_def buffer_content_written [OF b] UsedBytes_written [OF b])
qed

definition fd_receive :: "kernel \<Rightarrow> FileDescriptor \<Rightarrow> buffer \<Rightarrow> history \<Rightarrow> (buffer \<times> history, history) outcome" where
  "fd_receive K fd = receiving (fd_Receive fd) K"

definition fd_take :: "kernel \<Rightarrow> FileDescriptor \<Rightarrow> history \<Rightarrow> (byte list \<times> history, history) outcome" where
  "fd_take K fd h =
     (let c = Sys_read fd (of_nat kBufferCapacityInBytes) in map_option
     (\<lambda>r. if reply_value r = - 1 then Inl (Runtime_Error ''read() failed'', h @ [(c, r)])
          else Inr (reply_bytes r, h @ [(c, r)])) (K h c))"

lemma buffer_fill_received:
  assumes "buffer_inv b" and "rd b = 0" and "length m \<le> kBufferCapacityInBytes"
  shows "\<exists>b'. buffer_fill m b = Inr b' \<and> received m b'"
proof -
  have l: "length (buffer_bytes b) = kBufferCapacityInBytes" using assms(1) by (simp add: buffer_inv_def)
  let ?b = "b\<lparr>buffer_bytes := splice 0 m (buffer_bytes b)\<rparr>"
  have "buffer_inv ?b" using assms by (simp add: buffer_inv_def wr_def rd_def buffer_offset_def)
  moreover have "take (length m) (unread ?b) = m"
    using assms(2) by (simp add: unread_def rd_def buffer_offset_def splice_def)
  ultimately show ?thesis
    using assms(3) l by (simp add: buffer_fill_def Data_def mem_write_def received_def)
qed

interpretation fd_server: server_link "\<lambda>_. True" "fd_receive K fd" "fd_take K fd" for K fd
proof
  fix h b m h'
  assume "buffer_inv b" "rd b = 0" "fd_take K fd h = Some (Inr (m, h'))" "length m \<le> kBufferCapacityInBytes"
  then show "True \<and> (\<exists>b'. fd_receive K fd b h = Some (Inr (b', h')) \<and> received m b')"
    using buffer_fill_received [of b m]
    by (auto simp: fd_receive_def receiving_def io_outcome_def fd_Receive_def fd_take_def io_bind_def io_of_result_def sys_or_throw_run
        Capacity_def Let_def split: if_splits)
qed

section \<open>Two servers in one process\<close>

text \<open>
  \<open>left_a w ms\<close>: whatever else happens in between, the first server will be given the messages \<open>ms\<close> next.
\<close>

locale two_servers =
  a: server_link ok_a receive_a take_a + b: server_link ok_b receive_b take_b
  for ok_a :: "'w \<Rightarrow> bool" and receive_a take_a and ok_b :: "'w \<Rightarrow> bool" and receive_b take_b +
  fixes left_a :: "'w \<Rightarrow> byte list list \<Rightarrow> bool" and left_b :: "'w \<Rightarrow> byte list list \<Rightarrow> bool"
  assumes left_a: "left_a w (m # ms) \<Longrightarrow> \<exists>w'. take_a w = Some (Inr (m, w')) \<and> left_a w' ms \<and>
      (ok_b w \<longrightarrow> ok_b w') \<and> (\<forall>ms'. left_b w ms' \<longrightarrow> left_b w' ms')"
    and left_b: "left_b w (m # ms) \<Longrightarrow> \<exists>w'. take_b w = Some (Inr (m, w')) \<and> left_b w' ms \<and>
      (ok_a w \<longrightarrow> ok_a w') \<and> (\<forall>ms'. left_a w ms' \<longrightarrow> left_a w' ms')"

text \<open>The kernel gives the messages \<open>ms\<close> to the next reads of a descriptor, whatever else is called in between.\<close>

fun read_from :: "FileDescriptor \<Rightarrow> syscall \<Rightarrow> bool" where
  "read_from fd (Sys_read fd' _) \<longleftrightarrow> fd' = fd"
| "read_from fd _ \<longleftrightarrow> False"

definition reads_of :: "FileDescriptor \<Rightarrow> history \<Rightarrow> nat" where
  "reads_of fd h = length (filter (\<lambda>(c, r). read_from fd c) h)"

definition pending :: "kernel \<Rightarrow> FileDescriptor \<Rightarrow> history \<Rightarrow> byte list list \<Rightarrow> bool" where
  "pending K fd h ms \<longleftrightarrow> (\<forall>g. reads_of fd g < length ms \<longrightarrow>
     K (h @ g) (Sys_read fd (of_nat kBufferCapacityInBytes)) = Some (Returns_Bytes (ms ! reads_of fd g)))"

lemma pending_other: "pending K fd h ms \<Longrightarrow> reads_of fd g = 0 \<Longrightarrow> pending K fd (h @ g) ms"
  unfolding pending_def by (intro allI impI) (simp add: reads_of_def filter_empty_conv)

text \<open>The reads that give the messages \<open>ms\<close>.\<close>

definition reads_from :: "FileDescriptor \<Rightarrow> byte list list \<Rightarrow> history" where
  "reads_from fd ms = map (\<lambda>m. (Sys_read fd (of_nat kBufferCapacityInBytes), Returns_Bytes m)) ms"

lemma pending_read:
  assumes "pending K fd h (m # ms)"
  shows "fd_take K fd h = Some (Inr (m, h @ reads_from fd [m]))" and "pending K fd (h @ reads_from fd [m]) ms"
proof -
  have "K h (Sys_read fd (of_nat kBufferCapacityInBytes)) = Some (Returns_Bytes m)"
    using assms [unfolded pending_def, rule_format, of "[]"] by (simp add: reads_of_def)
  then show "fd_take K fd h = Some (Inr (m, h @ reads_from fd [m]))" by (simp add: fd_take_def reads_from_def)
  show "pending K fd (h @ reads_from fd [m]) ms"
    unfolding pending_def
  proof (intro allI impI)
    fix g assume "reads_of fd g < length ms"
    then show "K ((h @ reads_from fd [m]) @ g) (Sys_read fd (of_nat kBufferCapacityInBytes)) =
        Some (Returns_Bytes (ms ! reads_of fd g))"
      using assms [unfolded pending_def, rule_format, of "reads_from fd [m] @ g"]
      by (simp add: reads_of_def reads_from_def)
  qed
qed

lemma pending_takes: "pending K fd h ms \<Longrightarrow> takes (fd_take K fd) h ms (h @ reads_from fd ms)"
proof (induction ms arbitrary: h)
  case (Cons m ms)
  show ?case
    using pending_read [OF Cons.prems] Cons.IH [OF pending_read(2) [OF Cons.prems]] by (simp add: reads_from_def)
qed (simp add: reads_from_def)

interpretation fd_servers: two_servers
  "\<lambda>_. True" "fd_receive K f1" "fd_take K f1" "\<lambda>_. True" "fd_receive K f2" "fd_take K f2"
  "\<lambda>h ms. f1 \<noteq> f2 \<and> pending K f1 h ms" "\<lambda>h ms. f1 \<noteq> f2 \<and> pending K f2 h ms" for K f1 f2
proof unfold_locales
  fix h m ms
  have other: "pending K f (h @ reads_from f' [m]) ms'" if "f \<noteq> f'" "pending K f h ms'" for f f' m ms'
    using pending_other [OF that(2), of "reads_from f' [m]"] that(1) by (simp add: reads_of_def reads_from_def)
  show "\<exists>h'. fd_take K f1 h = Some (Inr (m, h')) \<and> (f1 \<noteq> f2 \<and> pending K f1 h' ms) \<and> (True \<longrightarrow> True) \<and>
      (\<forall>ms'. f1 \<noteq> f2 \<and> pending K f2 h ms' \<longrightarrow> f1 \<noteq> f2 \<and> pending K f2 h' ms')"
    if "f1 \<noteq> f2 \<and> pending K f1 h (m # ms)"
    using that pending_read [of K f1 h m ms] other [of f2 f1] by (intro exI [of _ "h @ reads_from f1 [m]"]) simp
  show "\<exists>h'. fd_take K f2 h = Some (Inr (m, h')) \<and> (f1 \<noteq> f2 \<and> pending K f2 h' ms) \<and> (True \<longrightarrow> True) \<and>
      (\<forall>ms'. f1 \<noteq> f2 \<and> pending K f1 h ms' \<longrightarrow> f1 \<noteq> f2 \<and> pending K f1 h' ms')"
    if "f1 \<noteq> f2 \<and> pending K f2 h (m # ms)"
    using that pending_read [of K f2 h m ms] other [of f1 f2] by (intro exI [of _ "h @ reads_from f2 [m]"]) simp
qed

section \<open>Connections over shared memory\<close>

text \<open>\<open>loads\<close> is what the producer sees of the consumer's index, depending on how far it is itself.\<close>

definition ring_send :: "(ring_buffer \<Rightarrow> nat \<Rightarrow> u64) \<Rightarrow> buffer \<Rightarrow> ring_buffer \<Rightarrow> (ring_buffer, ring_buffer) outcome" where
  "ring_send loads b rb = Option.bind (SharedMemoryClient_Send (loads rb) b rb) (in_world rb)"

interpretation ring_client: client_link "ring_send loads" "\<lambda>m rb. Option.bind (Push (loads rb) m rb) (in_world rb)" for loads
  by unfold_locales (simp add: ring_send_def SharedMemoryClient_Send_def buffer_content_written)

text \<open>The consumer's side, with loads that show the producer's index.\<close>

definition ring_receive :: "buffer \<Rightarrow> ring_buffer \<Rightarrow> (buffer \<times> ring_buffer, ring_buffer) outcome" where
  "ring_receive b rb = Option.bind (SharedMemoryServer_Receive (\<lambda>_. rb_producer_index rb) b rb) (in_world rb)"

definition ring_ok :: "ring_buffer \<Rightarrow> bool" where
  "ring_ok rb \<longleftrightarrow> (\<exists>H q. ring_holds rb H q \<and> (\<forall>m \<in> set q. length m \<le> kBufferCapacityInBytes))"

text \<open>\<open>Pop\<close> changes nothing of the ring but its own index.\<close>

lemma Pop_frame:
  assumes "Pop loads mem cap rb = Some (Inr (n, mem', rb'))"
  shows "rb' = rb\<lparr>rb_consumer_index := rb_consumer_index rb'\<rparr>"
  using assms by (auto simp: Pop_def Pop_read_def Let_def rbind_Inr)

lemma ring_take_holds:
  assumes "ring_holds rb H (m # q)" and "length m \<le> length mem" and "length mem < 2 ^ 64"
  shows "\<exists>rb'. Pop (\<lambda>_. rb_producer_index rb) mem (of_nat (length mem)) rb =
      Some (Inr (of_nat (length m), splice 0 m mem, rb')) \<and>
    ring_holds rb' (H + rec_size (length m)) q \<and>
    rb' = rb\<lparr>rb_consumer_index := u64_of_index (idx (unat (rb_capacity rb)) (H + rec_size (length m)))\<rparr>"
proof -
  obtain rb' where rb': "Pop (\<lambda>_. rb_producer_index rb) mem (of_nat (length mem)) rb =
      Some (Inr (of_nat (length m), splice 0 m mem, rb'))" "ring_holds rb' (H + rec_size (length m)) q"
      "rb_capacity rb' = rb_capacity rb"
    using Pop_returns [OF assms(1), of "\<lambda>_. rb_producer_index rb" 0 mem "length mem"]
      ring_indices_differ [OF assms(1)] assms(2,3) by auto
  moreover have "rb_consumer_index rb' = u64_of_index (idx (unat (rb_capacity rb)) (H + rec_size (length m)))"
    using rb'(2,3) by (simp add: ring_holds_def Let_def)
  ultimately show ?thesis using Pop_frame [OF rb'(1)] by simp
qed

definition ring_next :: "ring_buffer \<Rightarrow> (byte list \<times> ring_buffer, ring_buffer) outcome" where
  "ring_next rb = Option.bind (ring_take (replicate kBufferCapacityInBytes 0) rb) (in_world rb)"

interpretation ring_server: server_link ring_ok ring_receive ring_next
proof
  fix rb b m rb'
  assume ok: "ring_ok rb" and b: "buffer_inv b" and rd: "rd b = 0"
    and "ring_next rb = Some (Inr (m, rb'))"
  then have t: "ring_take (replicate kBufferCapacityInBytes 0) rb = Some (Inr (m, rb'))"
    by (auto simp: ring_next_def res_simps split: Option.bind_splits)
  have len: "length (buffer_bytes b) = kBufferCapacityInBytes" "kBufferCapacityInBytes < 2 ^ 64"
    using b buffer_capacity_less by (simp_all add: buffer_inv_def)
  from ok obtain H q where q: "ring_holds rb H q" "\<forall>m \<in> set q. length m \<le> kBufferCapacityInBytes"
    by (auto simp: ring_ok_def)
  show "ring_ok rb' \<and> (\<exists>b'. ring_receive b rb = Some (Inr (b', rb')) \<and> received m b')"
  proof (cases q)
    case Nil
    then have "rb_producer_index rb = rb_consumer_index rb" using q(1) by (simp add: ring_holds_def Let_def)
    then show ?thesis using t by (simp add: ring_take_def Pop_blocks)
  next
    case (Cons m' q')
    then have m': "length m' \<le> kBufferCapacityInBytes" using q(2) by simp
    let ?rb = "rb\<lparr>rb_consumer_index := u64_of_index (idx (unat (rb_capacity rb)) (H + rec_size (length m')))\<rparr>"
    have pop: "Pop (\<lambda>_. rb_producer_index rb) mem (of_nat kBufferCapacityInBytes) rb =
        Some (Inr (of_nat (length m'), splice 0 m' mem, ?rb)) \<and> ring_holds ?rb (H + rec_size (length m')) q'"
      if "length mem = kBufferCapacityInBytes" for mem
      using ring_take_holds [OF q(1) [unfolded Cons], of mem] that m' len(2) by auto
    have m: "m = m'" "rb' = ?rb"
      using t pop [of "replicate kBufferCapacityInBytes 0"] m' len(2) by (auto simp: ring_take_def splice_def)
    have "ring_ok ?rb"
      unfolding ring_ok_def using pop [OF len(1)] q(2) Cons by auto
    moreover have "ring_receive b rb = Some (Inr (b\<lparr>buffer_bytes := splice 0 m' (buffer_bytes b)\<rparr>, ?rb))"
      using pop [OF len(1)] by (simp add: ring_receive_def SharedMemoryServer_Receive_def Data_def Capacity_def)
    moreover have "received m' (b\<lparr>buffer_bytes := splice 0 m' (buffer_bytes b)\<rparr>)"
      using buffer_fill_received [OF b rd m'] m' len(1)
      by (simp add: buffer_fill_def Data_def mem_write_def)
    ultimately show ?thesis by (simp add: m)
  qed
qed

section \<open>Properties\<close>

text \<open>C40: over a descriptor, \<open>Send\<close> makes exactly one \<open>write\<close> of exactly the packed bytes and throws unless all
  of them were taken; \<open>Receive\<close> throws when \<open>read\<close> fails and otherwise leaves what was read at
  the start of the buffer, for reading from there; at the end of the connection, where \<open>read\<close>
  gives nothing, it returns as if a message had come, and the buffer still has the old one.\<close>

theorem transfer_over_descriptor:
  assumes "buffer_inv b" and "rd b = 0"
    and "K h (Sys_write fd (written b)) = Some r" and "- 1 \<le> reply_value r" and "reply_value r < 2 ^ 63"
    and "K h (Sys_read fd (of_nat kBufferCapacityInBytes)) = Some q"
    and "length (reply_bytes q) \<le> kBufferCapacityInBytes"
  shows "fd_Send fd b K h = Some (if reply_value r = int (length (written b)) then Inr ()
      else Inl (Runtime_Error ''write() failed''), h @ [(Sys_write fd (written b), r)]) \<and>
    (case fd_Receive fd b K h of
      None \<Rightarrow> False
    | Some (Inl e, _) \<Rightarrow> reply_value q = - 1 \<and> e = Runtime_Error ''read() failed''
    | Some (Inr b', _) \<Rightarrow> reply_value q \<noteq> - 1 \<and> received (reply_bytes q) b' \<and> (reply_bytes q = [] \<longrightarrow> b' = b))"
proof
  define v where "v = reply_value r"
  define n where "n = length (written b)"
  have n: "n < 2 ^ 63" using assms(1) by (simp add: n_def written_def buffer_inv_def kBufferCapacityInBytes_def)
  have "(of_int v :: u64) = of_nat n \<longleftrightarrow> v = int n"
  proof
    assume "(of_int v :: u64) = of_nat n"
    then have "(of_int v :: u64) = of_int (int n)" by simp
    then have "v mod 2 ^ LENGTH(64) = int n mod 2 ^ LENGTH(64)"
      by (simp only: word_of_int_eq_iff take_bit_eq_mod)
    then show "v = int n" using assms(4,5) n by (cases "v = - 1") (simp_all add: v_def)
  qed simp
  then show "fd_Send fd b K h = Some (if reply_value r = int (length (written b)) then Inr ()
      else Inl (Runtime_Error ''write() failed''), h @ [(Sys_write fd (written b), r)])"
    using assms(3) by (simp add: fd_Send_def io_bind_def io_of_result_def sys_def io_throw_def io_return_def
        buffer_content_written [OF assms(1)] UsedBytes_written [OF assms(1)] v_def n_def)
  obtain b' where b': "buffer_fill (reply_bytes q) b = Inr b'" "received (reply_bytes q) b'"
    using buffer_fill_received [OF assms(1,2,7)] by blast
  moreover have "b' = b" if "reply_bytes q = []"
    using b'(1) that assms(1) by (simp add: buffer_fill_def Data_def mem_write_def buffer_inv_def)
  ultimately show "case fd_Receive fd b K h of
      None \<Rightarrow> False
    | Some (Inl e, _) \<Rightarrow> reply_value q = - 1 \<and> e = Runtime_Error ''read() failed''
    | Some (Inr b', _) \<Rightarrow> reply_value q \<noteq> - 1 \<and> received (reply_bytes q) b' \<and> (reply_bytes q = [] \<longrightarrow> b' = b)"
    using assms(6) by (auto simp: fd_Receive_def io_bind_def io_of_result_def sys_or_throw_run Capacity_def)
qed

theorem transfer_over_descriptor_witness:
  "\<exists>h'. fd_Receive 3 start_buffer (\<lambda>h c. Some (case c of Sys_read _ _ \<Rightarrow> Returns_Bytes [] | _ \<Rightarrow> Returns 0)) [] =
    Some (Inr start_buffer, h')"
  using transfer_over_descriptor [of start_buffer
      "\<lambda>h c. Some (case c of Sys_read _ _ \<Rightarrow> Returns_Bytes [] | _ \<Rightarrow> Returns 0)" "[]" 3 "Returns 0" "Returns_Bytes []"]
  by (auto split: option.splits sum.splits)

end
