(* ===== verification/Measurer.thy ===== *)
theory Measurer
  imports Cursor
begin

text \<open>
  The recorder of time points (\<open>src/src/measurer/src/measurer.cpp\<close>): a vector of ticks whose
  reserved capacity says when it is full, with an iterator for \<open>ToFirst\<close>/\<open>HasNext\<close>/\<open>Next\<close>.
\<close>

type_synonym measurer = "time_point vec"

definition Measurer :: "vector_impl \<Rightarrow> u64 \<Rightarrow> measurer result" where
  "Measurer impl chunks_total_count = vec_reserve impl chunks_total_count"

text \<open>\<open>now\<close> is what \<open>std::chrono::steady_clock::now()\<close> returns.\<close>

definition Tick :: "vector_impl \<Rightarrow> time_point \<Rightarrow> measurer \<Rightarrow> measurer" where
  "Tick impl now m = vec_emplace_back impl now m"

definition FirstTick :: "measurer \<Rightarrow> time_point result" where
  "FirstTick m = (if elems m = [] then Inl (Undefined_Behaviour ''front of empty vector'')
     else Inr (hd (elems m)))"

definition LastTick :: "measurer \<Rightarrow> time_point result" where
  "LastTick m = (if elems m = [] then Inl (Undefined_Behaviour ''back of empty vector'')
     else Inr (last (elems m)))"

definition Measurer_ToFirst :: "measurer \<Rightarrow> measurer" where
  "Measurer_ToFirst m = vec_to_first m"

definition Measurer_HasNext :: "measurer \<Rightarrow> bool result" where
  "Measurer_HasNext m = vec_has_next m"

definition Measurer_Next :: "measurer \<Rightarrow> (time_point \<times> measurer) result" where
  "Measurer_Next m = vec_next m"

definition Count :: "measurer \<Rightarrow> nat" where
  "Count m = length (elems m)"

definition IsFull :: "measurer \<Rightarrow> bool" where
  "IsFull m \<longleftrightarrow> length (elems m) = vcap m"

definition PushBack :: "vector_impl \<Rightarrow> time_point \<Rightarrow> measurer \<Rightarrow> measurer" where
  "PushBack impl tick m = vec_emplace_back impl tick m"

interpretation measurer: cursor vec_content fst vec_at Measurer_ToFirst Measurer_HasNext Measurer_Next
  by unfold_locales
    (auto simp: Measurer_ToFirst_def Measurer_HasNext_def Measurer_Next_def vec_content_def vec_at_def
      vec_to_first_def vec_has_next_def vec_next_def)

section \<open>Filling\<close>

text \<open>A measurer that holds \<open>ts\<close> and becomes full at \<open>n\<close> ticks.\<close>

definition measurer_rel :: "nat \<Rightarrow> measurer \<Rightarrow> time_point list \<Rightarrow> bool" where
  "measurer_rel n m ts \<longleftrightarrow> elems m = ts \<and> vcap m = n \<and> length ts \<le> n"

lemma Measurer_rel: "vi_reserve impl n = unat n \<Longrightarrow> n \<le> vi_max_size impl \<Longrightarrow>
    \<exists>m. Measurer impl n = Inr m \<and> measurer_rel (unat n) m []"
  by (simp add: Measurer_def vec_reserve_def measurer_rel_def not_less)

lemma Tick_rel: "measurer_rel n m ts \<Longrightarrow> length ts < n \<Longrightarrow> measurer_rel n (Tick impl t m) (ts @ [t])"
  by (simp add: measurer_rel_def Tick_def vec_emplace_back_def)

lemma PushBack_rel: "measurer_rel n m ts \<Longrightarrow> length ts < n \<Longrightarrow> measurer_rel n (PushBack impl t m) (ts @ [t])"
  by (simp add: measurer_rel_def PushBack_def vec_emplace_back_def)

lemma IsFull_rel: "measurer_rel n m ts \<Longrightarrow> IsFull m \<longleftrightarrow> length ts = n"
  by (auto simp: measurer_rel_def IsFull_def)

lemma PushBack_eq_Tick: "PushBack = Tick"
  by (intro ext) (simp add: PushBack_def Tick_def)

section \<open>Properties\<close>

lemma ticks_rel:
  assumes "measurer_rel n m xs" and "length xs + length ts \<le> n"
  shows "measurer_rel n (fold (Tick impl) ts m) (xs @ ts)"
  using assms
proof (induction ts arbitrary: m xs)
  case (Cons t ts)
  then have "measurer_rel n (Tick impl t m) (xs @ [t])" by (simp add: Tick_rel)
  from Cons.IH [OF this] Cons.prems show ?case by simp
qed simp

text \<open>C18: a measurer made for \<open>n\<close> ticks, where \<open>reserve\<close> gives exactly the capacity asked for, is full
  after exactly \<open>n\<close> ticks and not before, whatever the ticks, and holds them in order.\<close>

theorem full_after_n_ticks:
  assumes "vi_reserve impl n = unat n" and "n \<le> vi_max_size impl" and "length ts \<le> unat n"
  shows "\<exists>m. Measurer impl n = Inr m \<and> elems (fold (Tick impl) ts m) = ts \<and>
    (IsFull (fold (Tick impl) ts m) \<longleftrightarrow> length ts = unat n)"
proof -
  obtain m where m: "Measurer impl n = Inr m" "measurer_rel (unat n) m []"
    using Measurer_rel [OF assms(1,2)] by blast
  have "measurer_rel (unat n) (fold (Tick impl) ts m) ts"
    using ticks_rel [OF m(2)] assms(3) by simp
  then show ?thesis using m(1) IsFull_rel by (auto simp: measurer_rel_def)
qed

theorem full_after_n_ticks_witness:
  "\<exists>m. Measurer exact_vectors 2 = Inr m \<and>
    IsFull (fold (Tick exact_vectors) [time_point 5, time_point 9] m)"
  using full_after_n_ticks [of exact_vectors 2 "[time_point 5, time_point 9]"]
  by (auto simp: exact_vectors_def)

text \<open>C19: an implementation whose \<open>reserve\<close> gives more than asked for, which the standard allows, makes
  a measurer that is not full after the announced number of ticks.\<close>

theorem not_full_with_spare_capacity:
  assumes "unat n < vi_reserve impl n" and "n \<le> vi_max_size impl" and "length ts = unat n"
  shows "\<exists>m. Measurer impl n = Inr m \<and> \<not> IsFull (fold (Tick impl) ts m)"
proof -
  define m :: measurer where "m = \<lparr>elems = [], vcap = vi_reserve impl n, iter = None\<rparr>"
  have m: "Measurer impl n = Inr m" "measurer_rel (vi_reserve impl n) m []"
    using assms(2) by (simp_all add: Measurer_def vec_reserve_def measurer_rel_def m_def not_less)
  have "measurer_rel (vi_reserve impl n) (fold (Tick impl) ts m) ts"
    using ticks_rel [OF m(2)] assms(1,3) by simp
  then show ?thesis using m(1) IsFull_rel assms(1,3) by (intro exI [of _ m]) auto
qed

theorem not_full_with_spare_capacity_witness:
  "\<exists>impl m. Measurer impl 2 = Inr m \<and> \<not> IsFull (fold (Tick impl) [time_point 5, time_point 9] m)"
  using not_full_with_spare_capacity [of 2 "exact_vectors\<lparr>vi_reserve := \<lambda>n. 2 * unat n\<rparr>"
      "[time_point 5, time_point 9]"]
  by (auto simp: exact_vectors_def)

end
