(* ===== verification/Generator.thy ===== *)
theory Generator
  imports Cursor
begin

text \<open>
  The generator of the messages the producer sends
  (\<open>src/src/generator/src/simple_round_generator.cpp\<close>): every message has \<open>chunks_size\<close>
  characters and the messages together run round the alphabet.  Sizes are 64-bit words.
\<close>

definition kAlphabet :: "byte list" where
  "kAlphabet = map of_char ''abcdefghijklmnopqrstuvwxyz1234567890''"

definition kAlphabetSize :: u64 where
  "kAlphabetSize = 36"

text \<open>One character less when the size is a multiple of the alphabet's.\<close>

definition alphabet_size :: "u64 \<Rightarrow> u64" where
  "alphabet_size chunks_size =
     (if chunks_size mod kAlphabetSize \<noteq> 0 then kAlphabetSize else kAlphabetSize - 1)"

text \<open>\<open>msg += std::string_view{&kAlphabet[alphabet_idx], count}\<close>\<close>

definition alphabet_view :: "u64 \<Rightarrow> u64 \<Rightarrow> byte list result" where
  "alphabet_view idx n = mem_read (unat idx) (unat n) kAlphabet"

lemma alphabet_size_cases: "alphabet_size cs = 36 \<or> alphabet_size cs = 35"
  by (simp add: alphabet_size_def kAlphabetSize_def)

text \<open>The inner loop: \<open>len\<close> characters are missing, \<open>g\<close> is \<open>alphabet_global_idx\<close>.\<close>

function gen_msg_loop :: "u64 \<Rightarrow> u64 \<Rightarrow> u64 \<Rightarrow> byte list \<Rightarrow> (byte list \<times> u64) result" where
  "gen_msg_loop cs len g msg =
     (if len = 0 then Inr (msg, g)
      else let idx = g mod alphabet_size cs;
               count = min (alphabet_size cs - idx) len
           in rbind (alphabet_view idx count) (\<lambda>v.
              gen_msg_loop cs (len - count) (g + count) (msg @ v)))"
  by auto

lemma gen_count:
  fixes cs len g :: u64
  assumes "len \<noteq> 0"
  defines "c \<equiv> min (alphabet_size cs - g mod alphabet_size cs) len"
  shows "0 < unat c" "unat c \<le> unat len" "unat (g mod alphabet_size cs) = unat g mod unat (alphabet_size cs)"
    "unat c = min (unat (alphabet_size cs) - unat g mod unat (alphabet_size cs)) (unat len)"
    "unat g mod unat (alphabet_size cs) < unat (alphabet_size cs)"
proof -
  let ?a = "alphabet_size cs" and ?i = "g mod alphabet_size cs"
  have a: "0 < unat ?a" using alphabet_size_cases [of cs] by auto
  show i: "unat ?i = unat g mod unat ?a" by (rule unat_mod)
  show lt: "unat g mod unat ?a < unat ?a" using a by simp
  then have "?i < ?a" by (simp add: word_less_nat_alt i)
  then have d: "unat (?a - ?i) = unat ?a - unat g mod unat ?a"
    by (simp add: unat_sub i order_less_imp_le)
  show c: "unat c = min (unat ?a - unat g mod unat ?a) (unat len)"
    unfolding c_def by (simp add: min_def word_le_nat_alt d)
  have "0 < unat len" using assms(1) by (simp add: unat_gt_0)
  then show "0 < unat c" "unat c \<le> unat len" using lt by (simp_all add: c)
qed

termination gen_msg_loop
proof (relation "measure (\<lambda>(cs, len, g, msg). unat len)")
  fix cs len g :: u64 and msg v :: "byte list" and idx c
  assume l: "len \<noteq> 0" and i: "idx = g mod alphabet_size cs" and c: "c = min (alphabet_size cs - idx) len"
  note g = gen_count [OF l, where cs = cs and g = g]
  have "unat (len - c) = unat len - unat c"
    using g(2) by (simp add: unat_sub c i word_le_nat_alt)
  then show "((cs, len - c, g + c, msg @ v), (cs, len, g, msg)) \<in> measure (\<lambda>(cs, len, g, msg). unat len)"
    using g(1,2) by (simp add: c i)
qed simp

declare gen_msg_loop.simps [simp del]

text \<open>
  The outer loop; \<open>i\<close> is its counter.  \<open>string_max\<close> is \<open>std::string::max_size()\<close>, beyond which
  \<open>msg.reserve\<close> throws.
\<close>

fun gen_loop :: "vector_impl \<Rightarrow> u64 \<Rightarrow> u64 \<Rightarrow> nat \<Rightarrow> u64 \<Rightarrow> byte list vec \<Rightarrow> byte list vec result" where
  "gen_loop impl string_max cs 0 g msgs = Inr msgs"
| "gen_loop impl string_max cs (Suc i) g msgs =
     (if string_max < cs then Inl Length_Error
      else rbind (gen_msg_loop cs cs g []) (\<lambda>(msg, g').
           gen_loop impl string_max cs i g' (vec_emplace_back impl msg msgs)))"

definition SimpleRoundGenerator :: "vector_impl \<Rightarrow> u64 \<Rightarrow> u64 \<Rightarrow> u64 \<Rightarrow> byte list vec result" where
  "SimpleRoundGenerator impl string_max chunks_size chunks_total_count =
     rbind (vec_reserve impl chunks_total_count)
       (gen_loop impl string_max chunks_size (unat chunks_total_count) 0)"

definition Generator_ToFirst :: "byte list vec \<Rightarrow> byte list vec" where
  "Generator_ToFirst g = vec_to_first g"

definition Generator_Next :: "byte list vec \<Rightarrow> (byte list \<times> byte list vec) result" where
  "Generator_Next g = vec_next g"

definition Generator_HasNext :: "byte list vec \<Rightarrow> bool result" where
  "Generator_HasNext g = vec_has_next g"

interpretation generator: cursor vec_content fst vec_at Generator_ToFirst Generator_HasNext Generator_Next
  by unfold_locales
    (auto simp: Generator_ToFirst_def Generator_HasNext_def Generator_Next_def vec_content_def vec_at_def
      vec_to_first_def vec_has_next_def vec_next_def)

section \<open>What the messages contain\<close>

text \<open>\<open>n\<close> characters of the endless repetition of the first \<open>a\<close> characters, from the \<open>p\<close>-th on.\<close>

definition alphabet_run :: "nat \<Rightarrow> nat \<Rightarrow> nat \<Rightarrow> byte list" where
  "alphabet_run a p n = map (\<lambda>j. kAlphabet ! ((p + j) mod a)) [0..<n]"

lemma length_alphabet [simp]: "length kAlphabet = 36"
  by (simp add: kAlphabet_def)

lemma length_alphabet_run [simp]: "length (alphabet_run a p n) = n"
  by (simp add: alphabet_run_def)

lemma alphabet_run_append: "alphabet_run a p m @ alphabet_run a (p + m) n = alphabet_run a p (m + n)"
  by (rule nth_equalityI) (auto simp: alphabet_run_def nth_append add.assoc)

lemma alphabet_run_flat:
  assumes "p mod a + n \<le> a" and "a \<le> 36" and "0 < a"
  shows "alphabet_run a p n = take n (drop (p mod a) kAlphabet)"
proof (rule nth_equalityI)
  fix j assume "j < length (alphabet_run a p n)"
  then have j: "j < n" by simp
  have "(p + j) mod a = (p mod a + j) mod a" by (rule mod_add_left_eq [symmetric])
  also have "\<dots> = p mod a + j" using j assms by simp
  finally show "alphabet_run a p n ! j = take n (drop (p mod a) kAlphabet) ! j"
    using j assms by (simp add: alphabet_run_def)
qed (use assms in simp)

lemma gen_msg_loop_run:
  assumes "unat g + unat len < 2 ^ 64"
  shows "gen_msg_loop cs len g msg =
    Inr (msg @ alphabet_run (unat (alphabet_size cs)) (unat g) (unat len), g + len)"
  using assms
proof (induction cs len g msg rule: gen_msg_loop.induct)
  case (1 cs len g msg)
  let ?a = "unat (alphabet_size cs)"
  show ?case
  proof (cases "len = 0")
    case True
    then show ?thesis by (subst gen_msg_loop.simps) (simp add: alphabet_run_def)
  next
    case False
    define idx where "idx = g mod alphabet_size cs"
    define c where "c = min (alphabet_size cs - idx) len"
    note k = gen_count [OF False, where cs = cs and g = g, folded idx_def, folded c_def]
    have a: "?a \<le> 36" "0 < ?a" using alphabet_size_cases [of cs] by auto
    have fit: "unat g mod ?a + unat c \<le> ?a" using k(4,5) by simp
    have view: "alphabet_view idx c = Inr (alphabet_run ?a (unat g) (unat c))"
      using fit a by (simp add: alphabet_view_def mem_read_def k(3) alphabet_run_flat)
    have sub: "unat (len - c) = unat len - unat c"
      using k(2) by (simp add: unat_sub word_le_nat_alt)
    have add: "unat (g + c) = unat g + unat c"
      using 1(2) k(2) by (subst unat_add_lem [THEN iffD1]) auto
    have "gen_msg_loop cs (len - c) (g + c) (msg @ alphabet_run ?a (unat g) (unat c)) =
        Inr ((msg @ alphabet_run ?a (unat g) (unat c)) @
          alphabet_run ?a (unat g + unat c) (unat len - unat c), g + len)"
      using 1(1) [OF False idx_def c_def, of "alphabet_run ?a (unat g) (unat c)"] 1(2) k(2) add sub by simp
    then show ?thesis
      using False k(2) alphabet_run_append [of ?a "unat g" "unat c" "unat len - unat c"]
      by (simp add: gen_msg_loop.simps [of cs len] Let_def view flip: idx_def c_def)
  qed
qed

lemma elems_emplace_back [simp]: "elems (vec_emplace_back impl x v) = elems v @ [x]"
  by (simp add: vec_emplace_back_def)

lemma gen_loop_run:
  assumes "unat g + k * unat cs < 2 ^ 64" and "cs \<le> string_max"
  shows "\<exists>v'. gen_loop impl string_max cs k g v = Inr v' \<and> elems v' =
    elems v @ map (\<lambda>i. alphabet_run (unat (alphabet_size cs)) (unat g + i * unat cs) (unat cs)) [0..<k]"
  using assms
proof (induction k arbitrary: g v)
  case (Suc k)
  let ?a = "unat (alphabet_size cs)"
  define m where "m = alphabet_run ?a (unat g) (unat cs)"
  have m: "gen_msg_loop cs cs g [] = Inr (m, g + cs)"
    using gen_msg_loop_run [of g cs cs "[]"] Suc.prems(1) by (simp add: m_def)
  have add: "unat (g + cs) = unat g + unat cs"
    using Suc.prems(1) by (subst unat_add_lem [THEN iffD1]) auto
  have "unat (g + cs) + k * unat cs < 2 ^ 64" using Suc.prems(1) by (simp add: add)
  from Suc.IH [OF this Suc.prems(2), of "vec_emplace_back impl m v"] obtain v' where
    v': "gen_loop impl string_max cs k (g + cs) (vec_emplace_back impl m v) = Inr v'"
    "elems v' = elems v @ [m] @ map (\<lambda>i. alphabet_run ?a (unat g + unat cs + i * unat cs) (unat cs)) [0..<k]"
    by (auto simp: add)
  have "map (\<lambda>i. alphabet_run ?a (unat g + i * unat cs) (unat cs)) [0..<Suc k] =
      m # map (\<lambda>i. alphabet_run ?a (unat g + unat cs + i * unat cs) (unat cs)) [0..<k]"
    by (simp add: map_upt_Suc m_def add.assoc del: upt_Suc)
  then show ?case using v' Suc.prems(2) m by (simp add: not_less del: upt_Suc)
qed simp

lemma generator_run:
  assumes "unat n * unat cs < 2 ^ 64" and "cs \<le> string_max" and "n \<le> vi_max_size impl"
  shows "\<exists>v. SimpleRoundGenerator impl string_max cs n = Inr v \<and> elems v =
    map (\<lambda>i. alphabet_run (unat (alphabet_size cs)) (i * unat cs) (unat cs)) [0..<unat n]"
  using gen_loop_run [of 0 "unat n" cs string_max impl "\<lparr>elems = [], vcap = vi_reserve impl n, iter = None\<rparr>"]
    assms by (simp add: SimpleRoundGenerator_def vec_reserve_def not_less)

section \<open>Properties\<close>

text \<open>C20: the generator ends and makes the announced number of messages, each of the announced size; the
  messages one after the other spell the alphabet round and round, the last character being
  left out when the size is a multiple of 36.\<close>

theorem generator_messages:
  assumes "unat n * unat cs < 2 ^ 64" and "cs \<le> string_max" and "n \<le> vi_max_size impl"
  shows "\<exists>v. SimpleRoundGenerator impl string_max cs n = Inr v \<and> length (elems v) = unat n \<and>
    (\<forall>m \<in> set (elems v). length m = unat cs) \<and>
    concat (elems v) = alphabet_run (if unat cs mod 36 = 0 then 35 else 36) 0 (unat n * unat cs)"
proof -
  let ?a = "unat (alphabet_size cs)"
  have a: "?a = (if unat cs mod 36 = 0 then 35 else 36)"
    by (simp add: alphabet_size_def kAlphabetSize_def word_unat_eq_iff unat_mod)
  obtain v where v: "SimpleRoundGenerator impl string_max cs n = Inr v"
    "elems v = map (\<lambda>i. alphabet_run ?a (i * unat cs) (unat cs)) [0..<unat n]"
    using generator_run [OF assms] by blast
  have "concat (map (\<lambda>i. alphabet_run ?a (i * unat cs) (unat cs)) [0..<k]) = alphabet_run ?a 0 (k * unat cs)" for k
  proof (induction k)
    case (Suc k)
    then show ?case
      using alphabet_run_append [of ?a 0 "k * unat cs" "unat cs"] by (simp add: add.commute)
  qed (simp add: alphabet_run_def)
  with v a show ?thesis by auto
qed

theorem generator_messages_witness:
  "\<exists>v. SimpleRoundGenerator exact_vectors (2 ^ 62) 20 2 = Inr v \<and>
    concat (elems v) = map of_char ''abcdefghijklmnopqrstuvwxyz1234567890abcd''"
proof -
  have "alphabet_run 36 0 40 = map of_char ''abcdefghijklmnopqrstuvwxyz1234567890abcd''"
    by (simp add: alphabet_run_def kAlphabet_def upt_conv_Cons)
  then show ?thesis
    using generator_messages [of 2 20 "2 ^ 62" exact_vectors] by (auto simp: exact_vectors_def)
qed

lemma distinct_alphabet: "distinct kAlphabet"
  unfolding kAlphabet_def by code_simp

lemma alphabet_run_shift:
  assumes "0 < n" and "0 < a" and "a \<le> 36"
  shows "alphabet_run a p n = alphabet_run a (p + n) n \<longleftrightarrow> a dvd n"
proof
  assume eq: "alphabet_run a p n = alphabet_run a (p + n) n"
  then have "kAlphabet ! (p mod a) = kAlphabet ! ((p + n) mod a)"
    using assms(1) arg_cong [OF eq, of "\<lambda>xs. xs ! 0"] by (simp add: alphabet_run_def)
  moreover have "p mod a < 36" "(p + n) mod a < 36"
    using assms(2,3) mod_less_divisor [of a p] mod_less_divisor [of a "p + n"] by linarith+
  ultimately have "p mod a = (p + n) mod a"
    using distinct_alphabet by (simp add: nth_eq_iff_index_eq)
  then show "a dvd n" by (metis add_diff_cancel_left' le_add1 mod_eq_dvd_iff_nat)
next
  assume "a dvd n"
  then have "(p + n + j) mod a = (p + j) mod a" for j
    by (metis add.assoc add.commute mod_add_right_eq dvd_imp_mod_0 add_0_right)
  then show "alphabet_run a p n = alphabet_run a (p + n) n" by (simp add: alphabet_run_def)
qed

lemma dvd_1260: "(if 36 dvd n then 35 else 36) dvd n \<longleftrightarrow> 1260 dvd (n :: nat)"
proof -
  have "coprime (36 :: nat) 35" by (simp add: coprime_iff_gcd_eq_1 gcd_nat.simps)
  then have "36 * 35 dvd n" if "36 dvd n" "35 dvd n" using that divides_mult by blast
  moreover have "36 dvd n \<and> 35 dvd n" if "1260 dvd n"
    using that dvd_trans [of 36 1260 n] dvd_trans [of 35 1260 n] by simp
  ultimately show ?thesis by auto
qed

text \<open>C21: two consecutive messages are equal exactly when the size is a multiple of 1260: leaving out the
  last character, meant to make messages differ, does not help for common multiples of 36
  and 35.\<close>

theorem consecutive_messages:
  assumes "unat n * unat cs < 2 ^ 64" and "cs \<le> string_max" and "n \<le> vi_max_size impl"
    and "cs \<noteq> 0" and "Suc i < unat n"
  shows "\<exists>v. SimpleRoundGenerator impl string_max cs n = Inr v \<and>
    (elems v ! i = elems v ! Suc i \<longleftrightarrow> 1260 dvd unat cs)"
proof -
  let ?a = "unat (alphabet_size cs)"
  have a: "?a = (if 36 dvd unat cs then 35 else 36)"
    by (simp add: alphabet_size_def kAlphabetSize_def word_unat_eq_iff unat_mod dvd_eq_mod_eq_0)
  have c: "0 < unat cs" using assms(4) by (simp add: unat_gt_0)
  obtain v where v: "SimpleRoundGenerator impl string_max cs n = Inr v"
    "elems v = map (\<lambda>i. alphabet_run ?a (i * unat cs) (unat cs)) [0..<unat n]"
    using generator_run [OF assms(1-3)] by blast
  have "elems v ! i = elems v ! Suc i \<longleftrightarrow> ?a dvd unat cs"
    using alphabet_run_shift [OF c, of ?a "i * unat cs"] a assms(5)
    by (simp add: v(2) add.commute del: upt_Suc)
  also have "\<dots> \<longleftrightarrow> 1260 dvd unat cs"
    unfolding a by (rule dvd_1260)
  finally show ?thesis using v(1) by blast
qed

theorem consecutive_messages_witness:
  "\<exists>v. SimpleRoundGenerator exact_vectors (2 ^ 62) 1260 2 = Inr v \<and> elems v ! 0 = elems v ! 1"
  using consecutive_messages [of 2 1260 "2 ^ 62" exact_vectors 0] by (auto simp: exact_vectors_def)

end
