(* ===== verification/Doubles.thy ===== *)
theory Doubles
  imports Complex_Main "HOL-Library.Log_Nat"
begin

text \<open>
  Arithmetic on \<open>double\<close> as far as the quantiles need it.  A finite double is the rational
  number it denotes; an operation computes exactly and rounds with \<open>double_round\<close> (to the
  nearest double, ties to even, gradual underflow; values are far from overflow).
  Locale \<open>rounding\<close> states the laws the quantiles use, \<open>double_round\<close> satisfies them.
\<close>

section \<open>Laws\<close>

locale rounding =
  fixes fl :: "rat \<Rightarrow> rat"
  assumes fl_mono: "0 \<le> x \<Longrightarrow> x \<le> y \<Longrightarrow> fl x \<le> fl y"
    and fl_int: "0 \<le> n \<Longrightarrow> n \<le> 2 ^ 53 \<Longrightarrow> fl (of_int n) = of_int n"
begin

lemma fl_nonneg: "0 \<le> x \<Longrightarrow> 0 \<le> fl x"
  using fl_mono [of 0 x] fl_int [of 0] by simp

lemma fl_le_int: "0 \<le> x \<Longrightarrow> x \<le> of_int n \<Longrightarrow> n \<le> 2 ^ 53 \<Longrightarrow> fl x \<le> of_int n"
  using fl_mono [of x "of_int n"] fl_int [of n] order_trans [of 0 x "of_int n"] by simp

lemma fl_le_1: "0 \<le> x \<Longrightarrow> x \<le> 1 \<Longrightarrow> fl x \<le> 1"
  using fl_le_int [of x 1] by simp

end

section \<open>Rounding to nearest, ties to even\<close>

definition round_half_even :: "rat \<Rightarrow> int" where
  "round_half_even z =
     (let f = \<lfloor>z\<rfloor>; d = z - of_int f in
      if d < 1 / 2 then f else if 1 / 2 < d then f + 1 else if even f then f else f + 1)"

lemma round_half_even_bounds: "\<lfloor>z\<rfloor> \<le> round_half_even z" "round_half_even z \<le> \<lfloor>z\<rfloor> + 1"
  by (simp_all add: round_half_even_def Let_def)

lemma round_half_even_int [simp]: "round_half_even (of_int n) = n"
  by (simp add: round_half_even_def)

lemma round_half_even_mono:
  assumes "x \<le> y"
  shows "round_half_even x \<le> round_half_even y"
proof (cases "\<lfloor>x\<rfloor> = \<lfloor>y\<rfloor>")
  case True
  with assms show ?thesis by (auto simp: round_half_even_def Let_def)
next
  case False
  then have "\<lfloor>x\<rfloor> + 1 \<le> \<lfloor>y\<rfloor>" using floor_mono [OF assms] by simp
  then show ?thesis
    using round_half_even_bounds(2) [of x] round_half_even_bounds(1) [of y] by linarith
qed

text \<open>The position of the leading binary digit of a positive rational number.\<close>

definition ilog2 :: "rat \<Rightarrow> int" where
  "ilog2 x = (let (p, q) = quotient_of x; d = bitlen p - bitlen q in
     if 2 powi d \<le> x then d else d - 1)"

definition double_round_pos :: "rat \<Rightarrow> rat" where
  "double_round_pos x =
     (let e = max (- 1074) (ilog2 x - 52) in of_int (round_half_even (x / 2 powi e)) * 2 powi e)"

definition double_round :: "rat \<Rightarrow> rat" where
  "double_round x =
     (if x = 0 then 0 else if 0 < x then double_round_pos x else - double_round_pos (- x))"

lemma powi_pos [simp]: "0 < (2 :: rat) powi e"
  by simp

lemma powi_mono: "(a :: int) \<le> b \<Longrightarrow> (2 :: rat) powi a \<le> 2 powi b"
  by (simp add: power_int_increasing)

lemma ilog2_bounds:
  assumes "0 < x"
  shows "2 powi ilog2 x \<le> x" "x < 2 powi (ilog2 x + 1)"
proof -
  obtain p q where pq: "quotient_of x = (p, q)" by fastforce
  have q: "0 < q" using quotient_of_denom_pos [OF pq] .
  have x: "x = of_int p / of_int q" using quotient_of_div [OF pq] .
  have p: "0 < p" using assms q by (simp add: x zero_less_divide_iff)
  have bl: "2 powi (bitlen n - 1) \<le> (of_int n :: rat)" "(of_int n :: rat) < 2 powi (bitlen n)"
    if "0 < n" for n
  proof -
    have b: "0 < bitlen n" using that bitlen_nonneg [of n] bitlen_eq_zero_iff [of n] by simp
    then have "2 ^ nat (bitlen n - 1) \<le> n" "n < 2 ^ nat (bitlen n)"
      using bitlen_bounds [OF that] by simp_all
    then have "(2 :: rat) ^ nat (bitlen n - 1) \<le> of_int n" "(of_int n :: rat) < 2 ^ nat (bitlen n)"
      by (metis of_int_le_iff of_int_numeral of_int_power, metis of_int_less_iff of_int_numeral of_int_power)
    with b show "2 powi (bitlen n - 1) \<le> (of_int n :: rat)" "(of_int n :: rat) < 2 powi (bitlen n)"
      by (simp_all add: power_int_def)
  qed
  let ?d = "bitlen p - bitlen q"
  have up: "x < 2 powi (?d + 1)"
  proof -
    have "x * 2 powi (bitlen q - 1) \<le> x * of_int q" using bl(1) [OF q] assms by (simp add: mult_left_mono)
    also have "\<dots> = of_int p" using q by (simp add: x)
    also have "\<dots> < 2 powi (bitlen p)" by (rule bl(2) [OF p])
    also have "\<dots> = 2 powi (?d + 1) * 2 powi (bitlen q - 1)" by (simp flip: power_int_add)
    finally show ?thesis by simp
  qed
  have lo: "2 powi (?d - 1) < x"
  proof -
    have "2 powi (?d - 1) * of_int q < 2 powi (?d - 1) * (2 powi (bitlen q) :: rat)"
      using bl(2) [OF q] by simp
    also have "\<dots> = 2 powi (bitlen p - 1)" by (simp flip: power_int_add)
    also have "\<dots> \<le> of_int p" by (rule bl(1) [OF p])
    also have "\<dots> = x * of_int q" using q by (simp add: x)
    finally show ?thesis using q by simp
  qed
  show "2 powi ilog2 x \<le> x" "x < 2 powi (ilog2 x + 1)"
    using up lo by (auto simp: ilog2_def pq Let_def)
qed

lemma ilog2_less:
  assumes "0 < x" and "x < 2 powi k"
  shows "ilog2 x < k"
proof (rule ccontr)
  assume "\<not> ilog2 x < k"
  then have "(2 :: rat) powi k \<le> 2 powi ilog2 x" by (intro powi_mono) simp
  with ilog2_bounds(1) [OF assms(1)] assms(2) show False by simp
qed

lemma ilog2_mono:
  assumes "0 < x" and "x \<le> y"
  shows "ilog2 x \<le> ilog2 y"
  using ilog2_less [OF assms(1), of "ilog2 y + 1"] ilog2_bounds(2) [of y] assms by simp

text \<open>Rounding on one grid is monotone and leaves multiples of the step alone.\<close>

lemma grid_mono:
  "x \<le> y \<Longrightarrow> (of_int (round_half_even (x / 2 powi e)) :: rat) * 2 powi e \<le> of_int (round_half_even (y / 2 powi e)) * 2 powi e"
  by (simp add: round_half_even_mono divide_right_mono)

lemma grid_powi:
  assumes "e \<le> k"
  shows "(of_int (round_half_even (2 powi k / 2 powi e)) :: rat) * 2 powi e = 2 powi k"
proof -
  have "(2 :: rat) powi k / 2 powi e = 2 powi (k - e)" by (simp add: power_int_diff)
  also have "\<dots> = of_int (2 ^ nat (k - e))" using assms by (simp add: power_int_def)
  finally have q: "(2 :: rat) powi k / 2 powi e = of_int (2 ^ nat (k - e))" .
  have "(of_int (2 ^ nat (k - e)) :: rat) * 2 powi e = 2 powi k" using q by (simp add: field_simps)
  then show ?thesis unfolding q round_half_even_int .
qed

lemma double_round_pos_mono:
  assumes "0 < x" and "x \<le> y"
  shows "double_round_pos x \<le> double_round_pos y"
proof -
  define e where "e = max (- 1074) (ilog2 x - 52)"
  define e' where "e' = max (- 1074) (ilog2 y - 52)"
  have le: "ilog2 x \<le> ilog2 y" using assms by (rule ilog2_mono)
  show ?thesis
  proof (cases "e = e'")
    case True
    then show ?thesis
      using grid_mono [OF assms(2), of e] by (simp add: double_round_pos_def Let_def flip: e_def e'_def)
  next
    case False
    define k where "k = ilog2 y"
    have k: "e \<le> k" "e' \<le> k" "ilog2 x < k" using False le by (auto simp: e_def e'_def k_def max_def split: if_splits)
    have "x < 2 powi (ilog2 x + 1)" using ilog2_bounds(2) [OF assms(1)] .
    also have "\<dots> \<le> 2 powi k" using k(3) by (intro powi_mono) simp
    finally have "of_int (round_half_even (x / 2 powi e)) * 2 powi e \<le> (2 :: rat) powi k"
      using grid_mono [of x "2 powi k" e] grid_powi [OF k(1)] by simp
    also have "2 powi k = (of_int (round_half_even (2 powi k / 2 powi e')) :: rat) * 2 powi e'"
      by (simp only: grid_powi [OF k(2)])
    also have "\<dots> \<le> of_int (round_half_even (y / 2 powi e')) * 2 powi e'"
      using ilog2_bounds(1) [of y] assms by (intro grid_mono) (simp add: k_def)
    finally show ?thesis by (simp add: double_round_pos_def Let_def flip: e_def e'_def)
  qed
qed

lemma double_round_pos_nonneg:
  assumes "0 < x"
  shows "0 \<le> double_round_pos x"
proof -
  define e where "e = max (- 1074) (ilog2 x - 52)"
  have "0 \<le> \<lfloor>x / 2 powi e\<rfloor>" using assms by simp
  then have "0 \<le> round_half_even (x / 2 powi e)"
    using round_half_even_bounds(1) [of "x / 2 powi e"] by linarith
  then show ?thesis by (simp add: double_round_pos_def Let_def flip: e_def)
qed

lemma powi_div_int:
  assumes "e \<le> 0"
  shows "(of_int n :: rat) / 2 powi e = of_int (n * 2 ^ nat (- e))"
proof -
  have "(2 :: rat) powi e * 2 ^ nat (- e) = 2 powi e * 2 powi (- e)"
    using assms by (simp add: power_int_def)
  also have "\<dots> = 1" by (simp flip: power_int_add)
  finally show ?thesis by (simp add: field_simps)
qed

lemma double_round_int:
  assumes "0 \<le> n" and "n \<le> 2 ^ 53"
  shows "double_round (of_int n) = of_int n"
proof (cases "n = 0")
  case False
  with assms have n: "0 < (of_int n :: rat)" by simp
  define e where "e = max (- 1074) (ilog2 (of_int n :: rat) - 52)"
  have "of_int (round_half_even ((of_int n :: rat) / 2 powi e)) * 2 powi e = (of_int n :: rat)"
  proof (cases "n = 2 ^ 53")
    case True
    have p: "(of_int n :: rat) = 2 powi 53" by (simp add: True)
    have "(of_int n :: rat) < 2 powi 54" by (simp add: True)
    then have "ilog2 (of_int n :: rat) < 54" by (rule ilog2_less [OF n])
    then have "e \<le> 53" by (simp add: e_def)
    then show ?thesis unfolding p by (rule grid_powi)
  next
    case False
    with assms have "n < 2 ^ 53" by simp
    then have "(of_int n :: rat) < of_int (2 ^ 53)" by (simp only: of_int_less_iff)
    then have "(of_int n :: rat) < 2 powi 53" by simp
    then have "ilog2 (of_int n :: rat) < 53" by (rule ilog2_less [OF n])
    then have e: "(of_int n :: rat) / 2 powi e = of_int (n * 2 ^ nat (- e))"
      by (intro powi_div_int) (simp add: e_def)
    then have "of_int (n * 2 ^ nat (- e)) * 2 powi e = (of_int n :: rat)" by (simp add: field_simps)
    then show ?thesis unfolding e round_half_even_int .
  qed
  with n show ?thesis by (simp add: double_round_def double_round_pos_def Let_def flip: e_def)
qed (simp add: double_round_def)

text \<open>Rounding a number whose leading digit is known: \<open>x * 2 ^ m\<close> has 53 digits before the point.\<close>

lemma double_round_at:
  assumes "2 ^ 52 \<le> x * 2 ^ m" and "x * 2 ^ m < 2 ^ 53" and "m \<le> 1074"
  shows "double_round x = of_int (round_half_even (x * 2 ^ m)) / 2 ^ m"
proof -
  have "0 < x * 2 ^ m" using assms(1) by (rule order_less_le_trans [rotated]) simp
  then have x: "0 < x" by (simp add: zero_less_mult_iff)
  have m: "(2 :: rat) powi (52 - int m) = 2 ^ 52 / 2 ^ m" "(2 :: rat) powi (53 - int m) = 2 ^ 53 / 2 ^ m"
    "(2 :: rat) powi (- int m) = 1 / 2 ^ m"
    by (simp_all add: power_int_diff power_int_minus field_simps)
  have "x < 2 powi (53 - int m)" using assms(2) by (simp add: m field_simps)
  then have "ilog2 x < 53 - int m" by (rule ilog2_less [OF x])
  moreover have "\<not> ilog2 x < 52 - int m"
  proof
    assume "ilog2 x < 52 - int m"
    then have "(2 :: rat) powi (ilog2 x + 1) \<le> 2 powi (52 - int m)" by (intro powi_mono) simp
    also have "\<dots> \<le> x" using assms(1) by (simp add: m field_simps)
    finally show False using ilog2_bounds(2) [OF x] by simp
  qed
  ultimately have "max (- 1074) (ilog2 x - 52) = - int m" using assms(3) by simp
  then show ?thesis using x by (simp add: double_round_def double_round_pos_def Let_def m)
qed

interpretation double: rounding double_round
proof
  fix x y :: rat assume "0 \<le> x" "x \<le> y"
  then show "double_round x \<le> double_round y"
    by (cases "x = 0"; cases "y = 0")
      (simp_all add: double_round_def double_round_pos_mono double_round_pos_nonneg)
qed (rule double_round_int)

end
