(* ===== verification/Quantiles.thy ===== *)
theory Quantiles
  imports Prelude Doubles
begin

text \<open>
  The quantiles of the shipping times (\<open>src/src/statistics/src/quantiles/src/quantiles.cpp\<close>).
  Times are \<open>int64_t\<close> nanoseconds; \<open>fl\<close> is the rounding of \<open>double\<close> operations, for which the
  program has \<open>double_round\<close>.
\<close>

definition Quantiles :: "int list \<Rightarrow> int list result" where
  "Quantiles shippings = cxx_assert ''_N > 0'' (0 < length shippings) (Inr (sort shippings))"

text \<open>\<open>std::chrono::duration_cast\<close> from a count in \<open>double\<close> to one in \<open>int64_t\<close> truncates.\<close>

definition duration_cast_double :: "rat \<Rightarrow> int result" where
  "duration_cast_double x = i64 (if 0 \<le> x then \<lfloor>x\<rfloor> else \<lceil>x\<rceil>)"

text \<open>Position and fraction for \<open>alpha\<close> among \<open>N\<close> values.\<close>

definition quantile_pos :: "(rat \<Rightarrow> rat) \<Rightarrow> nat \<Rightarrow> rat \<Rightarrow> rat" where
  "quantile_pos fl N alpha = fl (alpha * fl (of_int (int (N - 1))))"

definition quantile_idx :: "(rat \<Rightarrow> rat) \<Rightarrow> nat \<Rightarrow> rat \<Rightarrow> nat" where
  "quantile_idx fl N alpha = nat \<lfloor>quantile_pos fl N alpha\<rfloor>"

definition quantile_frac :: "(rat \<Rightarrow> rat) \<Rightarrow> nat \<Rightarrow> rat \<Rightarrow> rat" where
  "quantile_frac fl N alpha =
     fl (quantile_pos fl N alpha - fl (of_int (int (quantile_idx fl N alpha))))"

definition interpolate :: "(rat \<Rightarrow> rat) \<Rightarrow> int \<Rightarrow> int \<Rightarrow> rat \<Rightarrow> int result" where
  "interpolate fl lo hi fr =
     rbind (i64 (hi - lo)) (\<lambda>delta.
     rbind (duration_cast_double (fl (fl (of_int delta) * fr))) (\<lambda>d. i64 (lo + d)))"

definition Quantiles_Get :: "(rat \<Rightarrow> rat) \<Rightarrow> int list \<Rightarrow> rat \<Rightarrow> int result" where
  "Quantiles_Get fl s alpha =
     cxx_assert ''alpha >= 0.0'' (0 \<le> alpha)
    (cxx_assert ''alpha <= 1.0'' (alpha \<le> 1)
    (let N = length s; pos = quantile_pos fl N alpha; idx = quantile_idx fl N alpha in
     cxx_assert ''idx <= pos'' (fl (of_int (int idx)) \<le> pos)
    (let fr = quantile_frac fl N alpha in
     if N \<le> idx then Inl (Undefined_Behaviour ''index out of range'')
     else interpolate fl (s ! idx) (s ! min (idx + 1) (N - 1)) fr)))"

section \<open>Bounds, from the laws of rounding\<close>

text \<open>Up to \<open>2 ^ 53\<close> sorted values whose spread is at most \<open>2 ^ 53\<close> nanoseconds (104 days).\<close>

definition quantile_input :: "int list \<Rightarrow> bool" where
  "quantile_input s \<longleftrightarrow> s \<noteq> [] \<and> sorted s \<and> length s \<le> 2 ^ 53 \<and>
     - (2 ^ 63) \<le> hd s \<and> last s < 2 ^ 63 \<and> last s - hd s \<le> 2 ^ 53"

lemma quantile_input_nth:
  assumes "quantile_input s" and "i < length s"
  shows "hd s \<le> s ! i" "s ! i \<le> last s"
  using assms sorted_nth_mono [of s 0 i] sorted_nth_mono [of s i "length s - 1"]
  by (auto simp: quantile_input_def hd_conv_nth last_conv_nth)

text \<open>
  The value to be reported, said without the code's checks and casts: at position \<open>alpha * (N - 1)\<close> between two
  neighbours of the sorted values, the lower one plus the whole nanoseconds of the fraction of their distance.
\<close>

definition interpolated :: "(rat \<Rightarrow> rat) \<Rightarrow> int list \<Rightarrow> rat \<Rightarrow> int" where
  "interpolated fl s alpha =
     (let pos = fl (alpha * of_int (int (length s) - 1)); k = nat \<lfloor>pos\<rfloor>;
          d = s ! min (k + 1) (length s - 1) - s ! k in
      s ! k + \<lfloor>fl (of_int d * fl (pos - of_nat k))\<rfloor>)"

definition quantile_value :: "int list \<Rightarrow> rat \<Rightarrow> int" where
  "quantile_value xs alpha = interpolated double_round (sort xs) (double_round alpha)"

lemma rat_floor_numeral [simp]: "\<lfloor>numeral a / numeral b :: rat\<rfloor> = numeral a div numeral b"
  using floor_divide_of_int_eq [of "numeral a" "numeral b", where ?'a = rat] by simp

context rounding
begin

lemma quantile_pos_bounds:
  assumes "0 \<le> alpha" and "alpha \<le> 1" and "0 < N" and "N \<le> 2 ^ 53"
  shows "0 \<le> quantile_pos fl N alpha" "quantile_pos fl N alpha \<le> of_int (int (N - 1))"
proof -
  have n: "fl (of_int (int (N - 1))) = of_int (int (N - 1))" using assms by (intro fl_int) auto
  have "0 \<le> alpha * of_int (int (N - 1))" "alpha * of_int (int (N - 1)) \<le> of_int (int (N - 1))"
    using assms mult_right_mono [OF assms(2), of "of_int (int (N - 1))"] by simp_all
  then show "0 \<le> quantile_pos fl N alpha" "quantile_pos fl N alpha \<le> of_int (int (N - 1))"
    unfolding quantile_pos_def n using assms fl_le_int [of "alpha * of_int (int (N - 1))" "int (N - 1)"]
    by (auto intro: fl_nonneg)
qed

lemma quantile_idx_bounds:
  assumes "0 \<le> alpha" and "alpha \<le> 1" and "0 < N" and "N \<le> 2 ^ 53"
  shows "quantile_idx fl N alpha < N"
    "fl (of_int (int (quantile_idx fl N alpha))) = of_int (int (quantile_idx fl N alpha))"
    "of_int (int (quantile_idx fl N alpha)) \<le> quantile_pos fl N alpha"
    "quantile_pos fl N alpha < of_int (int (quantile_idx fl N alpha)) + 1"
proof -
  note p = quantile_pos_bounds [OF assms]
  have i: "int (quantile_idx fl N alpha) = \<lfloor>quantile_pos fl N alpha\<rfloor>"
    using p(1) by (simp add: quantile_idx_def)
  have "\<lfloor>quantile_pos fl N alpha\<rfloor> \<le> int (N - 1)" using p(2) by (simp add: floor_le_iff)
  then show l: "quantile_idx fl N alpha < N" using i assms(3) by linarith
  show "fl (of_int (int (quantile_idx fl N alpha))) = of_int (int (quantile_idx fl N alpha))"
    using l assms(4) by (intro fl_int) auto
  show "of_int (int (quantile_idx fl N alpha)) \<le> quantile_pos fl N alpha"
    "quantile_pos fl N alpha < of_int (int (quantile_idx fl N alpha)) + 1"
    unfolding i by linarith+
qed

lemma quantile_frac_bounds:
  assumes "0 \<le> alpha" and "alpha \<le> 1" and "0 < N" and "N \<le> 2 ^ 53"
  shows "0 \<le> quantile_frac fl N alpha" "quantile_frac fl N alpha \<le> 1"
  unfolding quantile_frac_def quantile_idx_bounds(2) [OF assms]
  using quantile_idx_bounds(3,4) [OF assms]
    fl_le_int [of "quantile_pos fl N alpha - of_int (int (quantile_idx fl N alpha))" 1]
  by (auto intro: fl_nonneg)

lemma interpolate_value:
  assumes "lo \<le> hi" and "hi - lo \<le> 2 ^ 53" and "- (2 ^ 63) \<le> lo" and "hi < 2 ^ 63" and "0 \<le> x" and "x \<le> 1"
  shows "0 \<le> \<lfloor>fl (of_int (hi - lo) * x)\<rfloor>" "\<lfloor>fl (of_int (hi - lo) * x)\<rfloor> \<le> hi - lo"
    "interpolate fl lo hi x = Inr (lo + \<lfloor>fl (of_int (hi - lo) * x)\<rfloor>)"
proof -
  define d where "d = hi - lo"
  have d: "0 \<le> d" "d \<le> 2 ^ 53" using assms(1,2) by (simp_all add: d_def)
  then have fd: "fl (of_int d) = of_int d" by (rule fl_int)
  have "0 \<le> of_int d * x" "of_int d * x \<le> of_int d"
    using assms(5,6) d(1) by (simp_all add: mult_left_le)
  then have b: "0 \<le> fl (of_int d * x)" "fl (of_int d * x) \<le> of_int d"
    using fl_nonneg fl_le_int d(2) by simp_all
  then have b': "0 \<le> \<lfloor>fl (of_int d * x)\<rfloor>" "\<lfloor>fl (of_int d * x)\<rfloor> \<le> d"
    by (simp_all add: floor_le_iff)
  then show "0 \<le> \<lfloor>fl (of_int (hi - lo) * x)\<rfloor>" "\<lfloor>fl (of_int (hi - lo) * x)\<rfloor> \<le> hi - lo"
    by (simp_all only: d_def)
  have "i64 (hi - lo) = Inr d" using d by (simp add: d_def)
  moreover have "duration_cast_double (fl (of_int d * x)) = Inr \<lfloor>fl (of_int d * x)\<rfloor>"
    using b b' d by (simp add: duration_cast_double_def)
  moreover have "i64 (lo + \<lfloor>fl (of_int d * x)\<rfloor>) = Inr (lo + \<lfloor>fl (of_int d * x)\<rfloor>)"
  proof (rule i64_ok)
    have "hi = lo + d" by (simp add: d_def)
    with b' assms(3,4) show "- (2 ^ 63) \<le> lo + \<lfloor>fl (of_int d * x)\<rfloor>" "lo + \<lfloor>fl (of_int d * x)\<rfloor> < 2 ^ 63"
      by linarith+
  qed
  ultimately have "interpolate fl lo hi x = Inr (lo + \<lfloor>fl (of_int d * x)\<rfloor>)" by (simp add: interpolate_def fd)
  then show "interpolate fl lo hi x = Inr (lo + \<lfloor>fl (of_int (hi - lo) * x)\<rfloor>)" by (simp only: d_def)
qed

lemma interpolate_mono:
  assumes "lo \<le> hi" and "hi - lo \<le> 2 ^ 53" and "- (2 ^ 63) \<le> lo" and "hi < 2 ^ 63"
    and "0 \<le> f" and "f \<le> g" and "g \<le> 1"
  shows "\<exists>q r. interpolate fl lo hi f = Inr q \<and> interpolate fl lo hi g = Inr r \<and> lo \<le> q \<and> q \<le> r \<and> r \<le> hi"
proof -
  note step = interpolate_value [OF assms(1-4)]
  have "fl (of_int (hi - lo) * f) \<le> fl (of_int (hi - lo) * g)"
    using assms(1,5,6) by (intro fl_mono mult_left_mono) auto
  then have "\<lfloor>fl (of_int (hi - lo) * f)\<rfloor> \<le> \<lfloor>fl (of_int (hi - lo) * g)\<rfloor>" by (rule floor_mono)
  with step [of f] step [of g] assms(5-7) show ?thesis by auto
qed

text \<open>\<open>Get\<close> is the interpolation at its index and fraction; no assertion fails.\<close>

lemma Get_interpolate:
  assumes s: "quantile_input s" and a: "0 \<le> alpha" "alpha \<le> 1"
  shows "Quantiles_Get fl s alpha = interpolate fl (s ! quantile_idx fl (length s) alpha)
      (s ! min (quantile_idx fl (length s) alpha + 1) (length s - 1)) (quantile_frac fl (length s) alpha)"
proof -
  have N: "0 < length s" "length s \<le> 2 ^ 53" using s by (auto simp: quantile_input_def)
  note b = quantile_idx_bounds [OF a N]
  show ?thesis using a b by (simp add: Quantiles_Get_def Let_def)
qed

lemma neighbours:
  assumes s: "quantile_input s" and "i < length s"
  defines "lo \<equiv> s ! i" and "hi \<equiv> s ! min (i + 1) (length s - 1)"
  shows "lo \<le> hi" "hi - lo \<le> 2 ^ 53" "- (2 ^ 63) \<le> lo" "hi < 2 ^ 63" "hd s \<le> lo" "hi \<le> last s"
proof -
  have m: "min (i + 1) (length s - 1) < length s" "i \<le> min (i + 1) (length s - 1)" using assms(2) by auto
  show b: "hd s \<le> lo" "hi \<le> last s"
    using quantile_input_nth [OF s assms(2)] quantile_input_nth [OF s m(1)] by (simp_all add: lo_def hi_def)
  show "lo \<le> hi" using s m by (auto simp: lo_def hi_def quantile_input_def intro: sorted_nth_mono)
  show "hi - lo \<le> 2 ^ 53" "- (2 ^ 63) \<le> lo" "hi < 2 ^ 63"
    using b s by (simp_all add: quantile_input_def)
qed

lemma Get_value:
  assumes s: "quantile_input s" and a: "0 \<le> alpha" "alpha \<le> 1"
  shows "Quantiles_Get fl s alpha = Inr (interpolated fl s alpha)"
proof -
  have N: "0 < length s" "length s \<le> 2 ^ 53" using s by (auto simp: quantile_input_def)
  note b = quantile_idx_bounds [OF a N] and f = quantile_frac_bounds [OF a N]
  have n: "int (length s - 1) = int (length s) - 1" using N(1) by linarith
  have "fl (of_int (int (length s - 1))) = of_int (int (length s - 1))" using N by (intro fl_int) auto
  then have pos: "quantile_pos fl (length s) alpha = fl (alpha * of_int (int (length s) - 1))"
    by (simp only: quantile_pos_def n)
  have frac: "quantile_frac fl (length s) alpha =
      fl (quantile_pos fl (length s) alpha - of_nat (quantile_idx fl (length s) alpha))"
    using b(2) by (simp add: quantile_frac_def)
  show ?thesis
    unfolding Get_interpolate [OF s a] interpolate_value(3) [OF neighbours(1-4) [OF s b(1)] f]
    by (simp add: interpolated_def Let_def frac pos quantile_idx_def)
qed

lemma Get_between:
  assumes s: "quantile_input s" and a: "0 \<le> alpha" "alpha \<le> 1"
  shows "\<exists>q. Quantiles_Get fl s alpha = Inr q \<and> s ! quantile_idx fl (length s) alpha \<le> q \<and>
    q \<le> s ! min (quantile_idx fl (length s) alpha + 1) (length s - 1)"
proof -
  have N: "0 < length s" "length s \<le> 2 ^ 53" using s by (auto simp: quantile_input_def)
  note b = quantile_idx_bounds [OF a N] and f = quantile_frac_bounds [OF a N]
  show ?thesis
    unfolding Get_interpolate [OF s a]
    using interpolate_mono [OF neighbours(1-4) [OF s b(1)] f(1) order_refl f(2)]
    by (elim exE conjE) (intro exI conjI, assumption+, rule order_trans)
qed

lemma Get_bounds:
  assumes s: "quantile_input s" and a: "0 \<le> alpha" "alpha \<le> 1"
  shows "\<exists>q. Quantiles_Get fl s alpha = Inr q \<and> hd s \<le> q \<and> q \<le> last s"
proof -
  have N: "0 < length s" "length s \<le> 2 ^ 53" using s by (auto simp: quantile_input_def)
  from Get_between [OF s a] neighbours(5,6) [OF s quantile_idx_bounds(1) [OF a N]]
  show ?thesis by fastforce
qed

lemma quantile_pos_mono:
  assumes "0 \<le> alpha" and "alpha \<le> beta" and "0 < N" and "N \<le> 2 ^ 53"
  shows "quantile_pos fl N alpha \<le> quantile_pos fl N beta"
proof -
  have "fl (of_int (int (N - 1))) = of_int (int (N - 1))" using assms by (intro fl_int) auto
  then show ?thesis
    unfolding quantile_pos_def using assms(1,2) by (auto intro!: fl_mono mult_right_mono)
qed

lemma Get_mono:
  assumes s: "quantile_input s" and a: "0 \<le> alpha" "alpha \<le> beta" "beta \<le> 1"
  shows "\<exists>q r. Quantiles_Get fl s alpha = Inr q \<and> Quantiles_Get fl s beta = Inr r \<and> q \<le> r"
proof -
  let ?N = "length s"
  have N: "0 < ?N" "?N \<le> 2 ^ 53" using s by (auto simp: quantile_input_def)
  have ab: "alpha \<le> 1" "0 \<le> beta" using a by simp_all
  let ?i = "quantile_idx fl ?N alpha" and ?j = "quantile_idx fl ?N beta"
  note ia = quantile_idx_bounds [OF a(1) ab(1) N] and ib = quantile_idx_bounds [OF ab(2) a(3) N]
  have p: "quantile_pos fl ?N alpha \<le> quantile_pos fl ?N beta" using quantile_pos_mono [OF a(1,2) N] .
  then have ij: "?i \<le> ?j" by (simp add: quantile_idx_def floor_mono nat_mono)
  show ?thesis
  proof (cases "?i = ?j")
    case True
    have "quantile_frac fl ?N alpha \<le> quantile_frac fl ?N beta"
      unfolding quantile_frac_def ia(2) ib(2) True using p ib(3) ia(3) True by (intro fl_mono) auto
    then show ?thesis
      unfolding Get_interpolate [OF s a(1) ab(1)] Get_interpolate [OF s ab(2) a(3)] True
      using interpolate_mono [OF neighbours(1-4) [OF s ib(1)] quantile_frac_bounds(1) [OF a(1) ab(1) N]
          _ quantile_frac_bounds(2) [OF ab(2) a(3) N]] by blast
  next
    case False
    obtain q where q: "Quantiles_Get fl s alpha = Inr q" "q \<le> s ! min (?i + 1) (?N - 1)"
      using Get_between [OF s a(1) ab(1)] by blast
    obtain r where r: "Quantiles_Get fl s beta = Inr r" "s ! ?j \<le> r"
      using Get_between [OF s ab(2) a(3)] by blast
    have "s ! min (?i + 1) (?N - 1) \<le> s ! ?j"
      using s False ij ib(1) by (intro sorted_nth_mono) (auto simp: quantile_input_def)
    with q r show ?thesis by fastforce
  qed
qed

text \<open>When \<open>alpha\<close> points exactly at a value, the result is that value.\<close>

lemma Get_exact:
  assumes s: "quantile_input s" and a: "0 \<le> alpha" "alpha \<le> 1"
    and k: "alpha * of_int (int (length s - 1)) = of_int (int k)"
  shows "Quantiles_Get fl s alpha = Inr (s ! k)"
proof -
  let ?N = "length s"
  have N: "0 < ?N" "?N \<le> 2 ^ 53" using s by (auto simp: quantile_input_def)
  have n: "fl (of_int (int (?N - 1))) = of_int (int (?N - 1))" using N by (intro fl_int) auto
  have "alpha * of_int (int (?N - 1)) \<le> 1 * of_int (int (?N - 1))" using a(2) by (intro mult_right_mono) auto
  then have kN: "k \<le> ?N - 1" unfolding k by simp
  have p: "quantile_pos fl ?N alpha = of_int (int k)"
    unfolding quantile_pos_def n k using kN N by (intro fl_int) auto
  have i: "quantile_idx fl ?N alpha = k" by (simp add: quantile_idx_def p)
  have "fl (of_int (int k)) = of_int (int k)" using kN N by (intro fl_int) auto
  moreover have z: "fl 0 = 0" using fl_int [of 0] by simp
  ultimately have f: "quantile_frac fl ?N alpha = 0" by (simp add: quantile_frac_def p i)
  note nb = neighbours(1-4) [OF s, of k]
  have lt: "k < ?N" using kN N(1) by linarith
  have "i64 (s ! min (k + 1) (?N - 1) - s ! k) = Inr (s ! min (k + 1) (?N - 1) - s ! k)"
    using nb(1,2) [OF lt] by (intro i64_ok) auto
  moreover have "i64 (s ! k) = Inr (s ! k)" using nb [OF lt] by (intro i64_ok) auto
  ultimately show ?thesis
    unfolding Get_interpolate [OF s a] i f by (simp add: interpolate_def z duration_cast_double_def)
qed

end

section \<open>Properties\<close>

text \<open>The quantiles of unsorted shipping times: the constructor sorts them.\<close>

lemma sort_quantile_input:
  assumes "xs \<noteq> []" and "length xs \<le> 2 ^ 53" and "\<forall>x \<in> set xs. \<forall>y \<in> set xs. x - y \<le> 2 ^ 53"
    and "\<forall>x \<in> set xs. - (2 ^ 63) \<le> x \<and> x < 2 ^ 63"
  shows "quantile_input (sort xs)" "hd (sort xs) = Min (set xs)" "last (sort xs) = Max (set xs)"
proof -
  have ne: "sort xs \<noteq> []" using assms(1) by (metis length_0_conv length_sort)
  have m: "hd (sort xs) \<in> set xs" "last (sort xs) \<in> set xs"
    using hd_in_set [OF ne] last_in_set [OF ne] by simp_all
  with ne assms show "quantile_input (sort xs)" by (simp add: quantile_input_def)
  have lo: "hd (sort xs) \<le> x" and hi: "x \<le> last (sort xs)" if x: "x \<in> set xs" for x
  proof -
    from x have "x \<in> set (sort xs)" by simp
    then obtain i where i: "i < length (sort xs)" "x = sort xs ! i" by (metis in_set_conv_nth)
    with quantile_input_nth [OF \<open>quantile_input (sort xs)\<close> i(1)]
    show "hd (sort xs) \<le> x" "x \<le> last (sort xs)" by simp_all
  qed
  show "hd (sort xs) = Min (set xs)" "last (sort xs) = Max (set xs)"
    using m lo hi by (auto intro!: Min_eqI [symmetric] Max_eqI [symmetric])
qed

definition shippings_ok :: "int list \<Rightarrow> bool" where
  "shippings_ok xs \<longleftrightarrow> xs \<noteq> [] \<and> length xs \<le> 2 ^ 53 \<and>
     (\<forall>x \<in> set xs. \<forall>y \<in> set xs. x - y \<le> 2 ^ 53) \<and> (\<forall>x \<in> set xs. - (2 ^ 63) \<le> x \<and> x < 2 ^ 63)"

lemma Quantiles_ok: "xs \<noteq> [] \<Longrightarrow> Quantiles xs = Inr (sort xs)"
  by (simp add: Quantiles_def)

lemma Get_quantile_value:
  assumes "shippings_ok xs" and "0 \<le> alpha" and "alpha \<le> 1"
  shows "Quantiles_Get double_round (sort xs) (double_round alpha) = Inr (quantile_value xs alpha)"
  unfolding quantile_value_def using assms
  by (intro double.Get_value sort_quantile_input(1) double.fl_nonneg double.fl_le_1) (simp_all add: shippings_ok_def)

lemma quantile_value_bounds:
  assumes "shippings_ok xs" and "0 \<le> alpha" and "alpha \<le> 1"
  shows "Min (set xs) \<le> quantile_value xs alpha" "quantile_value xs alpha \<le> Max (set xs)"
proof -
  have "quantile_input (sort xs)" using assms(1) by (intro sort_quantile_input(1)) (simp_all add: shippings_ok_def)
  from double.Get_bounds [OF this double.fl_nonneg [OF assms(2)] double.fl_le_1 [OF assms(2,3)]]
  show "Min (set xs) \<le> quantile_value xs alpha" "quantile_value xs alpha \<le> Max (set xs)"
    using Get_quantile_value [OF assms] sort_quantile_input(2,3) [of xs] assms(1) by (simp_all add: shippings_ok_def)
qed

lemma quantile_value_mono:
  assumes "shippings_ok xs" and "0 \<le> alpha" and "alpha \<le> beta" and "beta \<le> 1"
  shows "quantile_value xs alpha \<le> quantile_value xs beta"
proof -
  have "quantile_input (sort xs)" using assms(1) by (intro sort_quantile_input(1)) (simp_all add: shippings_ok_def)
  moreover have b: "0 \<le> beta" "alpha \<le> 1" using assms by simp_all
  ultimately show ?thesis
    using double.Get_mono [OF _ double.fl_nonneg [OF assms(2)] double.fl_mono [OF assms(2,3)] double.fl_le_1 [OF b(1) assms(4)]]
      Get_quantile_value [OF assms(1,2) b(2)] Get_quantile_value [OF assms(1) b(1) assms(4)] by fastforce
qed

text \<open>For every \<open>alpha\<close> from 0 to 1, in the arithmetic of \<open>double\<close>, the quantile of at least one
  value is computed without a failing assertion or an access outside of the vector and lies
  between the smallest and the largest value.\<close>

theorem quantile_bounds:
  assumes "shippings_ok xs" and "0 \<le> alpha" and "alpha \<le> 1"
  shows "\<exists>q. rbind (Quantiles xs) (\<lambda>s. Quantiles_Get double_round s alpha) = Inr q \<and>
    Min (set xs) \<le> q \<and> q \<le> Max (set xs)"
  using assms double.Get_bounds [OF sort_quantile_input(1), of xs alpha] sort_quantile_input(2,3) [of xs]
  by (simp add: shippings_ok_def Quantiles_ok)

text \<open>A larger \<open>alpha\<close> never gives a smaller quantile.\<close>

theorem quantile_monotone:
  assumes "shippings_ok xs" and "0 \<le> alpha" and "alpha \<le> beta" and "beta \<le> 1"
  shows "\<exists>q r. rbind (Quantiles xs) (\<lambda>s. Quantiles_Get double_round s alpha) = Inr q \<and>
    rbind (Quantiles xs) (\<lambda>s. Quantiles_Get double_round s beta) = Inr r \<and> q \<le> r"
  using assms double.Get_mono [OF sort_quantile_input(1), of xs alpha beta]
  by (simp add: shippings_ok_def Quantiles_ok)

text \<open>Where \<open>alpha\<close> times the number of steps is a whole number \<open>k\<close>, the quantile is the \<open>k\<close>-th
  smallest value, without any rounding error; 0 gives the smallest and 1 the largest.\<close>

theorem quantile_exact:
  assumes "shippings_ok xs" and "0 \<le> alpha" and "alpha \<le> 1"
    and "alpha * of_int (int (length xs - 1)) = of_int (int k)"
  shows "rbind (Quantiles xs) (\<lambda>s. Quantiles_Get double_round s alpha) = Inr (sort xs ! k)"
  using assms double.Get_exact [OF sort_quantile_input(1), of xs alpha k]
  by (simp add: shippings_ok_def Quantiles_ok)

lemma shippings_example: "shippings_ok [300, 100, 500, 200, 400]"
  by (simp add: shippings_ok_def)

theorem quantile_bounds_witness:
  "\<exists>q. rbind (Quantiles [300, 100, 500, 200, 400]) (\<lambda>s. Quantiles_Get double_round s (9999 / 10000)) = Inr q \<and>
    100 \<le> q \<and> q \<le> 500"
  using quantile_bounds [OF shippings_example, of "9999 / 10000"] by simp

theorem quantile_monotone_witness:
  "\<exists>q r. rbind (Quantiles [300, 100, 500, 200, 400]) (\<lambda>s. Quantiles_Get double_round s (1 / 10)) = Inr q \<and>
    rbind (Quantiles [300, 100, 500, 200, 400]) (\<lambda>s. Quantiles_Get double_round s (9 / 10)) = Inr r \<and> q \<le> r"
  using quantile_monotone [OF shippings_example, of "1 / 10" "9 / 10"] by simp

theorem quantile_exact_witness:
  "rbind (Quantiles [300, 100, 500, 200, 400]) (\<lambda>s. Quantiles_Get double_round s (3 / 4)) = Inr 400"
  using quantile_exact [OF shippings_example, of "3 / 4" 3] by simp

end
