(* ===== verification/Statistics.thy ===== *)
theory Statistics
  imports Quantiles Measurer Text
begin

text \<open>
  The report (\<open>src/src/statistics\<close>): \<open>Process\<close> pairs the ticks of producer and consumer, and
  \<open>ProcessInternal\<close> prints the total time and five quantiles on a stream whose locale it changes, so that the
  digits of numbers come grouped by three.  An error value next to the stream says that the program stopped there.
\<close>

section \<open>Standard output\<close>

text \<open>\<open>std::numpunct\<close>: the sizes of the groups of digits, from the right, and what separates them.\<close>

record numpunct =
  grouping :: string
  thousands_sep :: char

text \<open>\<open>PrettyNumpunct\<close>\<close>

definition do_grouping :: string where
  "do_grouping = [CHR 0x03]"

definition do_thousands_sep :: char where
  "do_thousands_sep = CHR 0x27"

definition PrettyNumpunct :: numpunct where
  "PrettyNumpunct = \<lparr>grouping = do_grouping, thousands_sep = do_thousands_sep\<rparr>"

text \<open>
  How \<open>std::num_put\<close> groups digits, given in reverse: every character of the grouping is the size of a group,
  the last one of all further groups; 0, a negative value and \<open>CHAR_MAX\<close> end the grouping.
\<close>

definition no_group :: "nat \<Rightarrow> bool" where
  "no_group g \<longleftrightarrow> g = 0 \<or> 127 \<le> g"

function group_digits :: "char \<Rightarrow> nat list \<Rightarrow> char list \<Rightarrow> char list" where
  "group_digits sep [] ds = ds"
| "group_digits sep (g # gs) ds =
     (if no_group g \<or> length ds \<le> g then ds
      else take g ds @ sep # group_digits sep (if gs = [] then [g] else gs) (drop g ds))"
  by pat_completeness auto
termination
  by (relation "measure (\<lambda>(sep, gs, ds). length ds)") (auto simp: no_group_def)

definition int_text :: "numpunct \<Rightarrow> int \<Rightarrow> string" where
  "int_text p n = (if n < 0 then ''-'' else []) @
     rev (group_digits (thousands_sep p) (map of_char (grouping p)) (map digit_char (digits_rev (nat \<bar>n\<bar>))))"

text \<open>
  An output stream: what was printed, and its format.  Integers are printed at width 0, where neither adjustment
  nor the format of floating-point numbers has an effect.  The classic locale has no groups.
\<close>

record ostream =
  printed :: string
  punct :: numpunct
  adjusted_left :: bool
  floats_fixed :: bool
  precision :: nat

definition standard_output :: ostream where
  "standard_output = \<lparr>printed = [], punct = \<lparr>grouping = [], thousands_sep = CHR 0x2C\<rparr>,
     adjusted_left = False, floats_fixed = False, precision = 6\<rparr>"

definition put_text :: "string \<Rightarrow> ostream \<Rightarrow> ostream" where
  "put_text s os = os\<lparr>printed := printed os @ s\<rparr>"

definition put_int :: "int \<Rightarrow> ostream \<Rightarrow> ostream" where
  "put_int n os = put_text (int_text (punct os) n) os"

definition imbue :: "numpunct \<Rightarrow> ostream \<Rightarrow> ostream" where
  "imbue p os = os\<lparr>punct := p\<rparr>"

section \<open>The report\<close>

text \<open>\<open>std::chrono::duration_cast\<close> from nanoseconds to milliseconds truncates.\<close>

definition to_milliseconds :: "int \<Rightarrow> int" where
  "to_milliseconds t = (if 0 \<le> t then t div 1000000 else - ((- t) div 1000000))"

text \<open>The left operand of \<open><<\<close> is evaluated first: the name is out when \<open>Get\<close> starts.\<close>

fun put_quantiles :: "(rat \<Rightarrow> rat) \<Rightarrow> int list \<Rightarrow> (string \<times> rat) list \<Rightarrow> ostream \<Rightarrow> ostream \<times> unit result" where
  "put_quantiles fl s [] os = (os, Inr ())"
| "put_quantiles fl s ((name, alpha) # qs) os =
     (let os = put_text (name @ '' = '') os in
      case Quantiles_Get fl s (fl alpha) of
        Inl e \<Rightarrow> (os, Inl e)
      | Inr q \<Rightarrow> put_quantiles fl s qs (put_text (''ns'' @ endl) (put_int q os)))"

definition reported_quantiles :: "(string \<times> rat) list" where
  "reported_quantiles = [(''0.9999'', 9999 / 10000), (''0.999'', 999 / 1000), (''0.99'', 99 / 100),
     (''0.95'', 95 / 100), (''0.5'', 1 / 2)]"

definition ProcessInternal :: "(rat \<Rightarrow> rat) \<Rightarrow> int list \<Rightarrow> int \<Rightarrow> ostream \<Rightarrow> ostream \<times> unit result" where
  "ProcessInternal fl shippings total_time cout =
     (let cout = cout\<lparr>adjusted_left := True, floats_fixed := True, precision := 9\<rparr>;
          cout = imbue PrettyNumpunct cout;
          cout = put_text ''Total time: '' cout;
          cout = put_int (to_milliseconds total_time) cout;
          cout = put_text (''ms'' @ endl) cout in
      case Quantiles shippings of
        Inl e \<Rightarrow> (cout, Inl e)
      | Inr s \<Rightarrow> put_quantiles fl s reported_quantiles cout)"

section \<open>Pairing the ticks\<close>

definition tick_difference :: "time_point \<Rightarrow> time_point \<Rightarrow> int result" where
  "tick_difference t u = i64 (sint (time_since_epoch t) - sint (time_since_epoch u))"

definition shipping_body ::
  "time_point \<times> time_point \<Rightarrow> int list \<Rightarrow> int list result option" where
  "shipping_body x shippings =
     Some (rbind (tick_difference (snd x) (fst x)) (\<lambda>d. Inr (shippings @ [d])))"

text \<open>The result is what is printed, once printing starts; what the analyzer printed before has left the format of the
  stream alone.  \<open>shippings.reserve\<close> cannot exceed the limit the ticks' own vectors keep.\<close>

definition Process :: "(rat \<Rightarrow> rat) \<Rightarrow> measurer \<Rightarrow> measurer \<Rightarrow> (string \<times> unit result) result option" where
  "Process fl producer consumer =
     (if Count producer \<noteq> Count consumer
      then Some (Inl (Assert_Failed ''producer.Count() == consumer.Count()''))
      else obind (cursor_loop (both_have_next Measurer_HasNext Measurer_HasNext)
                    (both_next Measurer_Next Measurer_Next) shipping_body
                    (both_to_first Measurer_ToFirst Measurer_ToFirst (producer, consumer)) [])
             (\<lambda>((producer', consumer'), shippings).
              Some (rbind (LastTick consumer') (\<lambda>t.
              rbind (FirstTick producer') (\<lambda>u.
              rbind (tick_difference t u) (\<lambda>total.
              Inr (case ProcessInternal fl shippings total standard_output of
                (cout, r) \<Rightarrow> (printed cout, r))))))))"

interpretation measurers: two_cursors
  vec_content fst vec_at Measurer_ToFirst Measurer_HasNext Measurer_Next
  vec_content fst vec_at Measurer_ToFirst Measurer_HasNext Measurer_Next
  by unfold_locales

section \<open>Digits\<close>

lemma digit_not_sep: "d < 10 \<Longrightarrow> digit_char d \<noteq> do_thousands_sep"
  by (rule digit_char_neq) (simp_all add: do_thousands_sep_def)

lemma is_digit_char: "d < 10 \<Longrightarrow> is_digit (digit_char d)"
  using of_digit_char [of d] by (simp add: is_digit_def)

text \<open>Grouping by three, one group after the other.\<close>

fun group_rev :: "char list \<Rightarrow> char list" where
  "group_rev (a # b # c # d # ds) = a # b # c # do_thousands_sep # group_rev (d # ds)"
| "group_rev ds = ds"

lemma group_digits_3: "group_digits do_thousands_sep [3] ds = group_rev ds"
  by (induction ds rule: group_rev.induct)
    (simp_all add: no_group_def numeral_3_eq_3 del: group_digits.simps, simp_all add: no_group_def)

lemma pretty_text: "int_text PrettyNumpunct n =
    (if n < 0 then ''-'' else []) @ rev (group_rev (map digit_char (digits_rev (nat \<bar>n\<bar>))))"
  by (simp add: int_text_def PrettyNumpunct_def do_grouping_def group_digits_3 [unfolded numeral_3_eq_3] del: group_digits.simps)

text \<open>Reading a number: the separators are skipped.\<close>

definition get_int :: "string \<Rightarrow> int" where
  "get_int s = (let neg = (s \<noteq> [] \<and> hd s = CHR 0x2D);
                    ds = filter (\<lambda>c. c \<noteq> CHR 0x27) (if neg then tl s else s);
                    n = int (digits_value (map char_digit (rev ds)))
                in if neg then - n else n)"

text \<open>A number whose digits are in groups of three: from the right, every fourth character is an apostrophe and every
  other one a digit, the first one among them.\<close>

definition grouped_by_three :: "string \<Rightarrow> bool" where
  "grouped_by_three s \<longleftrightarrow>
     (let ds = rev (if s \<noteq> [] \<and> hd s = CHR 0x2D then tl s else s) in
      ds \<noteq> [] \<and> is_digit (last ds) \<and> (\<forall>i < length ds. if i mod 4 = 3 then ds ! i = CHR 0x27 else is_digit (ds ! i)))"

lemma sep_not_digit: "\<not> is_digit do_thousands_sep"
  by (simp add: is_digit_def do_thousands_sep_def)

lemma filter_group_rev:
  "do_thousands_sep \<notin> set cs \<Longrightarrow> filter (\<lambda>c. c \<noteq> do_thousands_sep) (group_rev cs) = cs"
  by (induction cs rule: group_rev.induct) auto

lemma group_rev_Nil_iff [simp]: "group_rev cs = [] \<longleftrightarrow> cs = []"
  by (cases cs rule: group_rev.cases) auto

lemma set_group_rev: "set (group_rev cs) \<subseteq> insert do_thousands_sep (set cs)"
  by (induction cs rule: group_rev.induct) auto

lemma last_group_rev: "last (group_rev cs) = last cs"
  by (induction cs rule: group_rev.induct) auto

text \<open>From the right, every fourth character is a separator and the others are digits.\<close>

lemma group_rev_nth:
  "do_thousands_sep \<notin> set cs \<Longrightarrow> i < length (group_rev cs) \<Longrightarrow>
   group_rev cs ! i = do_thousands_sep \<longleftrightarrow> i mod 4 = 3"
proof (induction cs arbitrary: i rule: group_rev.induct)
  case (1 a b c d ds)
  consider "i = 0" | "i = Suc 0" | "i = Suc (Suc 0)" | "i = Suc (Suc (Suc 0))"
    | j where "i = Suc (Suc (Suc (Suc j)))"
    by (metis not0_implies_Suc)
  then show ?case
  proof cases
    case (5 j)
    have "Suc (Suc (Suc (Suc j))) = j + 4" by simp
    then have "Suc (Suc (Suc (Suc j))) mod 4 = j mod 4" by (simp only: mod_add_self2)
    then show ?thesis using 1(1) [of j] 1(2,3) by (simp add: 5)
  qed (use 1(2) in auto)
qed (auto simp: nth_Cons' split: if_splits)

definition digit_chars :: "nat \<Rightarrow> char list" where
  "digit_chars n = map digit_char (digits_rev n)"

lemma digit_chars: "c \<in> set (digit_chars n) \<Longrightarrow> is_digit c"
  using digits_small [of _ n] is_digit_char by (auto simp: digit_chars_def)

lemma digit_chars_sep: "do_thousands_sep \<notin> set (digit_chars n)"
  using digit_chars sep_not_digit by blast

lemma digit_chars_not_Nil [simp]: "digit_chars n \<noteq> []"
  by (simp add: digit_chars_def)

lemma grouped_chars:
  assumes "c \<in> set (group_rev (digit_chars n))"
  shows "is_digit c \<or> c = do_thousands_sep"
  using assms set_group_rev digit_chars by blast

lemma hd_put_digits: "hd (rev (group_rev (digit_chars n))) \<noteq> CHR 0x2D"
proof -
  have "hd (rev (group_rev (digit_chars n))) \<in> set (rev (group_rev (digit_chars n)))" by (intro hd_in_set) simp
  then show ?thesis using grouped_chars not_digit_minus by (fastforce simp: do_thousands_sep_def)
qed

lemmas pretty = pretty_text [folded digit_chars_def]

lemma unsigned_pretty:
  "(if int_text PrettyNumpunct n \<noteq> [] \<and> hd (int_text PrettyNumpunct n) = CHR 0x2D
    then tl (int_text PrettyNumpunct n) else int_text PrettyNumpunct n) = rev (group_rev (digit_chars (nat \<bar>n\<bar>)))"
  using hd_put_digits [of "nat n"] by (simp add: pretty)

lemma get_int_text: "get_int (int_text PrettyNumpunct n) = n"
proof -
  have "filter (\<lambda>c. c \<noteq> CHR 0x27) (rev (group_rev (digit_chars (nat \<bar>n\<bar>)))) = rev (digit_chars (nat \<bar>n\<bar>))"
    using filter_group_rev [OF digit_chars_sep, unfolded do_thousands_sep_def] by (simp flip: rev_filter)
  moreover have "(int_text PrettyNumpunct n \<noteq> [] \<and> hd (int_text PrettyNumpunct n) = CHR 0x2D) \<longleftrightarrow> n < 0"
    using hd_put_digits [of "nat n"] by (auto simp: pretty)
  moreover have "map char_digit (rev (rev (digit_chars (nat \<bar>n\<bar>)))) = digits_rev (nat \<bar>n\<bar>)"
    by (simp add: digit_chars_def map_char_digit)
  ultimately show ?thesis
    unfolding get_int_def Let_def unsigned_pretty by (simp only: digits_value_digits) simp
qed

lemma grouped_text: "grouped_by_three (int_text PrettyNumpunct n)"
proof -
  let ?g = "group_rev (digit_chars (nat \<bar>n\<bar>))"
  have "if i mod 4 = 3 then ?g ! i = CHR 0x27 else is_digit (?g ! i)" if "i < length ?g" for i
    using group_rev_nth [OF digit_chars_sep that] grouped_chars [OF nth_mem [OF that]] by (auto simp: do_thousands_sep_def)
  moreover have "is_digit (last ?g)"
    unfolding last_group_rev by (intro digit_chars [of _ "nat \<bar>n\<bar>"] last_in_set) simp
  ultimately show ?thesis unfolding grouped_by_three_def unsigned_pretty by simp
qed

section \<open>What Process reports\<close>

text \<open>The shipping time of each message: tick of the consumer minus tick of the producer.\<close>

definition shipping_times :: "time_point list \<Rightarrow> time_point list \<Rightarrow> int list" where
  "shipping_times ps cs = map2 (\<lambda>p c. sint (time_since_epoch c) - sint (time_since_epoch p)) ps cs"

text \<open>Clock readings whose differences are representable.\<close>

definition ticks_ok :: "time_point list \<Rightarrow> time_point list \<Rightarrow> bool" where
  "ticks_ok ps cs \<longleftrightarrow> (\<forall>p \<in> set ps. \<forall>c \<in> set cs.
     \<bar>sint (time_since_epoch c) - sint (time_since_epoch p)\<bar> < 2 ^ 62)"

lemma ofold_shipping:
  assumes "\<forall>(p, c) \<in> set xs. \<bar>sint (time_since_epoch c) - sint (time_since_epoch p)\<bar> < 2 ^ 62"
  shows "ofold shipping_body xs acc = Some (Inr (acc @
    map (\<lambda>(p, c). sint (time_since_epoch c) - sint (time_since_epoch p)) xs))"
  using assms
proof (induction xs arbitrary: acc)
  case (Cons x xs)
  then have "tick_difference (snd x) (fst x) =
      Inr (sint (time_since_epoch (snd x)) - sint (time_since_epoch (fst x)))"
    unfolding tick_difference_def by (intro i64_ok) auto
  with Cons show ?case by (simp add: shipping_body_def case_prod_unfold)
qed simp

lemma Process_pairs:
  assumes "length (elems p) = length (elems c)" and ok: "ticks_ok (elems p) (elems c)" and ne: "elems p \<noteq> []"
  shows "Process fl p c = Some (Inr (apfst printed (ProcessInternal fl (shipping_times (elems p) (elems c))
    (sint (time_since_epoch (last (elems c))) - sint (time_since_epoch (hd (elems p)))) standard_output)))"
proof -
  let ?ps = "elems p" and ?cs = "elems c"
  have pairs: "\<forall>(p, c) \<in> set (zip ?ps ?cs). \<bar>sint (time_since_epoch c) - sint (time_since_epoch p)\<bar> < 2 ^ 62"
    using ok by (auto simp: ticks_ok_def dest: set_zip_leftD set_zip_rightD)
  obtain pc where pc: "cursor_loop (both_have_next Measurer_HasNext Measurer_HasNext)
      (both_next Measurer_Next Measurer_Next) shipping_body
      (both_to_first Measurer_ToFirst Measurer_ToFirst (p, c)) [] =
      obind (ofold shipping_body (zip ?ps ?cs) []) (\<lambda>s'. Some (Inr (pc, s')))"
    "elems (fst pc) = ?ps" "elems (snd pc) = ?cs"
    by (rule measurers.pair.loop_all [of shipping_body "(p, c)" "[]"]) (simp add: vec_content_def)
  have "?cs \<noteq> []" using assms(1) ne by auto
  then have "hd ?ps \<in> set ?ps" "last ?cs \<in> set ?cs" using ne by simp_all
  with ok have "\<bar>sint (time_since_epoch (last ?cs)) - sint (time_since_epoch (hd ?ps))\<bar> < 2 ^ 62"
    unfolding ticks_ok_def by blast
  then have total: "tick_difference (last ?cs) (hd ?ps) =
      Inr (sint (time_since_epoch (last ?cs)) - sint (time_since_epoch (hd ?ps)))"
    unfolding tick_difference_def by (intro i64_ok) auto
  show ?thesis
    using assms(1) ne \<open>?cs \<noteq> []\<close> pc(2,3)
    by (cases pc) (simp add: Process_def Count_def pc(1) ofold_shipping [OF pairs] LastTick_def FirstTick_def
        total shipping_times_def apfst_def map_prod_def)
qed

text \<open>The lines of the report.\<close>

definition quantile_line :: "string \<Rightarrow> int \<Rightarrow> string" where
  "quantile_line name q = name @ '' = '' @ int_text PrettyNumpunct q @ ''ns'' @ endl"

definition header_line :: "int \<Rightarrow> string" where
  "header_line t = ''Total time: '' @ int_text PrettyNumpunct (to_milliseconds t) @ ''ms'' @ endl"

lemma put_quantiles_ok:
  assumes "\<forall>(name, alpha) \<in> set nas. Quantiles_Get fl s (fl alpha) = Inr (v alpha)" and "punct os = PrettyNumpunct"
  shows "put_quantiles fl s nas os =
    (put_text (concat (map (\<lambda>(name, alpha). quantile_line name (v alpha)) nas)) os, Inr ())"
  using assms
  by (induction nas arbitrary: os) (auto simp: quantile_line_def put_text_def put_int_def Let_def)

lemma ProcessInternal_text:
  assumes "shippings_ok xs"
  shows "ProcessInternal double_round xs t os =
    (os\<lparr>printed := printed os @ header_line t @
         concat (map (\<lambda>(name, alpha). quantile_line name (quantile_value xs alpha)) reported_quantiles),
        punct := PrettyNumpunct, adjusted_left := True, floats_fixed := True, precision := 9\<rparr>, Inr ())"
proof -
  have "xs \<noteq> []" using assms by (simp add: shippings_ok_def)
  moreover have "\<forall>(name, alpha) \<in> set reported_quantiles.
      Quantiles_Get double_round (sort xs) (double_round alpha) = Inr (quantile_value xs alpha)"
    using Get_quantile_value [OF assms] by (simp add: reported_quantiles_def)
  ultimately show ?thesis
    by (simp add: ProcessInternal_def Quantiles_ok put_quantiles_ok put_text_def put_int_def imbue_def header_line_def)
qed

text \<open>The reported quantiles go down, because their \<open>alpha\<close>s do.\<close>

lemma reported_order:
  assumes "shippings_ok xs"
  defines "qs \<equiv> map (quantile_value xs) [9999 / 10000, 999 / 1000, 99 / 100, 95 / 100, 1 / 2]"
  shows "sorted_wrt (\<ge>) qs" "\<forall>q \<in> set qs. Min (set xs) \<le> q \<and> q \<le> Max (set xs)"
  using quantile_value_bounds [OF assms(1)] quantile_value_mono [OF assms(1)] by (simp_all add: qs_def)

lemma Process_text:
  assumes "length (elems p) = length (elems c)" and "elems p \<noteq> []" and "ticks_ok (elems p) (elems c)"
    and "shippings_ok (shipping_times (elems p) (elems c))"
  shows "\<exists>qs. Process double_round p c = Some (Inr (
      header_line (sint (time_since_epoch (last (elems c))) - sint (time_since_epoch (hd (elems p)))) @
      concat (map2 quantile_line (map fst reported_quantiles) qs), Inr ())) \<and>
    qs = map (quantile_value (shipping_times (elems p) (elems c)))
      [9999 / 10000, 999 / 1000, 99 / 100, 95 / 100, 1 / 2] \<and>
    length qs = 5 \<and> sorted_wrt (\<ge>) qs \<and>
    (\<forall>q \<in> set qs. Min (set (shipping_times (elems p) (elems c))) \<le> q \<and>
      q \<le> Max (set (shipping_times (elems p) (elems c))))"
proof -
  let ?qs = "map (quantile_value (shipping_times (elems p) (elems c))) [9999 / 10000, 999 / 1000, 99 / 100, 95 / 100, 1 / 2]"
  have "Process double_round p c = Some (Inr (
      header_line (sint (time_since_epoch (last (elems c))) - sint (time_since_epoch (hd (elems p)))) @
      concat (map2 quantile_line (map fst reported_quantiles) ?qs), Inr ()))"
    by (simp add: Process_pairs [OF assms(1,3,2)] ProcessInternal_text [OF assms(4)] standard_output_def reported_quantiles_def)
  moreover have "length ?qs = 5" by simp
  ultimately show ?thesis using reported_order [OF assms(4)] by blast
qed

section \<open>Reading the report\<close>

primrec lines_of :: "string \<Rightarrow> string list" where
  "lines_of [] = []"
| "lines_of (c # cs) =
     (if c = CHR 0x0A then [] # lines_of cs
      else case lines_of cs of [] \<Rightarrow> [[c]] | l # ls \<Rightarrow> (c # l) # ls)"

text \<open>A line is a label, up to the last space, a number and a unit.\<close>

definition read_line :: "string \<Rightarrow> string \<times> string \<times> string" where
  "read_line l =
     (let label = rev (dropWhile (\<lambda>c. c \<noteq> CHR 0x20) (rev l)); rest = drop (length label) l;
          numeric = (\<lambda>c. is_digit c \<or> c = CHR 0x27 \<or> c = CHR 0x2D) in
      (label, takeWhile numeric rest, dropWhile numeric rest))"

lemma lines_of_append: "CHR 0x0A \<notin> set l \<Longrightarrow> lines_of (l @ CHR 0x0A # t) = l # lines_of t"
  by (induction l) auto

lemma pretty_chars:
  assumes "c \<in> set (int_text PrettyNumpunct n)"
  shows "is_digit c \<or> c = CHR 0x27 \<or> c = CHR 0x2D"
  using assms grouped_chars by (auto simp: pretty do_thousands_sep_def split: if_splits)

lemma not_in_pretty:
  assumes "\<not> is_digit c" and "c \<noteq> CHR 0x27" and "c \<noteq> CHR 0x2D"
  shows "c \<notin> set (int_text PrettyNumpunct n)"
  using assms pretty_chars by blast

lemma read_line_number:
  assumes "CHR 0x20 \<notin> set (u # us)" and "\<not> (is_digit u \<or> u = CHR 0x27 \<or> u = CHR 0x2D)"
  shows "read_line (l @ CHR 0x20 # int_text PrettyNumpunct n @ u # us) =
    (l @ '' '', int_text PrettyNumpunct n, u # us)"
proof -
  have "CHR 0x20 \<notin> set (int_text PrettyNumpunct n @ u # us)"
    using assms(1) not_in_pretty [of "CHR 0x20" n] by (simp add: is_digit_def)
  then have "dropWhile (\<lambda>c. c \<noteq> CHR 0x20) (rev (int_text PrettyNumpunct n @ u # us) @ CHR 0x20 # rev l) = CHR 0x20 # rev l"
    by (subst dropWhile_append2) auto
  then have label: "rev (dropWhile (\<lambda>c. c \<noteq> CHR 0x20) (rev (l @ CHR 0x20 # int_text PrettyNumpunct n @ u # us))) = l @ '' ''"
    by simp
  show ?thesis
    unfolding read_line_def label Let_def
    using assms(2) pretty_chars [of _ n] by (simp add: takeWhile_append2 dropWhile_append2)
qed

section \<open>Properties\<close>

text \<open>The lines of the report, each with its label, its number and its unit.\<close>

lemma lines_of_header:
  "lines_of (header_line t @ r) = (''Total time:'' @ CHR 0x20 # int_text PrettyNumpunct (to_milliseconds t) @ ''ms'') # lines_of r"
  using lines_of_append [of "''Total time:'' @ CHR 0x20 # int_text PrettyNumpunct (to_milliseconds t) @ ''ms''" r]
    not_in_pretty [of "CHR 0x0A" "to_milliseconds t"]
  by (simp add: header_line_def endl_def is_digit_def)

lemma lines_of_quantile:
  assumes "CHR 0x0A \<notin> set name"
  shows "lines_of (quantile_line name q @ r) = ((name @ '' ='') @ CHR 0x20 # int_text PrettyNumpunct q @ ''ns'') # lines_of r"
  using lines_of_append [of "(name @ '' ='') @ CHR 0x20 # int_text PrettyNumpunct q @ ''ns''" r]
    not_in_pretty [of "CHR 0x0A" q] assms
  by (simp add: quantile_line_def endl_def is_digit_def)

lemma read_lines:
  "read_line (''Total time:'' @ CHR 0x20 # int_text PrettyNumpunct n @ ''ms'') = (''Total time: '', int_text PrettyNumpunct n, ''ms'')"
  "read_line ((name @ '' ='') @ CHR 0x20 # int_text PrettyNumpunct n @ ''ns'') = (name @ '' = '', int_text PrettyNumpunct n, ''ns'')"
  using read_line_number [of "CHR 0x6D" "''s''" "''Total time:''" n] read_line_number [of "CHR 0x6E" "''s''" "name @ '' =''" n]
  by (simp_all add: is_digit_def)

text \<open>C24: the report can be read back.  Whatever locale standard output had, what \<open>ProcessInternal\<close> prints for up to
  \<open>2 ^ 53\<close> shipping times is six lines with these labels and units, whose numbers, read by skipping the apostrophes, are the
  whole milliseconds of the total time and the five interpolated quantiles; and in every number, from the
  right, every fourth character is an apostrophe and every other one, the first included, a digit.\<close>

theorem report_numbers:
  assumes "shippings_ok xs"
  shows "\<exists>os' text. ProcessInternal double_round xs t os = (os', Inr ()) \<and> printed os' = printed os @ text \<and>
    map (\<lambda>l. case read_line l of (label, number, unit) \<Rightarrow> (label, get_int number, unit)) (lines_of text) =
      [(''Total time: '', sgn t * (\<bar>t\<bar> div 1000000), ''ms''),
       (''0.9999 = '', quantile_value xs (9999 / 10000), ''ns''), (''0.999 = '', quantile_value xs (999 / 1000), ''ns''),
       (''0.99 = '', quantile_value xs (99 / 100), ''ns''), (''0.95 = '', quantile_value xs (95 / 100), ''ns''),
       (''0.5 = '', quantile_value xs (1 / 2), ''ns'')] \<and>
    (\<forall>l \<in> set (lines_of text). grouped_by_three (fst (snd (read_line l))))"
proof -
  let ?text = "header_line t @ concat (map (\<lambda>(name, alpha). quantile_line name (quantile_value xs alpha)) reported_quantiles)"
  have lines: "lines_of ?text = (''Total time:'' @ CHR 0x20 # int_text PrettyNumpunct (to_milliseconds t) @ ''ms'') #
      map (\<lambda>(name, alpha). (name @ '' ='') @ CHR 0x20 # int_text PrettyNumpunct (quantile_value xs alpha) @ ''ns'') reported_quantiles"
    by (simp only: reported_quantiles_def lines_of_header list.map prod.case concat.simps) (simp add: lines_of_quantile lines_of_quantile [where r = "[]", unfolded append_Nil2])
  have ms: "to_milliseconds t = sgn t * (\<bar>t\<bar> div 1000000)" by (simp add: to_milliseconds_def sgn_if)
  have "map (\<lambda>l. case read_line l of (label, number, unit) \<Rightarrow> (label, get_int number, unit)) (lines_of ?text) =
      (''Total time: '', to_milliseconds t, ''ms'') #
        map (\<lambda>(name, alpha). (name @ '' = '', quantile_value xs alpha, ''ns'')) reported_quantiles"
    unfolding lines by (simp only: reported_quantiles_def list.map prod.case read_lines get_int_text)
  then have numbers: "map (\<lambda>l. case read_line l of (label, number, unit) \<Rightarrow> (label, get_int number, unit)) (lines_of ?text) =
      [(''Total time: '', sgn t * (\<bar>t\<bar> div 1000000), ''ms''),
       (''0.9999 = '', quantile_value xs (9999 / 10000), ''ns''), (''0.999 = '', quantile_value xs (999 / 1000), ''ns''),
       (''0.99 = '', quantile_value xs (99 / 100), ''ns''), (''0.95 = '', quantile_value xs (95 / 100), ''ns''),
       (''0.5 = '', quantile_value xs (1 / 2), ''ns'')]"
    by (simp only: reported_quantiles_def list.map prod.case ms append.simps)
  have groups: "\<forall>l \<in> set (lines_of ?text). grouped_by_three (fst (snd (read_line l)))"
    unfolding lines by (simp only: reported_quantiles_def list.map list.set ball_simps insert_iff prod.case read_lines grouped_text
        fst_conv snd_conv)
  obtain os' where "ProcessInternal double_round xs t os = (os', Inr ())" "printed os' = printed os @ ?text"
    by (simp add: ProcessInternal_text [OF assms])
  with numbers groups show ?thesis by (intro exI conjI)
qed

text \<open>The shortest time 0 and the longest 1234567: the interpolated values, with the roundings on the way.\<close>

lemma example_roundings:
  "double_round (9999 / 10000) = 4503149267407759 / 4503599627370496"
  "double_round (4503149267407759 / 4503599627370496) = 4503149267407759 / 4503599627370496"
  "double_round (5559439481615794805353 / 4503599627370496) = 1325473661807965 / 1073741824"
  "double_round (999 / 1000) = 8998192055486251 / 9007199254740992"
  "double_round (8998192055486251 / 9007199254740992) = 8998192055486251 / 9007199254740992"
  "double_round (11108870971365494438317 / 9007199254740992) = 5297122464831111 / 4294967296"
  "double_round (99 / 100) = 4458563631096791 / 4503599627370496"
  "double_round (4458563631096791 / 4503599627370496) = 4458563631096791 / 4503599627370496"
  "double_round (5504395526352271974497 / 4503599627370496) = 656175080102953 / 536870912"
  "double_round (19 / 20) = 4278419646001971 / 4503599627370496"
  "double_round (4278419646001971 / 4503599627370496) = 4278419646001971 / 4503599627370496"
  "double_round (5281995707105715331557 / 4503599627370496) = 2518651822617395 / 2147483648"
  "double_round (1 / 2) = 1 / 2"
  "double_round (1234567 / 2) = 1234567 / 2"
  using double_round_at [of "9999 / 10000" 53]
    double_round_at [of "4503149267407759 / 4503599627370496" 53]
    double_round_at [of "5559439481615794805353 / 4503599627370496" 32]
    double_round_at [of "999 / 1000" 53]
    double_round_at [of "8998192055486251 / 9007199254740992" 53]
    double_round_at [of "11108870971365494438317 / 9007199254740992" 32]
    double_round_at [of "99 / 100" 53]
    double_round_at [of "4458563631096791 / 4503599627370496" 53]
    double_round_at [of "5504395526352271974497 / 4503599627370496" 32]
    double_round_at [of "19 / 20" 53]
    double_round_at [of "4278419646001971 / 4503599627370496" 53]
    double_round_at [of "5281995707105715331557 / 4503599627370496" 32]
    double_round_at [of "1 / 2" 53]
    double_round_at [of "1234567 / 2" 33]
  by (simp_all add: round_half_even_def Let_def)

lemma example_values:
  "quantile_value [1234567, 0] (9999 / 10000) = 1234443" "quantile_value [1234567, 0] (999 / 1000) = 1233332"
  "quantile_value [1234567, 0] (99 / 100) = 1222221" "quantile_value [1234567, 0] (19 / 20) = 1172838"
  "quantile_value [1234567, 0] (1 / 2) = 617283"
  by (simp_all add: quantile_value_def interpolated_def Let_def example_roundings)

theorem report_numbers_witness:
  "\<exists>os' text. ProcessInternal double_round [1234567, 0] 2500000000 standard_output = (os', Inr ()) \<and> printed os' = text \<and>
    map (\<lambda>l. case read_line l of (label, number, unit) \<Rightarrow> (label, get_int number, unit)) (lines_of text) =
      [(''Total time: '', 2500, ''ms''), (''0.9999 = '', 1234443, ''ns''), (''0.999 = '', 1233332, ''ns''),
       (''0.99 = '', 1222221, ''ns''), (''0.95 = '', 1172838, ''ns''), (''0.5 = '', 617283, ''ns'')]"
proof -
  have "shippings_ok [1234567, 0]" by (simp add: shippings_ok_def)
  from report_numbers [OF this, of 2500000000 standard_output] show ?thesis
    by (elim exE conjE) (intro exI conjI, assumption, simp add: standard_output_def, simp add: example_values)
qed

text \<open>C25: for producer and consumer measurers with the same positive number of ticks the report is
  complete: the total time runs from the first tick of the producer to the last of the
  consumer; the \<open>k\<close>-th shipping time is the difference of the \<open>k\<close>-th ticks; and the five
  quantiles printed are the values interpolated between the sorted shipping times, go down and lie between the
  shortest and the longest one.\<close>

theorem Process_report:
  assumes "length (elems p) = length (elems c)" and "elems p \<noteq> []" and "ticks_ok (elems p) (elems c)"
    and "shippings_ok (shipping_times (elems p) (elems c))"
  shows "\<exists>qs. Process double_round p c = Some (Inr (
      header_line (sint (time_since_epoch (last (elems c))) - sint (time_since_epoch (hd (elems p)))) @
      concat (map2 quantile_line (map fst reported_quantiles) qs), Inr ())) \<and>
    qs = map (quantile_value (shipping_times (elems p) (elems c)))
      [9999 / 10000, 999 / 1000, 99 / 100, 95 / 100, 1 / 2] \<and>
    length qs = 5 \<and> sorted_wrt (\<ge>) qs \<and>
    (\<forall>q \<in> set qs. Min (set (shipping_times (elems p) (elems c))) \<le> q \<and>
      q \<le> Max (set (shipping_times (elems p) (elems c))))"
  by (rule Process_text [OF assms])

definition example_ticks :: "64 word list \<Rightarrow> measurer" where
  "example_ticks ts = \<lparr>elems = map time_point ts, vcap = length ts, iter = None\<rparr>"

theorem Process_report_witness:
  "\<exists>qs. Process double_round (example_ticks [10, 20, 30]) (example_ticks [15, 29, 36]) =
    Some (Inr (header_line 26 @ concat (map2 quantile_line (map fst reported_quantiles) qs), Inr ())) \<and>
    qs = map (quantile_value [5, 9, 6]) [9999 / 10000, 999 / 1000, 99 / 100, 95 / 100, 1 / 2] \<and>
    (\<forall>q \<in> set qs. 5 \<le> q \<and> q \<le> 9)"
  using Process_report [of "example_ticks [10, 20, 30]" "example_ticks [15, 29, 36]"]
  by (auto simp: example_ticks_def shipping_times_def ticks_ok_def shippings_ok_def)

text \<open>With different numbers of ticks the report stops at its assertion, and without any tick it
  asks an empty vector for its last element.\<close>

theorem Process_degenerate:
  assumes "Count p \<noteq> Count c \<or> Count p = 0"
  shows "Process fl p c = Some (Inl (if Count p \<noteq> Count c
    then Assert_Failed ''producer.Count() == consumer.Count()''
    else Undefined_Behaviour ''back of empty vector''))"
proof (cases "Count p = Count c")
  case True
  with assms have e: "elems p = []" "elems c = []" by (auto simp: Count_def)
  obtain pc where pc: "cursor_loop (both_have_next Measurer_HasNext Measurer_HasNext)
      (both_next Measurer_Next Measurer_Next) shipping_body
      (both_to_first Measurer_ToFirst Measurer_ToFirst (p, c)) [] =
      obind (ofold shipping_body (zip (elems p) (elems c)) []) (\<lambda>s'. Some (Inr (pc, s')))"
    "elems (snd pc) = elems c"
    by (rule measurers.pair.loop_all [of shipping_body "(p, c)" "[]"]) (simp add: vec_content_def)
  with True e show ?thesis by (cases pc) (simp add: Process_def LastTick_def)
qed (simp add: Process_def)

theorem Process_degenerate_witness:
  "Process double_round (example_ticks []) (example_ticks []) =
    Some (Inl (Undefined_Behaviour ''back of empty vector''))"
  using Process_degenerate [of "example_ticks []" "example_ticks []"] by (simp add: Count_def example_ticks_def)

end
