(* ===== verification/Actors.thy ===== *)
theory Actors
  imports Links Measurer Generator Statistics
begin

text \<open>
  The three actors (\<open>actors/include/actors/*.hpp\<close>).  \<open>send\<close> and \<open>receive\<close> are the connectors, against a world
  \<open>'w\<close> both connections of an actor are part of; \<open>clock k\<close> is what the k-th call of
  \<open>steady_clock::now()\<close> in the process returns, each of which makes one tick.
\<close>

section \<open>Producer and consumer\<close>

text \<open>\<open>msg\<close> is what \<open>generator.Next()\<close> returns, between \<open>Tick\<close> and \<open>Reset\<close> on one side and \<open>Pack\<close> on the other.\<close>

definition Producer_message ::
  "vector_impl \<Rightarrow> (nat \<Rightarrow> time_point) \<Rightarrow> packer \<Rightarrow> (buffer \<Rightarrow> 'w \<Rightarrow> ('w, 'w) outcome) \<Rightarrow>
   byte list vec \<times> measurer \<times> buffer \<times> 'w \<Rightarrow> (byte list vec \<times> measurer \<times> buffer \<times> 'w, 'w) outcome" where
  "Producer_message impl clock pk send =
     (\<lambda>(generator, measurer, buffer, w).
      let measurer = Tick impl (clock (Count measurer)) measurer;
          buffer = Reset buffer in
      obind (in_world w (Generator_Next generator)) (\<lambda>(msg, generator).
      obind (in_world w (string_Serialize pk msg buffer)) (\<lambda>buffer.
      obind (send buffer w) (\<lambda>w.
      Some (Inr (generator, measurer, buffer, w))))))"

text \<open>One turn of the second loop, which is the same for both.\<close>

definition report_tick ::
  "packer \<Rightarrow> (buffer \<Rightarrow> 'w \<Rightarrow> ('w, 'w) outcome) \<Rightarrow> measurer \<times> buffer \<times> 'w \<Rightarrow> (measurer \<times> buffer \<times> 'w, 'w) outcome" where
  "report_tick pk send =
     (\<lambda>(measurer, buffer, w).
      let buffer = Reset buffer in
      obind (in_world w (Measurer_Next measurer)) (\<lambda>(tick, measurer).
      obind (in_world w (time_point_Serialize pk tick buffer)) (\<lambda>buffer.
      obind (send buffer w) (\<lambda>w.
      Some (Inr (measurer, buffer, w))))))"

definition report_ticks ::
  "packer \<Rightarrow> (buffer \<Rightarrow> 'w \<Rightarrow> ('w, 'w) outcome) \<Rightarrow> measurer \<times> buffer \<times> 'w \<Rightarrow> (measurer \<times> buffer \<times> 'w, 'w) outcome" where
  "report_ticks pk send s =
     while_loop (\<lambda>(measurer, buffer, w). at_world w (Measurer_HasNext measurer)) (report_tick pk send)
       (Measurer_ToFirst (fst s), snd s)"

definition Producer_Run ::
  "vector_impl \<Rightarrow> (nat \<Rightarrow> time_point) \<Rightarrow> packer \<Rightarrow> (buffer \<Rightarrow> 'w \<Rightarrow> ('w, 'w) outcome) \<Rightarrow>
   packer \<Rightarrow> (buffer \<Rightarrow> 'w \<Rightarrow> ('w, 'w) outcome) \<Rightarrow> byte list vec \<Rightarrow> measurer \<Rightarrow> buffer \<Rightarrow> 'w \<Rightarrow>
   (measurer \<times> buffer \<times> 'w, 'w) outcome" where
  "Producer_Run impl clock consumer_packer consumer_send measurer_packer measurer_send generator measurer buffer w =
     obind (while_loop (\<lambda>(generator, _, _, w). at_world w (Generator_HasNext generator))
              (Producer_message impl clock consumer_packer consumer_send)
              (Generator_ToFirst generator, measurer, buffer, w))
       (\<lambda>(_, s). report_ticks measurer_packer measurer_send s)"

definition Consumer_message ::
  "vector_impl \<Rightarrow> string_impl \<Rightarrow> (nat \<Rightarrow> time_point) \<Rightarrow> packer \<Rightarrow> (buffer \<Rightarrow> 'w \<Rightarrow> (buffer \<times> 'w, 'w) outcome) \<Rightarrow>
   measurer \<times> buffer \<times> 'w \<Rightarrow> (measurer \<times> buffer \<times> 'w, 'w) outcome" where
  "Consumer_message impl si clock pk receive =
     (\<lambda>(measurer, buffer, w).
      obind (receive (Reset buffer) w) (\<lambda>(buffer, w).
      obind (in_world w (string_Deserialize si pk buffer)) (\<lambda>(msg, buffer).
      Some (Inr (Tick impl (clock (Count measurer)) measurer, buffer, w)))))"

definition Consumer_Run ::
  "vector_impl \<Rightarrow> string_impl \<Rightarrow> (nat \<Rightarrow> time_point) \<Rightarrow> packer \<Rightarrow> (buffer \<Rightarrow> 'w \<Rightarrow> (buffer \<times> 'w, 'w) outcome) \<Rightarrow>
   packer \<Rightarrow> (buffer \<Rightarrow> 'w \<Rightarrow> ('w, 'w) outcome) \<Rightarrow> measurer \<Rightarrow> buffer \<Rightarrow> 'w \<Rightarrow>
   (measurer \<times> buffer \<times> 'w, 'w) outcome" where
  "Consumer_Run impl si clock producer_packer receive measurer_packer measurer_send measurer buffer w =
     obind (while_loop (\<lambda>s. Inr (\<not> IsFull (fst s)))
              (Consumer_message impl si clock producer_packer receive) (measurer, buffer, w))
       (report_ticks measurer_packer measurer_send)"

section \<open>Analyzer\<close>

definition Analyzer_tick ::
  "vector_impl \<Rightarrow> packer \<Rightarrow> (buffer \<Rightarrow> 'w \<Rightarrow> (buffer \<times> 'w, 'w) outcome) \<Rightarrow>
   measurer \<times> buffer \<times> 'w \<Rightarrow> (measurer \<times> buffer \<times> 'w, 'w) outcome" where
  "Analyzer_tick impl pk receive =
     (\<lambda>(measurer, buffer, w).
      obind (receive (Reset buffer) w) (\<lambda>(buffer, w).
      obind (in_world w (time_point_Deserialize pk buffer)) (\<lambda>(tp, buffer).
      Some (Inr (PushBack impl tp measurer, buffer, w)))))"

text \<open>The body of each of the two threads.\<close>

definition Analyzer_worker ::
  "vector_impl \<Rightarrow> packer \<Rightarrow> (buffer \<Rightarrow> 'w \<Rightarrow> (buffer \<times> 'w, 'w) outcome) \<Rightarrow>
   measurer \<Rightarrow> buffer \<Rightarrow> 'w \<Rightarrow> (measurer \<times> buffer \<times> 'w, 'w) outcome" where
  "Analyzer_worker impl pk receive measurer buffer w =
     while_loop (\<lambda>s. Inr (\<not> IsFull (fst s))) (Analyzer_tick impl pk receive) (measurer, buffer, w)"

text \<open>
  The two threads work on objects of their own and take turns in an order that nobody knows; \<open>schedule k\<close> says
  whether the consumer's makes the \<open>k\<close>-th turn.  A turn has one effect outside of the thread, the
  read.  While one thread waits for ever the other goes on, but the joins return only when both have
  ended.  An exception that leaves a thread ends the process.
\<close>

definition in_thread :: "('a, 'w) outcome \<Rightarrow> ('a, 'w) outcome" where
  "in_thread r = map_option (\<lambda>r. case r of
       Inl (e, w) \<Rightarrow> Inl (if is_exception e then Std_Terminate else e, w)
     | Inr x \<Rightarrow> Inr x) r"

definition blocked_or :: "('e + 'a) option \<Rightarrow> ('e + 'b) option \<Rightarrow> ('e + 'a) option" where
  "blocked_or r other =
     (case r of
        None \<Rightarrow> (case other of Some (Inl e) \<Rightarrow> Some (Inl e) | _ \<Rightarrow> None)
      | Some x \<Rightarrow> Some x)"

definition Analyzer_turn ::
  "vector_impl \<Rightarrow> (nat \<Rightarrow> bool) \<Rightarrow> packer \<Rightarrow> (buffer \<Rightarrow> 'w \<Rightarrow> (buffer \<times> 'w, 'w) outcome) \<Rightarrow>
   packer \<Rightarrow> (buffer \<Rightarrow> 'w \<Rightarrow> (buffer \<times> 'w, 'w) outcome) \<Rightarrow>
   nat \<times> (measurer \<times> buffer) \<times> (measurer \<times> buffer) \<times> 'w \<Rightarrow>
   (nat \<times> (measurer \<times> buffer) \<times> (measurer \<times> buffer) \<times> 'w, 'w) outcome" where
  "Analyzer_turn impl schedule consumer_packer consumer_receive producer_packer producer_receive =
     (\<lambda>(k, (consumer_measurer, consumer_buffer), (producer_measurer, producer_buffer), w).
      if IsFull producer_measurer \<or> (\<not> IsFull consumer_measurer \<and> schedule k)
      then
        obind (blocked_or
            (in_thread (Analyzer_tick impl consumer_packer consumer_receive (consumer_measurer, consumer_buffer, w)))
            (in_thread (Analyzer_worker impl producer_packer producer_receive producer_measurer producer_buffer w)))
          (\<lambda>(m, b, w). Some (Inr (Suc k, (m, b), (producer_measurer, producer_buffer), w)))
      else
        obind (blocked_or
            (in_thread (Analyzer_tick impl producer_packer producer_receive (producer_measurer, producer_buffer, w)))
            (in_thread (Analyzer_worker impl consumer_packer consumer_receive consumer_measurer consumer_buffer w)))
          (\<lambda>(m, b, w). Some (Inr (Suc k, (consumer_measurer, consumer_buffer), (m, b), w))))"

text \<open>The two joins.\<close>

definition Analyzer_threads ::
  "vector_impl \<Rightarrow> (nat \<Rightarrow> bool) \<Rightarrow> packer \<Rightarrow> (buffer \<Rightarrow> 'w \<Rightarrow> (buffer \<times> 'w, 'w) outcome) \<Rightarrow>
   packer \<Rightarrow> (buffer \<Rightarrow> 'w \<Rightarrow> (buffer \<times> 'w, 'w) outcome) \<Rightarrow>
   nat \<times> (measurer \<times> buffer) \<times> (measurer \<times> buffer) \<times> 'w \<Rightarrow>
   (nat \<times> (measurer \<times> buffer) \<times> (measurer \<times> buffer) \<times> 'w, 'w) outcome" where
  "Analyzer_threads impl schedule consumer_packer consumer_receive producer_packer producer_receive =
     while_loop (\<lambda>(_, (consumer_measurer, _), (producer_measurer, _), _).
         Inr (\<not> (IsFull consumer_measurer \<and> IsFull producer_measurer)))
       (Analyzer_turn impl schedule consumer_packer consumer_receive producer_packer producer_receive)"

text \<open>The result is the text of the report and how it ended.\<close>

definition Analyzer_Run ::
  "(rat \<Rightarrow> rat) \<Rightarrow> vector_impl \<Rightarrow> (nat \<Rightarrow> bool) \<Rightarrow>
   packer \<Rightarrow> (buffer \<Rightarrow> 'w \<Rightarrow> (buffer \<times> 'w, 'w) outcome) \<Rightarrow>
   packer \<Rightarrow> (buffer \<Rightarrow> 'w \<Rightarrow> (buffer \<times> 'w, 'w) outcome) \<Rightarrow>
   measurer \<times> buffer \<Rightarrow> measurer \<times> buffer \<Rightarrow> 'w \<Rightarrow> ((string \<times> unit result) \<times> 'w, 'w) outcome" where
  "Analyzer_Run fl impl schedule consumer_packer consumer_receive producer_packer producer_receive consumer producer w =
     obind (Analyzer_threads impl schedule consumer_packer consumer_receive producer_packer producer_receive
              (0, consumer, producer, w))
       (\<lambda>(_, (consumer_measurer, _), (producer_measurer, _), w).
        Option.bind (Process fl producer_measurer consumer_measurer) (\<lambda>r.
        obind (in_world w r) (\<lambda>text. Some (Inr (text, w)))))"

section \<open>Sending loops\<close>

lemma ofold_beside:
  assumes "\<And>x m s. body x (m, s) = obind (f x s) (\<lambda>s'. Some (Inr (g x m, s')))"
  shows "ofold body xs (m, s) = obind (ofold f xs s) (\<lambda>s'. Some (Inr (fold g xs m, s')))"
proof (induction xs arbitrary: m s)
  case (Cons x xs)
  then show ?case using assms by (cases "f x s"; cases "the (f x s)") simp_all
qed simp

text \<open>Ticks with the readings of the clock, one per message.\<close>

lemma clock_ticks:
  assumes "measurer_rel n m ts" and "length ts + length xs \<le> n"
  shows "measurer_rel n (fold (\<lambda>_ m. Tick impl (clock (Count m)) m) xs m)
    (ts @ map clock [length ts..<length ts + length xs])"
  using assms
proof (induction xs arbitrary: m ts)
  case (Cons x xs)
  have "Count m = length ts" using Cons.prems(1) by (simp add: measurer_rel_def Count_def)
  then have "measurer_rel n (Tick impl (clock (Count m)) m) (ts @ [clock (length ts)])"
    using Tick_rel [OF Cons.prems(1)] Cons.prems(2) by simp
  from Cons.IH [OF this] Cons.prems(2) show ?case
    by (simp add: upt_conv_Cons del: upt_Suc)
qed simp

definition tick_bytes :: "(u64 \<Rightarrow> byte list) \<Rightarrow> time_point \<Rightarrow> byte list" where
  "tick_bytes enc t = enc (time_since_epoch t)"

lemma writes_tick: "word_packer p enc dec \<Longrightarrow> writes (time_point_Serialize p t) (tick_bytes enc t)"
  unfolding time_point_Serialize_def [abs_def] tick_bytes_def by (rule word_packer.writes_word)

lemma reads_tick: "word_packer p enc dec \<Longrightarrow> reads (time_point_Deserialize p) (tick_bytes enc t) t"
  using reads_seq [OF word_packer.reads_word reads_return, of p enc dec "\<lambda>x. time_point x" "time_since_epoch t"]
  by (simp add: time_point_Deserialize_def [abs_def] tick_bytes_def)

context client_link
begin

text \<open>The loop over the generator: the packed messages are put, in order, and each makes a tick before.\<close>

lemma message_loop:
  assumes pk: "word_packer pk enc dec" and b: "buffer_inv b"
    and fits: "\<forall>x \<in> set (elems g). 8 + length x \<le> kBufferCapacityInBytes"
  shows "\<exists>g' b'. buffer_inv b' \<and> while_loop (\<lambda>(generator, _, _, w). at_world w (Generator_HasNext generator))
      (Producer_message impl clock pk send) (Generator_ToFirst g, m, b, w) =
    obind (ofold put (map (string_bytes enc) (elems g)) w) (\<lambda>w'. Some (Inr
      (g', fold (\<lambda>_ m. Tick impl (clock (Count m)) m) (elems g) m, b', w')))"
proof -
  let ?g = "\<lambda>_ m. Tick impl (clock (Count m)) m"
  let ?body = "\<lambda>x (m, s). obind (send_item (string_Serialize pk) x s) (\<lambda>s'. Some (Inr (?g x m, s')))"
  have turn: "Producer_message impl clock pk send (c, s) = obind (?body x s) (\<lambda>s'. Some (Inr (c', s')))"
    if "Generator_Next c = Inr (x, c')" for c s x c'
    by (cases s) (simp add: Producer_message_def that send_item_def obind_assoc)
  obtain g' where g': "while_loop (\<lambda>(generator, _, _, w). at_world w (Generator_HasNext generator)) (Producer_message impl clock pk send)
      (Generator_ToFirst g, m, b, w) = obind (ofold ?body (elems g) (m, b, w)) (\<lambda>s'. Some (Inr (g', s')))"
    by (rule generator.while_all [where turn = "Producer_message impl clock pk send" and body = ?body
          and c = g and s = "(m, b, w)" and cond = "\<lambda>(generator, _, _, w). at_world w (Generator_HasNext generator)",
          OF _ turn]) (auto simp: vec_content_def)
  have "\<forall>x \<in> set (elems g). writes (string_Serialize pk x) (string_bytes enc x) \<and>
      length (string_bytes enc x) \<le> kBufferCapacityInBytes"
    using fits word_packer.writes_string [OF pk] by (simp add: string_bytes_def word_packer.length_enc [OF pk])
  then obtain b' where b': "buffer_inv b'" "ofold (send_item (string_Serialize pk)) (elems g) (b, w) =
      obind (ofold put (map (string_bytes enc) (elems g)) w) (\<lambda>w'. Some (Inr (b', w')))"
    using send_items [OF _ b, of "elems g" "string_Serialize pk" "string_bytes enc"] by blast
  have "ofold ?body (elems g) (m, b, w) = obind (ofold (send_item (string_Serialize pk)) (elems g) (b, w))
      (\<lambda>s'. Some (Inr (fold ?g (elems g) m, s')))"
    by (rule ofold_beside) simp
  then show ?thesis
    using g' b' by (intro exI [of _ g'] exI [of _ b']) (simp add: obind_assoc)
qed

lemma report_loop:
  assumes pk: "word_packer pk enc dec" and b: "buffer_inv b"
  shows "\<exists>m' b'. buffer_inv b' \<and> elems m' = elems m \<and> report_ticks pk send (m, b, w) =
    obind (ofold put (map (tick_bytes enc) (elems m)) w) (\<lambda>w'. Some (Inr (m', b', w')))"
proof -
  have turn: "report_tick pk send (c, s) = obind (send_item (time_point_Serialize pk) x s) (\<lambda>s'. Some (Inr (c', s')))"
    if "Measurer_Next c = Inr (x, c')" for c s x c'
    by (cases s) (simp add: report_tick_def that send_item_def obind_assoc)
  obtain m' where m': "report_ticks pk send (m, b, w) =
      obind (ofold (send_item (time_point_Serialize pk)) (elems m) (b, w)) (\<lambda>s'. Some (Inr (m', s')))"
      "elems m' = elems m"
    unfolding report_ticks_def fst_conv snd_conv
    by (rule measurer.while_all [where turn = "report_tick pk send" and body = "send_item (time_point_Serialize pk)"
          and c = m and s = "(b, w)" and cond = "\<lambda>(measurer, buffer, w). at_world w (Measurer_HasNext measurer)",
          OF _ turn]) (auto simp: vec_content_def)
  have "\<forall>x \<in> set (elems m). writes (time_point_Serialize pk x) (tick_bytes enc x) \<and>
      length (tick_bytes enc x) \<le> kBufferCapacityInBytes"
    using writes_tick [OF pk] by (simp add: tick_bytes_def word_packer.length_enc [OF pk] kBufferCapacityInBytes_def)
  then obtain b' where "buffer_inv b'" "ofold (send_item (time_point_Serialize pk)) (elems m) (b, w) =
      obind (ofold put (map (tick_bytes enc) (elems m)) w) (\<lambda>w'. Some (Inr (b', w')))"
    using send_items [OF _ b, of "elems m" "time_point_Serialize pk" "tick_bytes enc"] by blast
  then show ?thesis using m' by (intro exI [of _ m'] exI [of _ b']) (simp add: obind_assoc)
qed

end

section \<open>Receiving loops\<close>

context server_link
begin

text \<open>
  A loop that receives until the measurer is full takes exactly the messages that are missing.
  \<open>stamp x k\<close> is the tick the \<open>k\<close>-th message \<open>x\<close> leaves.
\<close>

lemma fill_loop:
  assumes turn: "\<And>m b w x b' w'. receive_item unpack (b, w) = Some (Inr (x, b', w')) \<Longrightarrow>
      turn (m, b, w) = Some (Inr (push x m, b', w'))"
    and push: "\<And>x m ts. measurer_rel n m ts \<Longrightarrow> length ts < n \<Longrightarrow>
      measurer_rel n (push x m) (ts @ [stamp x (length ts)])"
    and "measurer_rel n m ts" and "ok w" and "buffer_inv b" and "takes take_msg w ms w'"
    and "list_all2 (\<lambda>bs x. reads unpack bs x \<and> length bs \<le> kBufferCapacityInBytes) ms xs"
    and "length ts + length ms = n"
  shows "\<exists>m' b'. while_loop (\<lambda>s. Inr (\<not> IsFull (fst s))) turn (m, b, w) = Some (Inr (m', b', w')) \<and>
    measurer_rel n m' (ts @ map2 stamp xs [length ts..<n]) \<and> buffer_inv b' \<and> ok w'"
  using assms(3-)
proof (induction ms arbitrary: m ts b w xs)
  case Nil
  then have "IsFull m" using IsFull_rel by simp
  with Nil show ?case
    by (simp add: while_loop.simps [of "\<lambda>s. Inr (\<not> IsFull (fst s))" turn "(m, b, w)"])
next
  case (Cons bs ms)
  from Cons.prems(5) obtain x xs' where xs: "xs = x # xs'" "reads unpack bs x" "length bs \<le> kBufferCapacityInBytes"
    and rest: "list_all2 (\<lambda>bs x. reads unpack bs x \<and> length bs \<le> kBufferCapacityInBytes) ms xs'"
    by (auto simp: list_all2_Cons1)
  from Cons.prems(4) obtain w1 where w1: "take_msg w = Some (Inr (bs, w1))" "takes take_msg w1 ms w'"
    unfolding takes_Cons by blast
  obtain b1 where b1: "ok w1" "buffer_inv b1" "receive_item unpack (b, w) = Some (Inr (x, b1, w1))"
    using receive_item [OF Cons.prems(2,3) w1(1) xs(2,3)] by blast
  have lt: "length ts < n" using Cons.prems(6) by simp
  then have nf: "\<not> IsFull m" using IsFull_rel [OF Cons.prems(1)] by simp
  have "\<exists>m' b'. while_loop (\<lambda>s. Inr (\<not> IsFull (fst s))) turn (push x m, b1, w1) = Some (Inr (m', b', w')) \<and>
      measurer_rel n m' ((ts @ [stamp x (length ts)]) @ map2 stamp xs' [length (ts @ [stamp x (length ts)])..<n]) \<and>
      buffer_inv b' \<and> ok w'"
    by (rule Cons.IH [OF push [OF Cons.prems(1) lt] b1(1,2) w1(2) rest]) (use Cons.prems(6) in simp)
  then obtain m' b' where "while_loop (\<lambda>s. Inr (\<not> IsFull (fst s))) turn (push x m, b1, w1) = Some (Inr (m', b', w'))"
    and "measurer_rel n m' ((ts @ [stamp x (length ts)]) @ map2 stamp xs' [length (ts @ [stamp x (length ts)])..<n])"
    and "buffer_inv b'" "ok w'"
    by blast
  then show ?case using lt
    by (intro exI [of _ m'] exI [of _ b'])
      (simp add: while_loop.simps [of "\<lambda>s. Inr (\<not> IsFull (fst s))" turn "(m, b, w)"] nf turn [OF b1(3)] xs(1)
        upt_conv_Cons)
qed

lemma consumer_loop:
  assumes pk: "word_packer pk enc dec" and max: "strings_fit si"
    and m: "measurer_rel (length msgs) m []" and w: "ok w" and b: "buffer_inv b"
    and fits: "\<forall>x \<in> set msgs. 8 + length x \<le> kBufferCapacityInBytes"
    and t: "takes take_msg w (map (string_bytes enc) msgs) w'"
  shows "\<exists>m' b'. while_loop (\<lambda>s. Inr (\<not> IsFull (fst s)))
      (Consumer_message impl si clock pk receive) (m, b, w) = Some (Inr (m', b', w')) \<and>
    elems m' = map clock [0..<length msgs] \<and> buffer_inv b' \<and> ok w'"
proof -
  have turn: "Consumer_message impl si clock pk receive (m, b, w) =
      Some (Inr (Tick impl (clock (Count m)) m, b', w'))"
    if "receive_item (string_Deserialize si pk) (b, w) = Some (Inr (x, b', w'))" for m b w x b' w'
    using that by (auto simp: Consumer_message_def receive_item_def res_simps)
  have push: "measurer_rel n (Tick impl (clock (Count m)) m) (ts @ [clock (length ts)])"
    if "measurer_rel n m ts" "length ts < n" for n m ts
    using Tick_rel [OF that] that(1) by (simp add: measurer_rel_def Count_def)
  have l2: "list_all2 (\<lambda>bs x. reads (string_Deserialize si pk) bs x \<and> length bs \<le> kBufferCapacityInBytes)
      (map (string_bytes enc) msgs) msgs"
    using fits word_packer.reads_string [OF pk max]
    by (auto simp: list_all2_conv_all_nth string_bytes_def word_packer.length_enc [OF pk])
  have "\<exists>m' b'. while_loop (\<lambda>s. Inr (\<not> IsFull (fst s))) (Consumer_message impl si clock pk receive) (m, b, w) =
      Some (Inr (m', b', w')) \<and> measurer_rel (length msgs) m' ([] @ map2 (\<lambda>_. clock) msgs [length ([] :: time_point list)..<length msgs]) \<and>
      buffer_inv b' \<and> ok w'"
    by (rule fill_loop [where push = "\<lambda>_ m. Tick impl (clock (Count m)) m" and stamp = "\<lambda>_. clock"
          and ts = "[]" and xs = msgs and ms = "map (string_bytes enc) msgs"
          and turn = "Consumer_message impl si clock pk receive"
          and unpack = "string_Deserialize si pk"]) (fact turn push m w b t l2 | simp)+
  then obtain m' b' where
    "while_loop (\<lambda>s. Inr (\<not> IsFull (fst s))) (Consumer_message impl si clock pk receive) (m, b, w) =
      Some (Inr (m', b', w'))" "measurer_rel (length msgs) m' (map2 (\<lambda>_. clock) msgs [0..<length msgs])"
    "buffer_inv b'" "ok w'" by auto
  moreover have "map2 (\<lambda>_. clock) msgs [0..<length msgs] = map clock [0..<length msgs]"
    by (rule nth_equalityI) simp_all
  ultimately show ?thesis by (auto simp: measurer_rel_def)
qed

text \<open>One turn of an analyzer's thread.\<close>

lemma tick_turn:
  assumes pk: "word_packer pk enc dec" and "ok w" and "buffer_inv b" and "take_msg w = Some (Inr (tick_bytes enc t, w'))"
  shows "ok w' \<and> (\<exists>b'. buffer_inv b' \<and> Analyzer_tick impl pk receive (m, b, w) = Some (Inr (PushBack impl t m, b', w')))"
proof -
  have "length (tick_bytes enc t) \<le> kBufferCapacityInBytes"
    by (simp add: tick_bytes_def word_packer.length_enc [OF pk] kBufferCapacityInBytes_def)
  then obtain b' where "ok w'" "buffer_inv b'"
    "receive_item (time_point_Deserialize pk) (b, w) = Some (Inr (t, b', w'))"
    using receive_item [OF assms(2-4) reads_tick [OF pk]] by blast
  then show ?thesis by (auto simp: Analyzer_tick_def receive_item_def res_simps)
qed

end

context two_servers
begin

text \<open>
  The two threads end, whoever takes which turn, with the ticks of either connection in its measurer.
  \<open>P\<close> is what the reads keep.
\<close>

lemma threads_loop:
  assumes pa: "word_packer pka enca deca" and pb: "word_packer pkb encb decb"
    and P: "\<And>w m w'. P w \<Longrightarrow> take_a w = Some (Inr (m, w')) \<or> take_b w = Some (Inr (m, w')) \<Longrightarrow> P w'"
    and "measurer_rel n ma tsa" and "measurer_rel n mb tsb" and "ok_a w" and "ok_b w" and "buffer_inv ba" and "buffer_inv bb"
    and "left_a w (map (tick_bytes enca) as)" and "left_b w (map (tick_bytes encb) bs)"
    and "length tsa + length as = n" and "length tsb + length bs = n" and "P w"
  shows "\<exists>k' ma' ba' mb' bb' w'. Analyzer_threads impl schedule pka receive_a pkb receive_b
      (k, (ma, ba), (mb, bb), w) = Some (Inr (k', (ma', ba'), (mb', bb'), w')) \<and>
    elems ma' = tsa @ as \<and> elems mb' = tsb @ bs \<and> P w'"
  using assms(4-)
proof (induction "length as + length bs" arbitrary: k ma tsa mb tsb w ba bb as bs rule: less_induct)
  case less
  note step = Analyzer_threads_def while_loop.simps [of _ _ "(k, (ma, ba), (mb, bb), w)"] Analyzer_turn_def
  have full: "IsFull ma \<longleftrightarrow> as = []" "IsFull mb \<longleftrightarrow> bs = []"
    using IsFull_rel [OF less.prems(1)] IsFull_rel [OF less.prems(2)] less.prems(9,10) by auto
  consider "as = []" "bs = []" | "bs = [] \<or> as \<noteq> [] \<and> schedule k" "as \<noteq> []" | "bs \<noteq> []" "\<not> (as \<noteq> [] \<and> schedule k)" by blast
  then show ?case
  proof cases
    case 1
    then show ?thesis using less.prems full by (simp add: step measurer_rel_def)
  next
    case 2
    then obtain t as' where as: "as = t # as'" by (cases as) auto
    obtain w1 where w1: "take_a w = Some (Inr (tick_bytes enca t, w1))" "left_a w1 (map (tick_bytes enca) as')"
      "ok_b w1" "left_b w1 (map (tick_bytes encb) bs)"
      using left_a [of w "tick_bytes enca t" "map (tick_bytes enca) as'"] less.prems(4,7,8) as by auto
    obtain b1 where b1: "ok_a w1" "buffer_inv b1"
      "Analyzer_tick impl pka receive_a (ma, ba, w) = Some (Inr (PushBack impl t ma, b1, w1))"
      using a.tick_turn [OF pa less.prems(3,5) w1(1)] by blast
    have lt: "length tsa < n" using less.prems(9) as by simp
    have e: "Analyzer_threads impl schedule pka receive_a pkb receive_b (k, (ma, ba), (mb, bb), w) =
        Analyzer_threads impl schedule pka receive_a pkb receive_b (Suc k, (PushBack impl t ma, b1), (mb, bb), w1)"
      using 2 full b1(3) by (auto simp: step in_thread_def blocked_or_def)
    have "\<exists>k' ma' ba' mb' bb' w'. Analyzer_threads impl schedule pka receive_a pkb receive_b
        (Suc k, (PushBack impl t ma, b1), (mb, bb), w1) = Some (Inr (k', (ma', ba'), (mb', bb'), w')) \<and>
      elems ma' = (tsa @ [t]) @ as' \<and> elems mb' = tsb @ bs \<and> P w'"
      by (rule less.hyps [OF _ PushBack_rel [OF less.prems(1) lt] less.prems(2) b1(1) w1(3) b1(2) less.prems(6) w1(2,4)])
        (use less.prems(9,10) P [OF less.prems(11)] w1(1) as in auto)
    then show ?thesis unfolding e as by simp
  next
    case 3
    then obtain t bs' where bs: "bs = t # bs'" by (cases bs) auto
    obtain w1 where w1: "take_b w = Some (Inr (tick_bytes encb t, w1))" "left_b w1 (map (tick_bytes encb) bs')"
      "ok_a w1" "left_a w1 (map (tick_bytes enca) as)"
      using left_b [of w "tick_bytes encb t" "map (tick_bytes encb) bs'"] less.prems(3,7,8) bs by auto
    obtain b1 where b1: "ok_b w1" "buffer_inv b1"
      "Analyzer_tick impl pkb receive_b (mb, bb, w) = Some (Inr (PushBack impl t mb, b1, w1))"
      using b.tick_turn [OF pb less.prems(4,6) w1(1)] by blast
    have lt: "length tsb < n" using less.prems(10) bs by simp
    have e: "Analyzer_threads impl schedule pka receive_a pkb receive_b (k, (ma, ba), (mb, bb), w) =
        Analyzer_threads impl schedule pka receive_a pkb receive_b (Suc k, (ma, ba), (PushBack impl t mb, b1), w1)"
      using 3 full b1(3) by (auto simp: step in_thread_def blocked_or_def)
    have "\<exists>k' ma' ba' mb' bb' w'. Analyzer_threads impl schedule pka receive_a pkb receive_b
        (Suc k, (ma, ba), (PushBack impl t mb, b1), w1) = Some (Inr (k', (ma', ba'), (mb', bb'), w')) \<and>
      elems ma' = tsa @ as \<and> elems mb' = (tsb @ [t]) @ bs' \<and> P w'"
      by (rule less.hyps [OF _ less.prems(1) PushBack_rel [OF less.prems(2) lt] w1(3) b1(1) less.prems(5) b1(2) w1(4,2)])
        (use less.prems(9,10) P [OF less.prems(11)] w1(1) bs in auto)
    then show ?thesis unfolding e bs by simp
  qed
qed

end

end
