(* ===== verification/Command_Line.thy ===== *)
theory Command_Line
  imports Arguments
begin

text \<open>
  The command lines of the program: the choice of the mode in \<open>main.cpp\<close> and the arguments of
  the four modes (\<open>run/src/as/*/arguments.hpp\<close>).  A field without initialiser is \<open>None\<close>
  until a parser writes it.  How \<open>argp\<close> cuts \<open>--name=value\<close> is not part of the program;
  what the tables of options give it is.
\<close>

section \<open>Choosing the mode\<close>

text \<open>The events of the first \<open>argp_parse\<close>: the first argument names the mode, the rest is skipped.\<close>

datatype main_event = KEY_ARG string | KEY_NO_ARGS | KEY_MAIN_OTHER

datatype main_answer = Main_Mode Mode | Main_Usage | Main_Continue | Main_Throws cxx_error

definition main_parser :: "main_event \<Rightarrow> main_answer" where
  "main_parser ev =
     (case ev of
        KEY_ARG arg \<Rightarrow> (case Convert_mode arg of Inl e \<Rightarrow> Main_Throws e | Inr m \<Rightarrow> Main_Mode m)
      | KEY_NO_ARGS \<Rightarrow> Main_Usage
      | KEY_MAIN_OTHER \<Rightarrow> Main_Continue)"

text \<open>\<open>main\<close> with the four \<open>runAs\<close> functions as arguments.\<close>

definition main_dispatch :: "'a \<Rightarrow> 'a \<Rightarrow> 'a \<Rightarrow> 'a \<Rightarrow> Mode \<Rightarrow> 'a" where
  "main_dispatch runAsProducer runAsConsumer runAsAnalyzer runAsRunTest mode =
     (case mode of
        Mode_Producer \<Rightarrow> runAsProducer
      | Mode_Consumer \<Rightarrow> runAsConsumer
      | Mode_Analyzer \<Rightarrow> runAsAnalyzer
      | Mode_RunTest \<Rightarrow> runAsRunTest)"

section \<open>Producer\<close>

record producer_args =
  pa_chunks_size :: "u64 option"
  pa_chunks_total_count :: "u64 option"
  pa_connection :: "(ConnectionType \<times> string) option"
  pa_connection_buffer_size :: "u64 option option"
  pa_measurer :: "(ConnectionType \<times> string) option"
  pa_cpu :: int

definition ProducerArguments_fields :: producer_args where
  "ProducerArguments_fields = \<lparr>pa_chunks_size = None, pa_chunks_total_count = None, pa_connection = None,
     pa_connection_buffer_size = None, pa_measurer = None, pa_cpu = - 1\<rparr>"

text \<open>
  The type and the id of a connection are written by one parser, so they are one field.  The
  optional buffer size is written through a local variable without initialiser.
\<close>

definition producer_items :: "producer_args item list" where
  "producer_items =
     [Required ''chunks-size'' 1000
        (\<lambda>v s. Inr (s\<lparr>pa_chunks_size := from_chars_size v (pa_chunks_size s)\<rparr>)),
      Required ''chunks-total-count'' 1001
        (\<lambda>v s. Inr (s\<lparr>pa_chunks_total_count := from_chars_size v (pa_chunks_total_count s)\<rparr>)),
      Required ''connection'' 2000
        (\<lambda>v s. rbind (parse_connection v) (\<lambda>c. Inr (s\<lparr>pa_connection := Some c\<rparr>))),
      Optional ''connection-buffer-size'' 2001
        (\<lambda>v s. Inr (s\<lparr>pa_connection_buffer_size := Some (from_chars_size v None)\<rparr>)),
      Required ''measurer'' 3000
        (\<lambda>v s. rbind (parse_connection v) (\<lambda>c. Inr (s\<lparr>pa_measurer := Some c\<rparr>))),
      Optional ''cpu'' 4000 (\<lambda>v s. Inr (s\<lparr>pa_cpu := from_chars_int v (pa_cpu s)\<rparr>))]"

definition producer_options :: "(string \<times> int) list" where
  "producer_options = [(''chunks-size'', 1000), (''chunks-total-count'', 1001), (''connection'', 2000),
     (''connection-buffer-size'', 2001), (''measurer'', 3000), (''cpu'', 4000)]"

definition producer_parser ::
  "argp_event \<Rightarrow> producer_args arguments \<times> producer_args \<Rightarrow> (producer_args arguments \<times> producer_args) argp_answer" where
  "producer_parser = switch_keys [1000, 1001, 2000, 2001, 3000, 4000]"

section \<open>Consumer\<close>

record consumer_args =
  ca_chunks_total_count :: "u64 option"
  ca_connection :: "(ConnectionType \<times> string) option"
  ca_connection_buffer_size :: "u64 option option"
  ca_measurer :: "(ConnectionType \<times> string) option"
  ca_cpu :: int

definition ConsumerArguments_fields :: consumer_args where
  "ConsumerArguments_fields = \<lparr>ca_chunks_total_count = None, ca_connection = None,
     ca_connection_buffer_size = None, ca_measurer = None, ca_cpu = - 1\<rparr>"

definition consumer_items :: "consumer_args item list" where
  "consumer_items =
     [Required ''chunks-total-count'' 1000
        (\<lambda>v s. Inr (s\<lparr>ca_chunks_total_count := from_chars_size v (ca_chunks_total_count s)\<rparr>)),
      Required ''connection'' 2000
        (\<lambda>v s. rbind (parse_connection v) (\<lambda>c. Inr (s\<lparr>ca_connection := Some c\<rparr>))),
      Optional ''connection-buffer-size'' 2001
        (\<lambda>v s. Inr (s\<lparr>ca_connection_buffer_size := Some (from_chars_size v None)\<rparr>)),
      Required ''measurer'' 3000
        (\<lambda>v s. rbind (parse_connection v) (\<lambda>c. Inr (s\<lparr>ca_measurer := Some c\<rparr>))),
      Optional ''environment-cpu'' 4000 (\<lambda>v s. Inr (s\<lparr>ca_cpu := from_chars_int v (ca_cpu s)\<rparr>))]"

definition consumer_options :: "(string \<times> int) list" where
  "consumer_options = [(''chunks-total-count'', 1000), (''connection'', 2000),
     (''connection-buffer-size'', 2001), (''measurer'', 3000), (''cpu'', 4000)]"

definition consumer_parser ::
  "argp_event \<Rightarrow> consumer_args arguments \<times> consumer_args \<Rightarrow> (consumer_args arguments \<times> consumer_args) argp_answer" where
  "consumer_parser = switch_keys [1000, 2000, 2001, 3000, 4000]"

section \<open>Analyzer\<close>

record analyzer_args =
  aa_chunks_total_count :: "u64 option"
  aa_measurer_producer :: "(ConnectionType \<times> string) option"
  aa_measurer_consumer :: "(ConnectionType \<times> string) option"

definition AnalizerArguments_fields :: analyzer_args where
  "AnalizerArguments_fields = \<lparr>aa_chunks_total_count = None, aa_measurer_producer = None,
     aa_measurer_consumer = None\<rparr>"

definition analyzer_items :: "analyzer_args item list" where
  "analyzer_items =
     [Required ''chunks-total-count'' 1000
        (\<lambda>v s. Inr (s\<lparr>aa_chunks_total_count := from_chars_size v (aa_chunks_total_count s)\<rparr>)),
      Required ''measurer-producer'' 2000
        (\<lambda>v s. rbind (parse_connection v) (\<lambda>c. Inr (s\<lparr>aa_measurer_producer := Some c\<rparr>))),
      Required ''measurer-consumer'' 3000
        (\<lambda>v s. rbind (parse_connection v) (\<lambda>c. Inr (s\<lparr>aa_measurer_consumer := Some c\<rparr>)))]"

definition analyzer_options :: "(string \<times> int) list" where
  "analyzer_options = [(''chunks-total-count'', 1000), (''measurer-producer'', 2000),
     (''measurer-consumer'', 3000)]"

definition analyzer_parser ::
  "argp_event \<Rightarrow> analyzer_args arguments \<times> analyzer_args \<Rightarrow> (analyzer_args arguments \<times> analyzer_args) argp_answer" where
  "analyzer_parser = switch_keys [1000, 2000, 3000]"

section \<open>Run test\<close>

record run_test_args =
  ra_chunks_size :: "u64 option"
  ra_chunks_total_count :: "u64 option"
  ra_connection_type :: "ConnectionType option"
  ra_connection_buffer_size :: "u64 option"
  ra_environment_producer_cpu :: int
  ra_environment_consumer_cpu :: int

definition RunTestArguments_fields :: run_test_args where
  "RunTestArguments_fields = \<lparr>ra_chunks_size = None, ra_chunks_total_count = None, ra_connection_type = None,
     ra_connection_buffer_size = None, ra_environment_producer_cpu = - 1, ra_environment_consumer_cpu = - 1\<rparr>"

definition run_test_items :: "run_test_args item list" where
  "run_test_items =
     [Required ''chunks-size'' 1000
        (\<lambda>v s. Inr (s\<lparr>ra_chunks_size := from_chars_size v (ra_chunks_size s)\<rparr>)),
      Required ''chunks-total-count'' 1001
        (\<lambda>v s. Inr (s\<lparr>ra_chunks_total_count := from_chars_size v (ra_chunks_total_count s)\<rparr>)),
      Required ''connection'' 2000
        (\<lambda>v s. rbind (Convert_connection v) (\<lambda>t. Inr (s\<lparr>ra_connection_type := Some t\<rparr>))),
      Required ''connection-buffer-size'' 2001
        (\<lambda>v s. Inr (s\<lparr>ra_connection_buffer_size := from_chars_size v (ra_connection_buffer_size s)\<rparr>)),
      Optional ''environment-producer-cpu'' 3000
        (\<lambda>v s. Inr (s\<lparr>ra_environment_producer_cpu := from_chars_int v (ra_environment_producer_cpu s)\<rparr>)),
      Optional ''environment-consumer-cpu'' 3001
        (\<lambda>v s. Inr (s\<lparr>ra_environment_consumer_cpu := from_chars_int v (ra_environment_consumer_cpu s)\<rparr>))]"

definition run_test_options :: "(string \<times> int) list" where
  "run_test_options = [(''chunks-size'', 1000), (''chunks-total-count'', 1001), (''connection'', 2000),
     (''connection-buffer-size'', 2001), (''environment-producer-cpu'', 3000),
     (''environment-consumer-cpu'', 3001)]"

definition run_test_parser ::
  "argp_event \<Rightarrow> run_test_args arguments \<times> run_test_args \<Rightarrow> (run_test_args arguments \<times> run_test_args) argp_answer" where
  "run_test_parser = switch_keys [1000, 1001, 2000, 2001, 3000, 3001]"

section \<open>Parsing a list of options\<close>

text \<open>Looking up a value: the last option with the key counts.\<close>

lemmas item_defs = Required_def Optional_def

lemma items_keys:
  "map item_key producer_items = [1000, 1001, 2000, 2001, 3000, 4000]"
  "map item_key consumer_items = [1000, 2000, 2001, 3000, 4000]"
  "map item_key analyzer_items = [1000, 2000, 3000]"
  "map item_key run_test_items = [1000, 1001, 2000, 2001, 3000, 3001]"
  by (simp_all add: producer_items_def consumer_items_def analyzer_items_def run_test_items_def item_defs)

lemma items_unparsed:
  "\<forall>i \<in> set producer_items. \<not> item_parsed i" "\<forall>i \<in> set consumer_items. \<not> item_parsed i"
  "\<forall>i \<in> set analyzer_items. \<not> item_parsed i" "\<forall>i \<in> set run_test_items. \<not> item_parsed i"
  by (simp_all add: producer_items_def consumer_items_def analyzer_items_def run_test_items_def item_defs)

text \<open>\<open>has_item a key p\<close>: the table's item for \<open>key\<close> has the parser \<open>p\<close>; parsing keeps it so.\<close>

definition has_item :: "'s arguments \<Rightarrow> int \<Rightarrow> (string \<Rightarrow> 's \<Rightarrow> 's result) \<Rightarrow> bool" where
  "has_item a key p \<longleftrightarrow> (\<exists>i. args_items a key = Some i \<and> item_parser i = p)"

lemma has_item_Arguments:
  assumes "distinct (map item_key items)" and "\<forall>i \<in> set items. \<not> item_parsed i" and "i \<in> set items"
  shows "has_item (Arguments items) (item_key i) (item_parser i)"
  using Arguments_inv(4) [OF assms] by (simp add: has_item_def)

lemma ParseArgument_step:
  assumes "has_item a key p" and "p v s = Inr s'"
  shows "\<exists>a'. ParseArgument key v (a, s) = Inr (a', s') \<and> (\<forall>k q. has_item a' k q \<longleftrightarrow> has_item a k q)"
  using assms by (auto simp: has_item_def ParseArgument_def Let_def)

text \<open>
  Running the parsers of a list of options one after the other, as \<open>drive\<close> does when the
  required ones are among them.
\<close>

fun run_parsers :: "((string \<Rightarrow> 's \<Rightarrow> 's result) \<times> string) list \<Rightarrow> 's \<Rightarrow> 's result" where
  "run_parsers [] s = Inr s"
| "run_parsers ((p, v) # pvs) s = rbind (p v s) (run_parsers pvs)"

lemma drive_options:
  assumes "list_all2 (\<lambda>(k, v) (p, w). has_item a k p \<and> v = w \<and> k \<in> set keys) opts pvs"
    and "run_parsers pvs s = Inr s'"
  shows "\<exists>a'. drive (switch_keys keys) (map (\<lambda>(k, v). KEY_OPTION k v) opts) (a, s) = Argp_Ok (a', s')"
  using assms
proof (induction opts arbitrary: pvs a s)
  case (Cons kv opts)
  obtain k v where kv: "kv = (k, v)" by fastforce
  from Cons.prems(1) obtain p pvs' where pvs: "pvs = (p, v) # pvs'" and it: "has_item a k p" "k \<in> set keys"
    and rest: "list_all2 (\<lambda>(k, v) (p, w). has_item a k p \<and> v = w \<and> k \<in> set keys) opts pvs'"
    by (auto simp: kv list_all2_Cons1)
  from Cons.prems(2) obtain s1 where s1: "p v s = Inr s1" "run_parsers pvs' s1 = Inr s'"
    by (auto simp: pvs rbind_Inr)
  from ParseArgument_step [OF it(1) s1(1)] obtain a1 where
    a1: "ParseArgument k v (a, s) = Inr (a1, s1)" "\<forall>k q. has_item a1 k q \<longleftrightarrow> has_item a k q" by blast
  from rest have "list_all2 (\<lambda>(k, v) (p, w). has_item a1 k p \<and> v = w \<and> k \<in> set keys) opts pvs'"
    by (simp add: a1(2))
  from Cons.IH [OF this s1(2)] show ?case by (simp add: kv switch_keys_option it(2) a1(1))
qed simp

text \<open>All options of a table, each once and in the table's order.\<close>

lemma drive_table:
  assumes d: "distinct (map item_key items)" and u: "\<forall>i \<in> set items. \<not> item_parsed i"
    and keys: "keys = map item_key items" and len: "length vs = length items"
    and run: "run_parsers (zip (map item_parser items) vs) s = Inr s'"
  shows "\<exists>a'. drive (switch_keys keys) (option_events (zip keys vs)) (Arguments items, s) = Argp_Ok (a', s')"
proof -
  have "list_all2 (\<lambda>(k, v) (p, w). has_item (Arguments items) k p \<and> v = w \<and> k \<in> set keys)
      (zip keys vs) (zip (map item_parser items) vs)"
    unfolding list_all2_conv_all_nth using len has_item_Arguments [OF d u] by (auto simp: keys)
  from drive_options [OF this run] obtain a' where
    a': "drive (switch_keys keys) (map (\<lambda>(k, v). KEY_OPTION k v) (zip keys vs)) (Arguments items, s) = Argp_Ok (a', s')"
    by blast
  note A = Arguments_inv [OF d u]
  have "open_keys a' = item_key ` {i \<in> set items. item_required i} - fst ` set (zip keys vs)" and c: "count_inv a'"
    using drive_inv [OF a' A(1)] A(2) by simp_all
  moreover have "fst ` set (zip keys vs) = item_key ` set items"
    using len by (simp flip: set_map add: keys)
  ultimately have "open_keys a' = {}" by auto
  then have "\<not> HasNotParsedRequiredArguments a'" using count_inv_iff [OF c] by simp
  with a' show ?thesis
    by (simp add: option_events_def drive_append switch_keys_def [of _ KEY_INIT] switch_keys_def [of _ KEY_END])
qed

section \<open>Properties\<close>

text \<open>C26: for a class derived from \<open>Arguments\<close> whose items have different keys, when all options
  given are accepted, the final check fails with its message exactly when a required option was
  not given; repeating an option does not confuse the count.\<close>

theorem required_arguments:
  assumes "distinct (map item_key items)" and "\<forall>i \<in> set items. \<not> item_parsed i"
    and "drive (switch_keys keys) (map (\<lambda>(k, v). KEY_OPTION k v) opts) (Arguments items, s) = Argp_Ok as"
  shows "drive (switch_keys keys) (option_events opts) (Arguments items, s) =
    (if item_key ` {i \<in> set items. item_required i} \<subseteq> fst ` set opts then Argp_Ok as
     else Argp_Failure ''Too few required arguments'')"
proof -
  obtain a' s' where as: "as = (a', s')" by fastforce
  note A = Arguments_inv [OF assms(1,2)]
  have "count_inv a' \<and> open_keys a' = item_key ` {i \<in> set items. item_required i} - fst ` set opts"
    using drive_inv [OF assms(3) [unfolded as] A(1)] A(2) by simp
  then have "HasNotParsedRequiredArguments a' \<longleftrightarrow> \<not> item_key ` {i \<in> set items. item_required i} \<subseteq> fst ` set opts"
    using count_inv_iff [of a'] by auto
  moreover have "drive (switch_keys keys) (option_events opts) (Arguments items, s) =
      drive (switch_keys keys) [KEY_END] as"
    using assms(3) by (simp add: option_events_def drive_append switch_keys_def [of _ KEY_INIT])
  ultimately show ?thesis by (simp add: as switch_keys_def [of _ KEY_END])
qed

text \<open>The names of modes and connection types: the four names are accepted, everything else is an
  exception, and printing a connection type and reading it back gives it again, alone and in
  front of a connection string.\<close>

theorem connection_names:
  "Convert_connection (ToString t) = Inr t \<and>
   parse_connection (ToString t @ ''://'' @ cid) = Inr (t, cid) \<and>
   ((\<exists>t'. Convert_connection s = Inr t') \<longleftrightarrow> s \<in> ToString ` UNIV)"
proof -
  have "\<exists>u. s = ToString u" if "Convert_connection s = Inr t'" for t'
    using that by (cases t') (auto simp: Convert_connection_def split: if_splits intro: exI [of _ t'])
  moreover have "Convert_connection (ToString u) = Inr u" for u by simp
  ultimately show ?thesis using parse_connection_ok [of t cid] by auto
qed

text \<open>Without its third option the analyzer refuses to start.\<close>

theorem required_arguments_witness:
  "drive (switch_keys [1000, 2000, 3000]) (option_events [(1000, ''5'')])
    (Arguments analyzer_items, AnalizerArguments_fields) = Argp_Failure ''Too few required arguments''"
proof -
  have d: "distinct (map item_key analyzer_items)" by (simp add: items_keys)
  let ?p = "item_parser (hd analyzer_items)" and ?s = "AnalizerArguments_fields"
  have k: "item_key (hd analyzer_items) = 1000" and m: "hd analyzer_items \<in> set analyzer_items"
    by (simp_all add: analyzer_items_def item_defs)
  have "has_item (Arguments analyzer_items) 1000 ?p"
    using has_item_Arguments [OF d items_unparsed(3) m] by (simp only: k)
  then have l: "list_all2 (\<lambda>(k, v) (p, w). has_item (Arguments analyzer_items) k p \<and> v = w \<and> k \<in> set [1000, 2000, 3000])
      [(1000, ''5'')] [(?p, ''5'')]" by simp
  have run: "run_parsers [(?p, ''5'')] ?s = Inr (?s\<lparr>aa_chunks_total_count := from_chars_size ''5'' None\<rparr>)"
    by (simp add: analyzer_items_def item_defs AnalizerArguments_fields_def)
  obtain a' where a': "drive (switch_keys [1000, 2000, 3000]) (map (\<lambda>(k, v). KEY_OPTION k v) [(1000, ''5'')])
      (Arguments analyzer_items, ?s) = Argp_Ok (a', ?s\<lparr>aa_chunks_total_count := from_chars_size ''5'' None\<rparr>)"
    using drive_options [OF l run] by blast
  have "2000 \<in> item_key ` {i \<in> set analyzer_items. item_required i}"
    by (rule image_eqI [of _ _ "analyzer_items ! 1"]) (simp_all add: analyzer_items_def item_defs)
  then show ?thesis
    using required_arguments [OF d items_unparsed(3) a'] by auto
qed

text \<open>C27: a required number that is not a number is accepted: the option counts as parsed, and the field
  is left without a value.\<close>

theorem non_numeric_accepted:
  assumes "v = [] \<or> \<not> is_digit (hd v)"
  shows "\<exists>a s. drive analyzer_parser
      (option_events [(1000, v), (2000, ''pipe://p''), (3000, ''pipe://c'')])
      (Arguments analyzer_items, AnalizerArguments_fields) = Argp_Ok (a, s) \<and> aa_chunks_total_count s = None"
proof -
  let ?vs = "[v, ''pipe://p'', ''pipe://c'']"
  have d: "distinct (map item_key analyzer_items)" by (simp add: items_keys)
  have run: "run_parsers (zip (map item_parser analyzer_items) ?vs) AnalizerArguments_fields = Inr (AnalizerArguments_fields
      \<lparr>aa_measurer_producer := Some (kPipe, ''p''), aa_measurer_consumer := Some (kPipe, ''c'')\<rparr>)"
    using parse_connection_ok [of kPipe "''p''"] parse_connection_ok [of kPipe "''c''"] assms
    by (simp add: analyzer_items_def item_defs AnalizerArguments_fields_def from_chars_size_none)
  obtain a' where "drive analyzer_parser (option_events (zip [1000, 2000, 3000] ?vs))
      (Arguments analyzer_items, AnalizerArguments_fields) = Argp_Ok (a', AnalizerArguments_fields
      \<lparr>aa_measurer_producer := Some (kPipe, ''p''), aa_measurer_consumer := Some (kPipe, ''c'')\<rparr>)"
    using drive_table [OF d items_unparsed(3) _ _ run] unfolding analyzer_parser_def
    by (auto simp: items_keys(3)) (auto simp: analyzer_items_def)
  then show ?thesis by (simp add: AnalizerArguments_fields_def)
qed

theorem non_numeric_accepted_witness:
  "\<exists>a s. drive analyzer_parser
      (option_events [(1000, ''many''), (2000, ''pipe://p''), (3000, ''pipe://c'')])
      (Arguments analyzer_items, AnalizerArguments_fields) = Argp_Ok (a, s) \<and> aa_chunks_total_count s = None"
  using non_numeric_accepted [of "''many''"] by (simp add: is_digit_def)

end
