(* ===== verification/Run_Test.thy ===== *)
theory Run_Test
  imports Command_Line Utils
begin

text \<open>
  The mode \<open>run_test\<close> (\<open>run/src/as/run_test/run.cpp\<close>): it starts the analyzer, the consumer and the
  producer as child processes, with arguments it prints itself.  What \<open>argp\<close> makes of
  \<open>--name=value\<close>, and the system calls \<open>fork\<close>, \<open>execv\<close> and \<open>wait\<close>, are arguments of the definitions.
\<close>

section \<open>Parsing a command line\<close>

text \<open>
  \<open>argp_parse\<close> with one of the parsers: at \<open>KEY_INIT\<close> they set \<open>state->next = 2\<close>, so the program's name
  and the mode are skipped.  \<open>split\<close> is the event \<open>argp\<close> makes of one argument.
\<close>

definition argp_events ::
  "((string \<times> int) list \<Rightarrow> string \<Rightarrow> argp_event) \<Rightarrow> (string \<times> int) list \<Rightarrow> string list \<Rightarrow> argp_event list" where
  "argp_events split options argv = [KEY_INIT] @ map (split options) (drop 2 argv) @ [KEY_END]"

definition long_option :: "string \<Rightarrow> string \<Rightarrow> string" where
  "long_option name v = ''--'' @ name @ ''='' @ v"

text \<open>What the manual of \<open>argp\<close> says of a long option with an argument.\<close>

definition argp_long_options :: "((string \<times> int) list \<Rightarrow> string \<Rightarrow> argp_event) \<Rightarrow> bool" where
  "argp_long_options split \<longleftrightarrow> (\<forall>options name key v.
     distinct (map fst options) \<and> (name, key) \<in> set options \<and> CHR 0x3D \<notin> set name \<longrightarrow>
     split options (long_option name v) = KEY_OPTION key v)"

text \<open>A function that does what the manual says, for concrete runs.\<close>

definition split_long_option :: "(string \<times> int) list \<Rightarrow> string \<Rightarrow> argp_event" where
  "split_long_option options arg =
     (case str_find ''='' (drop 2 arg) of
        None \<Rightarrow> KEY_OTHER 0
      | Some n \<Rightarrow>
          (case map_of options (take n (drop 2 arg)) of
             None \<Rightarrow> KEY_OTHER 0
           | Some key \<Rightarrow> KEY_OPTION key (drop (n + 1) (drop 2 arg))))"

lemma split_long_option_ok: "argp_long_options split_long_option"
  unfolding argp_long_options_def
proof (intro allI impI, elim conjE)
  fix options :: "(string \<times> int) list" and name v :: string and key
  assume a: "distinct (map fst options)" "(name, key) \<in> set options" "CHR 0x3D \<notin> set name"
  have "str_find ''='' (name @ ''='' @ v) = Some (length name)"
    using str_find_append [OF a(3), of "[]" v] by simp
  then show "split_long_option options (long_option name v) = KEY_OPTION key v"
    using a(1,2) by (simp add: split_long_option_def long_option_def map_of_eq_Some_iff)
qed

text \<open>One option for every entry of a table, in its order, is understood as the table says.\<close>

lemma argp_events_table:
  assumes split: "argp_long_options split" and d: "distinct (map fst options)"
    and n: "\<forall>(name, key) \<in> set options. CHR 0x3D \<notin> set name" and len: "length vs = length options"
  shows "argp_events split options (program # mode # map2 (\<lambda>(name, key). long_option name) options vs) =
    option_events (zip (map snd options) vs)"
proof -
  have "split options (long_option name v) = KEY_OPTION key v" if "(name, key) \<in> set options" for name key v
    using split d n that unfolding argp_long_options_def by fast
  then show ?thesis
    by (auto simp: argp_events_def option_events_def zip_map1 intro!: map_cong dest: set_zip_leftD)
qed

lemma drive_long_options:
  assumes split: "argp_long_options split" and d: "distinct (map fst options)"
    and n: "\<forall>(name, key) \<in> set options. CHR 0x3D \<notin> set name"
    and keys: "map snd options = map item_key items" "distinct (map item_key items)"
    and u: "\<forall>i \<in> set items. \<not> item_parsed i" and len: "length vs = length items"
    and run: "run_parsers (zip (map item_parser items) vs) s = Inr s'"
    and argv: "argv = program # mode # map2 (\<lambda>(name, key). long_option name) options vs"
  shows "\<exists>a. drive (switch_keys (map snd options)) (argp_events split options argv) (Arguments items, s) = Argp_Ok (a, s')"
proof -
  have "length vs = length options" using len arg_cong [OF keys(1), of length] by simp
  then show ?thesis
    using argp_events_table [OF split d n] drive_table [OF keys(2) u keys(1) len run] by (simp add: argv)
qed

section \<open>Connection strings\<close>

datatype ConnectionSide =
    kConsumerProducerServer
  | kConsumerProducerClient
  | kMeasurerProducerServer
  | kMeasurerProducerClient
  | kMeasurerConsumerServer
  | kMeasurerConsumerClient

text \<open>Both switches are complete, so the exception after them is never thrown.\<close>

definition MakeConnectionString :: "ConnectionSide \<Rightarrow> ConnectionType \<Rightarrow> string" where
  "MakeConnectionString side t =
     (case side of
        kConsumerProducerServer \<Rightarrow>
          if t = kNetSocket then ToString t @ ''://:8000''
          else ToString t @ ''://ipc_checker_connection_id''
      | kConsumerProducerClient \<Rightarrow>
          if t = kNetSocket then ToString t @ ''://localhost:8000''
          else ToString t @ ''://ipc_checker_connection_id''
      | kMeasurerProducerServer \<Rightarrow>
          if t = kNetSocket then ToString t @ ''://:8100''
          else ToString t @ ''://ipc_checker_measurer_producer_id''
      | kMeasurerProducerClient \<Rightarrow>
          if t = kNetSocket then ToString t @ ''://localhost:8100''
          else ToString t @ ''://ipc_checker_measurer_producer_id''
      | kMeasurerConsumerServer \<Rightarrow>
          if t = kNetSocket then ToString t @ ''://:8200''
          else ToString t @ ''://ipc_checker_measurer_consumer_id''
      | kMeasurerConsumerClient \<Rightarrow>
          if t = kNetSocket then ToString t @ ''://localhost:8200''
          else ToString t @ ''://ipc_checker_measurer_consumer_id'')"

section \<open>The arguments of the children\<close>

definition analyzer_arguments :: "u64 \<Rightarrow> ConnectionType \<Rightarrow> string list" where
  "analyzer_arguments chunks t =
     [''analyzer'',
      ''--chunks-total-count='' @ to_string (unat chunks),
      ''--measurer-producer='' @ MakeConnectionString kMeasurerProducerServer t,
      ''--measurer-consumer='' @ MakeConnectionString kMeasurerConsumerServer t]"

definition consumer_arguments :: "u64 \<Rightarrow> ConnectionType \<Rightarrow> u64 \<Rightarrow> int \<Rightarrow> string list" where
  "consumer_arguments chunks t buffer_size cpu =
     [''consumer'',
      ''--chunks-total-count='' @ to_string (unat chunks),
      ''--connection='' @ MakeConnectionString kConsumerProducerServer t,
      ''--connection-buffer-size='' @ to_string (unat buffer_size),
      ''--measurer='' @ MakeConnectionString kMeasurerConsumerClient t,
      ''--cpu='' @ to_string_int cpu]"

definition producer_arguments :: "u64 \<Rightarrow> u64 \<Rightarrow> ConnectionType \<Rightarrow> u64 \<Rightarrow> int \<Rightarrow> string list" where
  "producer_arguments chunk_size chunks t buffer_size cpu =
     [''producer'',
      ''--chunks-size='' @ to_string (unat chunk_size),
      ''--chunks-total-count='' @ to_string (unat chunks),
      ''--connection='' @ MakeConnectionString kConsumerProducerClient t,
      ''--connection-buffer-size='' @ to_string (unat buffer_size),
      ''--measurer='' @ MakeConnectionString kMeasurerProducerClient t,
      ''--cpu='' @ to_string_int cpu]"

text \<open>Reading a field that no parser has written.\<close>

definition initialised :: "'a option \<Rightarrow> 'a result" where
  "initialised x = (case x of None \<Rightarrow> Inl (Undefined_Behaviour ''uninitialised field'') | Some v \<Rightarrow> Inr v)"

definition modes_arguments :: "run_test_args \<Rightarrow> string list list result" where
  "modes_arguments a =
     rbind (initialised (ra_chunks_total_count a)) (\<lambda>chunks.
     rbind (initialised (ra_connection_type a)) (\<lambda>t.
     rbind (initialised (ra_connection_buffer_size a)) (\<lambda>buffer_size.
     rbind (initialised (ra_chunks_size a)) (\<lambda>chunk_size.
     Inr [analyzer_arguments chunks t,
          consumer_arguments chunks t buffer_size (ra_environment_consumer_cpu a),
          producer_arguments chunk_size chunks t buffer_size (ra_environment_producer_cpu a)]))))"

section \<open>Starting the children\<close>

text \<open>The vector \<open>execv\<close> gets: the program, the arguments, and a null pointer at the end.\<close>

definition PackModeArguments :: "string \<Rightarrow> string list \<Rightarrow> string option list" where
  "PackModeArguments program arguments = [Some program] @ map Some arguments @ [None]"

text \<open>The \<open>argv\<close> of the new program: what comes before the null pointer.\<close>

definition argv_of :: "string option list \<Rightarrow> string list" where
  "argv_of ptrs = map the (takeWhile (\<lambda>p. p \<noteq> None) ptrs)"

lemma argv_of_Pack [simp]: "argv_of (PackModeArguments program args) = program # args"
  by (induction args) (simp_all add: argv_of_def PackModeArguments_def)

text \<open>
  How a process goes on: it becomes another program, it reaches the end of the loop, or it
  throws.  \<open>fork k\<close> is what the k-th \<open>fork\<close> returns in the process that is followed, \<open>execv\<close> says whether the
  program can be started.
\<close>

datatype progress = Becomes "string list" | Continues | Stops cxx_error

fun start_children ::
  "(nat \<Rightarrow> int) \<Rightarrow> (string option list \<Rightarrow> bool) \<Rightarrow> string \<Rightarrow> nat \<Rightarrow> string list list \<Rightarrow> string \<times> progress" where
  "start_children fork execv program k [] = ([], Continues)"
| "start_children fork execv program k (ma # mas) =
     (if fork k = - 1 then ([], Stops (Runtime_Error ''fork() failed''))
      else if fork k \<noteq> 0
           then (case start_children fork execv program (Suc k) mas of
                   (out, p) \<Rightarrow> (''[run_test] '' @ hd ma @ '' was started...'' @ endl @ out, p))
           else if execv (PackModeArguments program ma)
                then ([], Becomes (argv_of (PackModeArguments program ma)))
                else ([], Stops (Runtime_Error ''execl() failed'')))"

text \<open>\<open>while (wait(nullptr) != -1);\<close> with the value of the k-th call.  The result is how many calls have been made; a process
  whose \<open>wait\<close> never fails stays in the loop.\<close>

partial_function (option) wait_children :: "(nat \<Rightarrow> int) \<Rightarrow> nat \<Rightarrow> nat option" where
  "wait_children wait k = (if wait k \<noteq> - 1 then wait_children wait (Suc k) else Some (Suc k))"

text \<open>
  \<open>runAsRunTest\<close> behind \<open>argp_parse\<close>: the text printed, and how the process ends.  An exit is recorded with its
  status and the number of calls of \<open>wait\<close> before it; \<open>Waits\<close> is a process that waits forever.
\<close>

datatype run_test_end = Image "string list" | Exit int nat | Throws cxx_error | Waits

definition runAsRunTest ::
  "(nat \<Rightarrow> int) \<Rightarrow> (string option list \<Rightarrow> bool) \<Rightarrow> (nat \<Rightarrow> int) \<Rightarrow> (cxx_error \<Rightarrow> string) \<Rightarrow>
   string \<Rightarrow> run_test_args \<Rightarrow> string \<times> run_test_end" where
  "runAsRunTest fork execv wait what program a =
     (let body = (case modes_arguments a of
                    Inl e \<Rightarrow> ([], Inl e)
                  | Inr modes \<Rightarrow>
                      (case start_children fork execv program 0 modes of
                         (out, Stops e) \<Rightarrow> (out, Inl e)
                       | (out, Becomes argv) \<Rightarrow> (out, Inr (Image argv))
                       | (out, Continues) \<Rightarrow>
                           (out, Inr (case wait_children wait 0 of None \<Rightarrow> Waits | Some n \<Rightarrow> Exit 0 n))))
      in case report_exception what ''run_test'' body of
           (out, Inl e) \<Rightarrow> (out, Throws e)
         | (out, Inr r) \<Rightarrow> (out, r))"

section \<open>What the children understand\<close>

text \<open>The three connections between the children, with the sides of their two ends.\<close>

datatype link = Messages | Producer_Ticks | Consumer_Ticks

fun server_side :: "link \<Rightarrow> ConnectionSide" where
  "server_side Messages = kConsumerProducerServer"
| "server_side Producer_Ticks = kMeasurerProducerServer"
| "server_side Consumer_Ticks = kMeasurerConsumerServer"

fun client_side :: "link \<Rightarrow> ConnectionSide" where
  "client_side Messages = kConsumerProducerClient"
| "client_side Producer_Ticks = kMeasurerProducerClient"
| "client_side Consumer_Ticks = kMeasurerConsumerClient"

text \<open>The id in front of which \<open>MakeConnectionString\<close> prints the type.\<close>

definition connection_id :: "ConnectionSide \<Rightarrow> ConnectionType \<Rightarrow> string" where
  "connection_id side t = substr_from (length (ToString t) + 3) (MakeConnectionString side t)"

lemma MakeConnectionString_id: "MakeConnectionString side t = ToString t @ ''://'' @ connection_id side t"
  by (cases side; cases t) (simp_all add: MakeConnectionString_def connection_id_def substr_from_def)

lemma parse_MakeConnectionString [simp]:
  "parse_connection (MakeConnectionString side t) = Inr (t, connection_id side t)"
  using parse_connection_ok [of t "connection_id side t"] by (simp add: MakeConnectionString_id)

text \<open>What a connection is opened at: a port for sockets on the network, a name otherwise.\<close>

definition endpoint :: "ConnectionSide \<Rightarrow> ConnectionType \<Rightarrow> (int + string) result" where
  "endpoint side t =
     rbind (parse_connection (MakeConnectionString side t)) (\<lambda>(t', cid).
     if t' = kNetSocket then rbind (ParseHostAndPort cid) (\<lambda>hp. Inr (Inl (port hp))) else Inr (Inr cid))"

lemma connection_ids:
  "connection_id kConsumerProducerServer t = (if t = kNetSocket then '':8000'' else ''ipc_checker_connection_id'')"
  "connection_id kConsumerProducerClient t = (if t = kNetSocket then ''localhost:8000'' else ''ipc_checker_connection_id'')"
  "connection_id kMeasurerProducerServer t = (if t = kNetSocket then '':8100'' else ''ipc_checker_measurer_producer_id'')"
  "connection_id kMeasurerProducerClient t = (if t = kNetSocket then ''localhost:8100'' else ''ipc_checker_measurer_producer_id'')"
  "connection_id kMeasurerConsumerServer t = (if t = kNetSocket then '':8200'' else ''ipc_checker_measurer_consumer_id'')"
  "connection_id kMeasurerConsumerClient t = (if t = kNetSocket then ''localhost:8200'' else ''ipc_checker_measurer_consumer_id'')"
  by (cases t; simp add: connection_id_def MakeConnectionString_def substr_from_def)+

definition link_port :: "link \<Rightarrow> int" where
  "link_port l = (case l of Messages \<Rightarrow> 8000 | Producer_Ticks \<Rightarrow> 8100 | Consumer_Ticks \<Rightarrow> 8200)"

definition link_name :: "link \<Rightarrow> string" where
  "link_name l = (case l of Messages \<Rightarrow> ''ipc_checker_connection_id''
     | Producer_Ticks \<Rightarrow> ''ipc_checker_measurer_producer_id''
     | Consumer_Ticks \<Rightarrow> ''ipc_checker_measurer_consumer_id'')"

lemma endpoint_link:
  "endpoint (server_side l) t = Inr (if t = kNetSocket then Inl (link_port l) else Inr (link_name l))"
  "endpoint (client_side l) t = Inr (if t = kNetSocket then Inl (link_port l) else Inr (link_name l))"
proof -
  have "ParseHostAndPort (connection_id (server_side l) kNetSocket) = Inr \<lparr>host = [], port = link_port l\<rparr>"
    "ParseHostAndPort (connection_id (client_side l) kNetSocket) = Inr \<lparr>host = ''localhost'', port = link_port l\<rparr>"
    by (cases l; simp add: connection_ids ParseHostAndPort_def substr_def substr_from_def stoi_def Let_def
        is_space_def scan_int_def scan_digits_def is_digit_def char_digit_def in_int_def link_port_def)+
  moreover have "connection_id (server_side l) t = link_name l" "connection_id (client_side l) t = link_name l"
    if "t \<noteq> kNetSocket"
    using that by (cases l; simp add: connection_ids link_name_def)+
  ultimately show
    "endpoint (server_side l) t = Inr (if t = kNetSocket then Inl (link_port l) else Inr (link_name l))"
    "endpoint (client_side l) t = Inr (if t = kNetSocket then Inl (link_port l) else Inr (link_name l))"
    by (simp_all add: endpoint_def)
qed

section \<open>Properties\<close>

text \<open>C28: whatever the type of the connections, the two ends of each of the three connections are given
  the same endpoint, and different connections have different endpoints.\<close>

theorem endpoints_agree:
  "(\<exists>e. endpoint (server_side l) t = Inr e \<and> endpoint (client_side l) t = Inr e) \<and>
   (endpoint (server_side l) t = endpoint (server_side l') t) = (l = l')"
  unfolding endpoint_link by (cases l; cases l') (simp_all add: link_port_def link_name_def)

lemma parse_analyzer:
  assumes "argp_long_options split"
  shows "\<exists>A. drive analyzer_parser (argp_events split analyzer_options (program # analyzer_arguments chunks t))
        (Arguments analyzer_items, AnalizerArguments_fields) =
      Argp_Ok (A, \<lparr>aa_chunks_total_count = Some chunks,
        aa_measurer_producer = Some (t, connection_id kMeasurerProducerServer t),
        aa_measurer_consumer = Some (t, connection_id kMeasurerConsumerServer t)\<rparr>)"
proof -
  let ?vs = "[to_string (unat chunks), MakeConnectionString kMeasurerProducerServer t,
    MakeConnectionString kMeasurerConsumerServer t]"
  have o: "map snd analyzer_options = [1000, 2000, 3000]" by (simp add: analyzer_options_def)
  show ?thesis
    unfolding analyzer_parser_def o [symmetric]
    by (rule drive_long_options [OF assms, where vs = ?vs and mode = "''analyzer''"])
      (simp_all add: analyzer_options_def items_keys items_unparsed analyzer_arguments_def long_option_def
        analyzer_items_def item_defs AnalizerArguments_fields_def)
qed

lemma parse_consumer:
  assumes "argp_long_options split" and "in_int cpu"
  shows "\<exists>C. drive consumer_parser (argp_events split consumer_options (program # consumer_arguments chunks t n cpu))
        (Arguments consumer_items, ConsumerArguments_fields) =
      Argp_Ok (C, \<lparr>ca_chunks_total_count = Some chunks,
        ca_connection = Some (t, connection_id kConsumerProducerServer t),
        ca_connection_buffer_size = Some (Some n),
        ca_measurer = Some (t, connection_id kMeasurerConsumerClient t), ca_cpu = cpu\<rparr>)"
proof -
  let ?vs = "[to_string (unat chunks), MakeConnectionString kConsumerProducerServer t, to_string (unat n),
    MakeConnectionString kMeasurerConsumerClient t, to_string_int cpu]"
  have o: "map snd consumer_options = [1000, 2000, 2001, 3000, 4000]" by (simp add: consumer_options_def)
  show ?thesis
    unfolding consumer_parser_def o [symmetric]
    by (rule drive_long_options [OF assms(1), where vs = ?vs and mode = "''consumer''"])
      (simp_all add: consumer_options_def items_keys items_unparsed consumer_arguments_def long_option_def
        consumer_items_def item_defs ConsumerArguments_fields_def assms(2))
qed

lemma parse_producer:
  assumes "argp_long_options split" and "in_int cpu"
  shows "\<exists>P. drive producer_parser (argp_events split producer_options (program # producer_arguments chunk_size chunks t n cpu))
        (Arguments producer_items, ProducerArguments_fields) =
      Argp_Ok (P, \<lparr>pa_chunks_size = Some chunk_size, pa_chunks_total_count = Some chunks,
        pa_connection = Some (t, connection_id kConsumerProducerClient t),
        pa_connection_buffer_size = Some (Some n),
        pa_measurer = Some (t, connection_id kMeasurerProducerClient t), pa_cpu = cpu\<rparr>)"
proof -
  let ?vs = "[to_string (unat chunk_size), to_string (unat chunks), MakeConnectionString kConsumerProducerClient t,
    to_string (unat n), MakeConnectionString kMeasurerProducerClient t, to_string_int cpu]"
  have o: "map snd producer_options = [1000, 1001, 2000, 2001, 3000, 4000]" by (simp add: producer_options_def)
  show ?thesis
    unfolding producer_parser_def o [symmetric]
    by (rule drive_long_options [OF assms(1), where vs = ?vs and mode = "''producer''"])
      (simp_all add: producer_options_def items_keys items_unparsed producer_arguments_def long_option_def
        producer_items_def item_defs ProducerArguments_fields_def assms(2))
qed

text \<open>C29: if \<open>argp\<close> treats long options as documented, then every child parses the arguments the run was
  given: all required options are there, every number, type and connection string is read as it was
  printed, and nothing else is set.\<close>

theorem child_settings:
  assumes "argp_long_options split" and "in_int cpu"
  shows
    "\<exists>A. drive analyzer_parser (argp_events split analyzer_options (program # analyzer_arguments chunks t))
        (Arguments analyzer_items, AnalizerArguments_fields) =
      Argp_Ok (A, \<lparr>aa_chunks_total_count = Some chunks,
        aa_measurer_producer = Some (t, connection_id kMeasurerProducerServer t),
        aa_measurer_consumer = Some (t, connection_id kMeasurerConsumerServer t)\<rparr>) \<and>
     (\<exists>C. drive consumer_parser (argp_events split consumer_options (program # consumer_arguments chunks t n cpu))
        (Arguments consumer_items, ConsumerArguments_fields) =
      Argp_Ok (C, \<lparr>ca_chunks_total_count = Some chunks,
        ca_connection = Some (t, connection_id kConsumerProducerServer t),
        ca_connection_buffer_size = Some (Some n),
        ca_measurer = Some (t, connection_id kMeasurerConsumerClient t), ca_cpu = cpu\<rparr>)) \<and>
     (\<exists>P. drive producer_parser (argp_events split producer_options (program # producer_arguments chunk_size chunks t n cpu))
        (Arguments producer_items, ProducerArguments_fields) =
      Argp_Ok (P, \<lparr>pa_chunks_size = Some chunk_size, pa_chunks_total_count = Some chunks,
        pa_connection = Some (t, connection_id kConsumerProducerClient t),
        pa_connection_buffer_size = Some (Some n),
        pa_measurer = Some (t, connection_id kMeasurerProducerClient t), pa_cpu = cpu\<rparr>))"
  using parse_analyzer [OF assms(1)] parse_consumer [OF assms] parse_producer [OF assms] by blast

theorem child_settings_witness:
  "\<exists>P. drive producer_parser (argp_events split_long_option producer_options
      (''ipc_checker'' # producer_arguments 64 1000 kPipe 4096 (- 1)))
      (Arguments producer_items, ProducerArguments_fields) =
    Argp_Ok (P, \<lparr>pa_chunks_size = Some 64, pa_chunks_total_count = Some 1000,
      pa_connection = Some (kPipe, connection_id kConsumerProducerClient kPipe),
      pa_connection_buffer_size = Some (Some 4096),
      pa_measurer = Some (kPipe, connection_id kMeasurerProducerClient kPipe), pa_cpu = - 1\<rparr>)"
  using child_settings [OF split_long_option_ok, of "- 1"] by (simp add: in_int_def)

definition started :: "string list \<Rightarrow> string" where
  "started ma = ''[run_test] '' @ hd ma @ '' was started...'' @ endl"

lemma start_children_at:
  assumes "\<forall>j < i. 0 < fork (k + j)" and "i \<le> length mas"
  shows "start_children fork execv program k mas =
    (case start_children fork execv program (k + i) (drop i mas) of
       (out, p) \<Rightarrow> (concat (map started (take i mas)) @ out, p))"
  using assms
proof (induction i arbitrary: k mas)
  case (Suc i)
  then obtain ma mas' where mas: "mas = ma # mas'" by (cases mas) auto
  have "0 < fork k" using Suc.prems(1) by (metis add_0_right zero_less_Suc)
  moreover have "\<forall>j < i. 0 < fork (Suc k + j)" using Suc.prems(1) by (metis Suc_less_eq add_Suc_shift)
  ultimately show ?case
    using Suc.IH [of "Suc k" mas'] Suc.prems(2) by (simp add: mas started_def split: prod.splits)
qed simp

lemma wait_children_ends:
  assumes "\<forall>j < n. wait j \<noteq> - 1" and "wait n = - 1" and "k \<le> n"
  shows "wait_children wait k = Some (Suc n)"
  using assms(3)
proof (induction "n - k" arbitrary: k)
  case 0
  then show ?case using assms(2) by (simp add: wait_children.simps [of wait k])
next
  case (Suc d)
  then show ?case using assms(1) by (simp add: wait_children.simps [of wait k])
qed

lemma wait_children_stays:
  assumes "\<forall>j. wait j \<noteq> - 1"
  shows "wait_children wait k = None"
proof (rule ccontr)
  assume "wait_children wait k \<noteq> None"
  then obtain n where "wait_children wait k = Some n" by auto
  then have "\<exists>j. wait j = - 1"
    by (rule wait_children.raw_induct [where P = "\<lambda>wait k n. \<exists>j. wait j = - 1", rotated]) (auto split: if_splits)
  with assms show False by simp
qed

lemma modes_arguments_Inr:
  assumes "modes_arguments a = Inr modes"
  obtains chunks t n chunk_size where "modes = [analyzer_arguments chunks t,
      consumer_arguments chunks t n (ra_environment_consumer_cpu a),
      producer_arguments chunk_size chunks t n (ra_environment_producer_cpu a)]"
  using assms by (auto simp: modes_arguments_def rbind_Inr)

text \<open>C30: where the first three calls of \<open>fork\<close> succeed, the \<open>i\<close>-th child becomes this program again with the \<open>i\<close>-th
  list of arguments, whose first one selects the analyzer, the consumer and the producer in
  this order, and the parent announces all three, calls \<open>wait\<close> until a call fails, for the first time the \<open>n\<close>-th
  one after \<open>n\<close> others, and returns then; as long as no call fails it does not return.  Where a
  \<open>fork\<close> fails, the children before it have been announced, the error is reported and thrown, and no more is started.\<close>

theorem three_children:
  assumes "modes_arguments a = Inr modes" and "\<forall>j < i. 0 < fork j" and "i \<le> 3"
    and "\<forall>v. execv v"
  shows "(i < 3 \<and> fork i = 0 \<longrightarrow>
      runAsRunTest fork execv wait what program a =
        (concat (map (\<lambda>m. ''[run_test] '' @ hd m @ '' was started...'' @ endl) (take i modes)), Image (program # modes ! i)) \<and>
      main_parser (KEY_ARG (hd (modes ! i))) = Main_Mode ([Mode_Analyzer, Mode_Consumer, Mode_Producer] ! i)) \<and>
    (i < 3 \<and> fork i = - 1 \<longrightarrow>
      runAsRunTest fork execv wait what program a =
        (concat (map (\<lambda>m. ''[run_test] '' @ hd m @ '' was started...'' @ endl) (take i modes)) @
          ''[run_test] An error occurred during work: '' @ what (Runtime_Error ''fork() failed'') @ endl,
         Throws (Runtime_Error ''fork() failed''))) \<and>
    (i = 3 \<and> (\<forall>j < n. wait j \<noteq> - 1) \<and> wait n = - 1 \<longrightarrow>
      runAsRunTest fork execv wait what program a =
        (concat (map (\<lambda>m. ''[run_test] '' @ hd m @ '' was started...'' @ endl) modes), Exit 0 (Suc n))) \<and>
    (i = 3 \<and> (\<forall>j. wait j \<noteq> - 1) \<longrightarrow>
      runAsRunTest fork execv wait what program a =
        (concat (map (\<lambda>m. ''[run_test] '' @ hd m @ '' was started...'' @ endl) modes), Waits))"
proof -
  from modes_arguments_Inr [OF assms(1)] obtain chunks t n' chunk_size where
    modes: "modes = [analyzer_arguments chunks t,
      consumer_arguments chunks t n' (ra_environment_consumer_cpu a),
      producer_arguments chunk_size chunks t n' (ra_environment_producer_cpu a)]" by blast
  have run: "start_children fork execv program 0 modes =
      (case start_children fork execv program i (drop i modes) of
         (out, p) \<Rightarrow> (concat (map started (take i modes)) @ out, p))"
    using start_children_at [of i fork 0 modes execv program] assms(2,3) by (simp add: modes)
  have step: "start_children fork execv program i (drop i modes) =
      (if fork i = - 1 then ([], Stops (Runtime_Error ''fork() failed'')) else ([], Becomes (program # modes ! i)))"
    if "i < 3" "fork i = 0 \<or> fork i = - 1"
    using that assms(4) Cons_nth_drop_Suc [of i modes] by (auto simp: modes dest: sym)
  have mode: "main_parser (KEY_ARG (hd (modes ! i))) = Main_Mode ([Mode_Analyzer, Mode_Consumer, Mode_Producer] ! i)"
    if "i < 3"
  proof -
    from that consider "i = 0" | "i = 1" | "i = 2" by linarith
    then show ?thesis
      by cases (simp_all add: modes main_parser_def Convert_mode_def analyzer_arguments_def
          consumer_arguments_def producer_arguments_def)
  qed
  show ?thesis
    using run step mode wait_children_ends [of n wait 0] wait_children_stays [of wait 0]
    by (auto simp: runAsRunTest_def assms(1) report_exception_def started_def [abs_def] modes)
qed

definition example_settings :: run_test_args where
  "example_settings = \<lparr>ra_chunks_size = Some 64, ra_chunks_total_count = Some 1000,
     ra_connection_type = Some kPipe, ra_connection_buffer_size = Some 4096,
     ra_environment_producer_cpu = - 1, ra_environment_consumer_cpu = - 1\<rparr>"

theorem three_children_witness:
  "(\<exists>out. runAsRunTest (\<lambda>j. if j < 1 then 7 else 0) (\<lambda>_. True) (\<lambda>_. - 1) (\<lambda>_. []) ''ipc_checker'' example_settings =
     (out, Image (''ipc_checker'' # consumer_arguments 1000 kPipe 4096 (- 1)))) \<and>
   snd (runAsRunTest (\<lambda>_. 7) (\<lambda>_. True) (\<lambda>j. if j < 3 then 7 else - 1) (\<lambda>_. []) ''ipc_checker'' example_settings) = Exit 0 4 \<and>
   snd (runAsRunTest (\<lambda>_. 7) (\<lambda>_. True) (\<lambda>_. 7) (\<lambda>_. []) ''ipc_checker'' example_settings) = Waits"
proof -
  have "modes_arguments example_settings = Inr [analyzer_arguments 1000 kPipe,
      consumer_arguments 1000 kPipe 4096 (- 1), producer_arguments 64 1000 kPipe 4096 (- 1)]"
    by (simp add: modes_arguments_def initialised_def example_settings_def)
  note children = three_children [OF this]
  show ?thesis
    using children [of 1 "\<lambda>j. if j < 1 then 7 else 0" "\<lambda>_. True"]
      children [of 3 "\<lambda>_. 7" "\<lambda>_. True" "\<lambda>j. if j < 3 then 7 else - 1" "\<lambda>_. []" "''ipc_checker''" 3]
      children [of 3 "\<lambda>_. 7" "\<lambda>_. True" "\<lambda>_. 7" "\<lambda>_. []" "''ipc_checker''"]
    by simp
qed

end
