(* ===== verification/Descriptors.thy ===== *)
theory Descriptors
  imports Connectors Ring_Sequential "HOL-Library.Multiset"
begin

text \<open>
  Who closes which descriptor.  A class that keeps one open descriptor while its objects live, and
  closes it in its destructor, is a locale; one whose moves leave an object without a descriptor extends it.  All eight connector
  classes are such classes, the client of Unix sockets only where its path cannot be opened, and the client of shared memory
  as long as no attempt to connect is refused after the object was opened.  What a constructor that throws leaves behind is
  stated too.
\<close>

section \<open>Owners of one descriptor\<close>

text \<open>An object that is moved \<open>n\<close> times, each time with the destruction of what the move has left.\<close>

primrec moved :: "('o \<Rightarrow> 'o \<times> 'o) \<Rightarrow> ('o \<Rightarrow> unit io) \<Rightarrow> nat \<Rightarrow> 'o \<Rightarrow> 'o io" where
  "moved move destroy 0 x = io_return x"
| "moved move destroy (Suc n) x =
     io_bind (destroy (snd (move x))) (\<lambda>_. moved move destroy n (fst (move x)))"

text \<open>\<open>closes_all made move destroy\<close>: an object made from an empty history, moved \<open>n\<close> times, used by operations that open and
  close nothing, and destroyed, has closed every descriptor opened for it exactly once, and \<open>n\<close> times \<open>-1\<close>, which
  is no descriptor.\<close>

definition closes_all :: "(kernel \<Rightarrow> history \<Rightarrow> 'o \<Rightarrow> history \<Rightarrow> bool) \<Rightarrow> ('o \<Rightarrow> 'o \<times> 'o) \<Rightarrow> ('o \<Rightarrow> unit io) \<Rightarrow> bool" where
  "closes_all made move destroy \<longleftrightarrow> (\<forall>K x h1 n y h2 h3 r h4.
     made K [] x h1 \<and> moved move destroy n x K h1 = Some (y, h2) \<and>
     opened h3 = opened h2 \<and> closed_fds h3 = closed_fds h2 \<and> destroy x K h3 = Some (r, h4) \<longrightarrow>
     y = Inr x \<and> r = Inr () \<and> mset (closed_fds h4) = mset (opened h4) + replicate_mset n (- 1))"

text \<open>\<open>made K h x h'\<close>: making \<open>x\<close> ready for use against \<open>K\<close> took the history from \<open>h\<close> to \<open>h'\<close>.\<close>

locale descriptor_owner =
  fixes made :: "kernel \<Rightarrow> history \<Rightarrow> 'o \<Rightarrow> history \<Rightarrow> bool" and owned :: "'o \<Rightarrow> int"
    and destroy :: "'o \<Rightarrow> unit io"
  assumes made_owns: "made K h x h' \<Longrightarrow>
      mset (opened h') + mset (closed_fds h) = add_mset (owned x) (mset (opened h) + mset (closed_fds h'))"
    and destroy_closes: "destroy x K h = Some (r, h') \<Longrightarrow>
      r = Inr () \<and> opened h' = opened h \<and> closed_fds h' = closed_fds h @ [owned x]"

text \<open>A move leaves an object without a descriptor, and changes nothing in the one moved to.\<close>

locale movable_owner = descriptor_owner made owned destroy
  for made :: "kernel \<Rightarrow> history \<Rightarrow> 'o \<Rightarrow> history \<Rightarrow> bool" and owned :: "'o \<Rightarrow> int" and destroy :: "'o \<Rightarrow> unit io" +
  fixes move :: "'o \<Rightarrow> 'o \<times> 'o"
  assumes move_to: "fst (move x) = x" and move_from: "owned (snd (move x)) = - 1"
begin

lemma moved_closes:
  "moved move destroy n x K h = Some (y, h') \<Longrightarrow>
    y = Inr x \<and> opened h' = opened h \<and> closed_fds h' = closed_fds h @ replicate n (- 1)"
proof (induction n arbitrary: h)
  case (Suc n)
  then obtain r h1 where d: "destroy (snd (move x)) K h = Some (r, h1)" by (auto simp: io_bind_def split: option.splits)
  from destroy_closes [OF d] Suc show ?case by (simp add: io_bind_def d move_to move_from)
qed (simp add: io_simps)

lemma closes: "closes_all made move destroy"
  unfolding closes_all_def
proof (intro allI impI, elim conjE)
  fix K x h1 n y h2 h3 r h4
  assume made: "made K [] x h1" and m: "moved move destroy n x K h1 = Some (y, h2)"
    and between: "opened h3 = opened h2" "closed_fds h3 = closed_fds h2" and d: "destroy x K h3 = Some (r, h4)"
  show "y = Inr x \<and> r = Inr () \<and> mset (closed_fds h4) = mset (opened h4) + replicate_mset n (- 1)"
    using made_owns [OF made] moved_closes [OF m] destroy_closes [OF d] between by simp
qed

end

text \<open>\<open>quiet m\<close>: whatever the kernel answers, \<open>m\<close> opens and closes nothing.\<close>

definition quiet :: "'a io \<Rightarrow> bool" where
  "quiet m \<longleftrightarrow> (\<forall>K h r h'. m K h = Some (r, h') \<longrightarrow> opened h' = opened h \<and> closed_fds h' = closed_fds h)"

lemma quiet_transfer: "quiet (fd_Send fd b)" "quiet (fd_Receive fd b)"
  by (auto simp: quiet_def fd_Send_def fd_Receive_def io_simps)

section \<open>Attempts to connect\<close>

text \<open>A socket is opened by the constructor: any number of attempts follow, whatever they return.\<close>

primrec again :: "nat \<Rightarrow> 'a io \<Rightarrow> unit io" where
  "again 0 m = io_return ()"
| "again (Suc n) m = io_bind m (\<lambda>_. again n m)"

lemma again_quiet:
  assumes "\<And>h r h'. m K h = Some (r, h') \<Longrightarrow> opened h' = opened h \<and> closed_fds h' = closed_fds h"
  shows "again n m K h = Some (r, h') \<Longrightarrow> opened h' = opened h \<and> closed_fds h' = closed_fds h"
  using assms by (induction n arbitrary: h) (force simp: io_simps)+

text \<open>
  The clients of pipes and of shared memory open their descriptor when they connect: attempts that are refused and leave
  no descriptor, and then one that leaves one, whether it is accepted, refused or throws.
\<close>

primrec after_refusals ::
  "('o \<Rightarrow> (bool result \<times> 'o) io) \<Rightarrow> ('o \<Rightarrow> int) \<Rightarrow> nat \<Rightarrow> kernel \<Rightarrow> history \<Rightarrow> 'o \<Rightarrow> history \<Rightarrow> 'o \<Rightarrow> bool" where
  "after_refusals connect owned 0 K h c h' c' \<longleftrightarrow> h' = h \<and> c' = c"
| "after_refusals connect owned (Suc n) K h c h' c' \<longleftrightarrow>
     (\<exists>h1 c1. connect c K h = Some (Inr (Inr False, c1), h1) \<and> owned c1 = - 1 \<and> after_refusals connect owned n K h1 c1 h' c')"

definition connected :: "('o \<Rightarrow> (bool result \<times> 'o) io) \<Rightarrow> ('o \<Rightarrow> int) \<Rightarrow> 'o \<Rightarrow> kernel \<Rightarrow> history \<Rightarrow> 'o \<Rightarrow> history \<Rightarrow> bool" where
  "connected connect owned c0 K h c h' \<longleftrightarrow>
     (\<exists>n c1 h1 r. after_refusals connect owned n K h c0 h1 c1 \<and> connect c1 K h1 = Some (Inr (r, c), h') \<and> owned c \<noteq> - 1)"

lemma connected_owns:
  assumes one: "\<And>c h r c' h'. connect c K h = Some (Inr (r, c'), h') \<Longrightarrow>
      closed_fds h' = closed_fds h \<and> opened h' = opened h @ (if owned c' = - 1 then [] else [owned c'])"
    and "connected connect owned c0 K h c h'"
  shows "mset (opened h') + mset (closed_fds h) = add_mset (owned c) (mset (opened h) + mset (closed_fds h'))"
proof -
  have "after_refusals connect owned n K h c0 h1 c1 \<Longrightarrow> opened h1 = opened h \<and> closed_fds h1 = closed_fds h" for n h c0 h1 c1
    by (induction n arbitrary: h c0) (auto dest!: one)
  then show ?thesis using assms(2) one unfolding connected_def by fastforce
qed

section \<open>The classes\<close>

definition pipe_server_made :: "string \<Rightarrow> kernel \<Rightarrow> history \<Rightarrow> pipe_end \<Rightarrow> history \<Rightarrow> bool" where
  "pipe_server_made cid K h s h' \<longleftrightarrow> PipeServer cid K h = Some (Inr s, h')"

definition pipe_client_made :: "string \<Rightarrow> kernel \<Rightarrow> history \<Rightarrow> pipe_end \<Rightarrow> history \<Rightarrow> bool" where
  "pipe_client_made cid = connected PipeClient_Connect fifo_fd (PipeClient cid)"

definition unix_server_made :: "char \<Rightarrow> string \<Rightarrow> kernel \<Rightarrow> history \<Rightarrow> unix_end \<Rightarrow> history \<Rightarrow> bool" where
  "unix_server_made stack cid K h s h' \<longleftrightarrow>
     io_bind (UnixSocketServer stack cid) UnixSocketServer_Accept K h = Some (Inr s, h')"

text \<open>The client of a Unix socket, where its path cannot be opened, as the path of a socket cannot.\<close>

definition unix_client_made :: "char \<Rightarrow> string \<Rightarrow> kernel \<Rightarrow> history \<Rightarrow> unix_end \<Rightarrow> history \<Rightarrow> bool" where
  "unix_client_made stack cid K h c h' \<longleftrightarrow> (\<forall>g r. K g (Sys_open (''/tmp/'' @ cid)) = Some r \<longrightarrow> reply_value r = - 1) \<and>
     (\<exists>n. io_bind (UnixSocketClient cid) (\<lambda>c. io_bind (again n (UnixSocketClient_Connect stack c)) (\<lambda>_. io_return c)) K h =
       Some (Inr c, h'))"

definition net_server_made :: "int \<Rightarrow> kernel \<Rightarrow> history \<Rightarrow> net_server \<Rightarrow> history \<Rightarrow> bool" where
  "net_server_made p K h s h' \<longleftrightarrow>
     io_bind (NetSocketServer p) NetSocketServer_Accept K h = Some (Inr s, h')"

definition net_client_made :: "string \<Rightarrow> int \<Rightarrow> kernel \<Rightarrow> history \<Rightarrow> net_client \<Rightarrow> history \<Rightarrow> bool" where
  "net_client_made hst p K h c h' \<longleftrightarrow>
     (\<exists>n. io_bind (NetSocketClient hst p) (\<lambda>c. io_bind (again n (NetSocketClient_Connect c)) (\<lambda>_. io_return c)) K h =
       Some (Inr c, h'))"

definition shmem_server_made :: "string \<Rightarrow> u64 option \<Rightarrow> kernel \<Rightarrow> history \<Rightarrow> shmem_server \<Rightarrow> history \<Rightarrow> bool" where
  "shmem_server_made cid n K h s h' \<longleftrightarrow> SharedMemoryServer cid n K h = Some (Inr s, h')"

definition shmem_client_made :: "(nat \<Rightarrow> bool) \<Rightarrow> string \<Rightarrow> kernel \<Rightarrow> history \<Rightarrow> shmem_client \<Rightarrow> history \<Rightarrow> bool" where
  "shmem_client_made flag cid = connected (SharedMemoryClient_Connect flag) smc_fd (SharedMemoryClient cid)"

interpretation pipe_server: movable_owner "pipe_server_made cid" fifo_fd PipeServer_Close "pipe_move left"
  for cid left
  by unfold_locales
    (auto simp: pipe_move_def FileDescriptor_move_def pipe_server_made_def PipeServer_def PipeServer_Close_def Let_def io_simps
      FileDescriptor_assign_def split: if_splits)

lemma pipe_connect_owns:
  "PipeClient_Connect c K h = Some (Inr (r, c'), h') \<Longrightarrow>
    closed_fds h' = closed_fds h \<and> opened h' = opened h @ (if fifo_fd c' = - 1 then [] else [fifo_fd c'])"
  by (auto simp: PipeClient_Connect_def Let_def io_simps FileDescriptor_assign_def split: if_splits)

interpretation pipe_client: movable_owner "pipe_client_made cid" fifo_fd PipeClient_Close "pipe_move left"
  for cid left
  by unfold_locales
    (use connected_owns [OF pipe_connect_owns] in \<open>auto simp: pipe_move_def FileDescriptor_move_def pipe_client_made_def
      PipeClient_Close_def io_simps split: if_splits\<close>)

interpretation unix_server: movable_owner "unix_server_made stack cid" ux_socket_fd UnixSocketServer_Close "unix_move left"
  for stack cid left
  by unfold_locales
    (auto simp: unix_move_def FileDescriptor_move_def unix_server_made_def UnixSocketServer_def UnixSocketServer_Accept_def UnixSocketServer_Close_def
      Let_def io_simps FileDescriptor_assign_def split: if_splits)

lemma unix_client_owns:
  assumes "unix_client_made stack cid K h c h'"
  shows "mset (opened h') + mset (closed_fds h) = add_mset (ux_socket_fd c) (mset (opened h) + mset (closed_fds h'))"
proof -
  obtain n h1 u where 1: "UnixSocketClient cid K h = Some (Inr c, h1)" "again n (UnixSocketClient_Connect stack c) K h1 = Some (u, h')"
    using assms by (auto simp: unix_client_made_def io_bind_run io_return_run)
  have name: "ux_socket_name c = ''/tmp/'' @ cid"
    using 1(1) by (auto simp: UnixSocketClient_def Let_def io_simps split: if_splits)
  have "opened h' = opened h1 \<and> closed_fds h' = closed_fds h1"
    by (rule again_quiet [OF _ 1(2)])
      (use assms name in \<open>auto simp: unix_client_made_def UnixSocketClient_Connect_def io_simps split: if_splits\<close>)
  with 1(1) show ?thesis
    by (auto simp: UnixSocketClient_def Let_def io_simps FileDescriptor_assign_def split: if_splits)
qed

interpretation unix_client: movable_owner "unix_client_made stack cid" ux_socket_fd UnixSocketClient_Close "unix_move left"
  for stack cid left
  by unfold_locales
    (use unix_client_owns in \<open>auto simp: UnixSocketClient_Close_def io_simps unix_move_def FileDescriptor_move_def split: if_splits\<close>)

interpretation net_server: movable_owner "net_server_made p" ns_socket_fd NetSocketServer_Close net_server_move
  for p
  by unfold_locales
    (auto simp: net_server_move_def FileDescriptor_move_def net_server_made_def NetSocketServer_def NetSocketServer_Accept_def NetSocketServer_Close_def
      io_simps FileDescriptor_assign_def split: if_splits)

lemma net_client_owns:
  assumes "net_client_made hst p K h c h'"
  shows "mset (opened h') + mset (closed_fds h) = add_mset (nc_socket_fd c) (mset (opened h) + mset (closed_fds h'))"
proof -
  obtain n h1 u where 1: "NetSocketClient hst p K h = Some (Inr c, h1)" "again n (NetSocketClient_Connect c) K h1 = Some (u, h')"
    using assms by (auto simp: net_client_made_def io_bind_run io_return_run)
  have "opened h' = opened h1 \<and> closed_fds h' = closed_fds h1"
    by (rule again_quiet [OF _ 1(2)]) (auto simp: NetSocketClient_Connect_def io_simps split: if_splits)
  with 1(1) show ?thesis
    by (auto simp: NetSocketClient_def io_simps FileDescriptor_assign_def split: if_splits)
qed

interpretation net_client: movable_owner "net_client_made hst p" nc_socket_fd NetSocketClient_Close "net_client_move left"
  for hst p left
  by unfold_locales
    (use net_client_owns in \<open>auto simp: net_client_move_def FileDescriptor_move_def NetSocketClient_Close_def io_simps split: if_splits\<close>)

interpretation shmem_server: movable_owner "shmem_server_made cid n" sms_fd SharedMemoryServer_Close "shmem_server_move left"
  for cid n left
  by unfold_locales
    (auto simp: shmem_server_move_def FileDescriptor_move_def shmem_server_made_def SharedMemoryServer_def SharedMemoryServer_Close_def Let_def io_simps
      FileDescriptor_assign_def split: if_splits)

lemma attach_run:
  "SharedMemoryClient_attach flag c K h = Some (r, h') \<longleftrightarrow>
     (\<exists>k. WaitInitialized flag 0 = Some k \<and> h' = h \<and>
       r = Inr (if flag (k + 1) then Inr (flag (k + 2)) else Inl (Assert_Failed ''_rbh->IsInitialized()''), c))"
  by (auto simp: SharedMemoryClient_attach_def io_return_def split: option.splits)

lemma shmem_connect_owns:
  "SharedMemoryClient_Connect flag c K h = Some (Inr (r, c'), h') \<Longrightarrow>
    closed_fds h' = closed_fds h \<and> opened h' = opened h @ (if smc_fd c' = - 1 then [] else [smc_fd c'])"
  by (auto simp: SharedMemoryClient_Connect_def attach_run Let_def io_simps FileDescriptor_assign_def split: if_splits)

interpretation shmem_client: movable_owner "shmem_client_made flag cid" smc_fd SharedMemoryClient_Close "shmem_client_move left"
  for flag cid left
  by unfold_locales
    (use connected_owns [OF shmem_connect_owns] in \<open>auto simp: shmem_client_move_def FileDescriptor_move_def shmem_client_made_def
      SharedMemoryClient_Close_def io_simps split: if_splits\<close>)

section \<open>A kernel for concrete runs\<close>

text \<open>
  Every call succeeds: opening gives the descriptors 3, 4, 5 and so on, \<open>write\<close> takes everything,
  \<open>read\<close> has nothing to give, and a shared-memory object has 4288 bytes.
\<close>

definition obliging_kernel :: kernel where
  "obliging_kernel h c = Some
     (case c of
        Sys_write _ bs \<Rightarrow> Returns (int (length bs))
      | Sys_read _ _ \<Rightarrow> Returns_Bytes []
      | Sys_fstat _ \<Rightarrow> Returns 4288
      | _ \<Rightarrow> if opens c then Returns (3 + int (length (opened h))) else Returns 0)"

section \<open>Properties\<close>

text \<open>C31: which connectors close what they have opened.  A server that has been constructed and, of a socket, has accepted
  a connection; a client of sockets that has been constructed and has tried to connect any number of times, of Unix sockets
  where its path cannot be opened; a client of pipes, and one of shared memory, that has connected, or whose attempt has left
  it with a descriptor, after any number of refused attempts that have left it without one (for a pipe, every refused
  attempt does): when such an object has been moved any number of times and is destroyed, every descriptor it opened has been
  closed exactly once, the listening socket included; a move changes nothing in the object moved to, and
  the destructor of the one moved from closes \<open>-1\<close>; no destruction fails.\<close>

theorem connectors_close:
  "closes_all (pipe_server_made cid) (pipe_move left) PipeServer_Close \<and>
   closes_all (pipe_client_made cid) (pipe_move left) PipeClient_Close \<and>
   closes_all (unix_server_made stack cid) (unix_move left) UnixSocketServer_Close \<and>
   closes_all (unix_client_made stack cid) (unix_move left) UnixSocketClient_Close \<and>
   closes_all (net_server_made p) net_server_move NetSocketServer_Close \<and>
   closes_all (net_client_made hst p) (net_client_move left) NetSocketClient_Close \<and>
   closes_all (shmem_server_made cid n) (shmem_server_move left) SharedMemoryServer_Close \<and>
   closes_all (shmem_client_made flag cid) (shmem_client_move left) SharedMemoryClient_Close"
  by (intro conjI; rule pipe_server.closes pipe_client.closes unix_server.closes unix_client.closes
      net_server.closes net_client.closes shmem_server.closes shmem_client.closes)

theorem connectors_close_witness:
  "\<exists>s h1 h2 h3. unix_server_made CHR ''x'' ''id'' obliging_kernel [] s h1 \<and>
    moved (unix_move (\<lambda>_. [])) UnixSocketServer_Close 1 s obliging_kernel h1 = Some (Inr s, h2) \<and>
    UnixSocketServer_Close s obliging_kernel h2 = Some (Inr (), h3) \<and>
    opened h3 = [3, 4] \<and> mset (closed_fds h3) = {#3, 4, - 1#}"
proof -
  obtain s h1 where m: "unix_server_made CHR ''x'' ''id'' obliging_kernel [] s h1" and o: "opened h1 = [3, 4]"
    by (auto simp: unix_server_made_def UnixSocketServer_def UnixSocketServer_Accept_def Let_def io_simps
        obliging_kernel_def)
  obtain h2 where v: "moved (unix_move (\<lambda>_. [])) UnixSocketServer_Close 1 s obliging_kernel h1 = Some (Inr s, h2)"
    "opened h2 = opened h1"
    by (auto simp: unix_move_def FileDescriptor_move_def UnixSocketServer_Close_def io_simps obliging_kernel_def)
  obtain h3 where c: "UnixSocketServer_Close s obliging_kernel h2 = Some (Inr (), h3)" "opened h3 = opened h2"
    by (auto simp: UnixSocketServer_Close_def io_simps obliging_kernel_def)
  have "closes_all (unix_server_made CHR ''x'' ''id'') (unix_move (\<lambda>_. [])) UnixSocketServer_Close"
    using connectors_close by blast
  then have "mset (closed_fds h3) = mset (opened h3) + replicate_mset 1 (- 1)"
    unfolding closes_all_def using m v(1) c(1) by blast
  with m v c o show ?thesis by (intro exI [of _ s] exI [of _ h1] exI [of _ h2] exI [of _ h3]) simp
qed

text \<open>C32: a constructor that throws after its descriptor was opened leaves it open, because
  \<open>FileDescriptor\<close> has no destructor; the server of shared memory leaves its name in the system too, which
  makes every later creation under this name fail.\<close>

theorem throwing_constructors_leak:
  assumes "NetSocketServer p K1 [] = Some (Inl e1, h1)"
    and "SharedMemoryServer cid n K2 [] = Some (Inl e2, h2)" and "e2 \<noteq> Runtime_Error ''shm_open() failed''"
  shows "closed_fds h1 = [] \<and> (opened h1 = [] \<longleftrightarrow> e1 = Runtime_Error ''socket() failed'') \<and>
    closed_fds h2 = [] \<and> length (opened h2) = 1 \<and> Sys_shm_unlink cid \<notin> fst ` set h2"
proof -
  have "closed_fds h1 = [] \<and> (opened h1 = [] \<longleftrightarrow> e1 = Runtime_Error ''socket() failed'')"
    using assms(1) by (auto simp: NetSocketServer_def io_simps split: if_splits)
  moreover have "closed_fds h2 = [] \<and> length (opened h2) = 1 \<and> Sys_shm_unlink cid \<notin> fst ` set h2"
    using assms(2,3) by (auto simp: SharedMemoryServer_def Let_def io_simps split: if_splits)
  ultimately show ?thesis by blast
qed

definition refusing :: "syscall \<Rightarrow> kernel" where
  "refusing c h c' = (if c' = c then Some (Fails (Other_Errno 98)) else obliging_kernel h c')"

theorem throwing_constructors_leak_witness:
  "\<exists>h1 h2. NetSocketServer 8000 (refusing (Sys_listen 3 1)) [] = Some (Inl (Runtime_Error ''listen() failed''), h1) \<and>
    opened h1 = [3] \<and> closed_fds h1 = [] \<and>
    SharedMemoryServer ''id'' None (refusing (Sys_ftruncate 3 4288)) [] =
      Some (Inl (Runtime_Error ''ftruncate() failed''), h2) \<and> length (opened h2) = 1 \<and>
    Sys_shm_unlink ''id'' \<notin> fst ` set h2"
proof -
  obtain h1 where 1: "NetSocketServer 8000 (refusing (Sys_listen 3 1)) [] = Some (Inl (Runtime_Error ''listen() failed''), h1)"
    "opened h1 = [3]"
    by (auto simp: NetSocketServer_def io_simps refusing_def obliging_kernel_def)
  have "AlignCapacity (ucast kDefaultBufferSizeInBytes) = Inr 4096"
    by (simp add: AlignCapacity_def AlignUpByRecordHeader_def RecordHeader_size_def kDefaultBufferSizeInBytes_def)
  then obtain h2 where 2: "SharedMemoryServer ''id'' None (refusing (Sys_ftruncate 3 4288)) [] =
      Some (Inl (Runtime_Error ''ftruncate() failed''), h2)"
    by (auto simp: SharedMemoryServer_def Let_def io_simps refusing_def obliging_kernel_def SPSCRingBuffer_size_def)
  show ?thesis
    using throwing_constructors_leak [OF 1(1) 2] 1 2 by auto
qed

text \<open>C33: the server of shared memory gives its ring the requested capacity rounded up to a multiple of 4,
  by default 4096, where this is below \<open>2 ^ 32\<close>; a larger request is cut to 32 bits first.\<close>

theorem shared_memory_capacity:
  assumes "SharedMemoryServer cid wanted K h = Some (Inr s, h')"
  defines "n \<equiv> unat (case wanted of None \<Rightarrow> kDefaultBufferSizeInBytes | Some n \<Rightarrow> n) mod 2 ^ 32"
  shows "unat (SharedMemoryServer_GetBufferSize s) = 4 * ((n + 3) div 4) \<and>
    unat (sms_size s) = 192 + 4 * ((n + 3) div 4) \<and> IsInitialized (sms_rbh s) \<and>
    (0 < n \<longrightarrow> ring_holds (sms_rbh s) 0 [])"
proof -
  let ?w = "case wanted of None \<Rightarrow> kDefaultBufferSizeInBytes | Some n \<Rightarrow> n"
  let ?zeros = "\<lambda>aligned :: u32. replicate (unat (SPSCRingBuffer_size + ucast aligned) - unat SPSCRingBuffer_size) 0"
  obtain aligned rb where al: "AlignCapacity (ucast ?w) = Inr aligned"
    and rb: "SPSCRingBuffer aligned (?zeros aligned) = Inr rb"
    and s: "sms_size s = SPSCRingBuffer_size + ucast aligned" "sms_rbh s = SetInitialized rb"
    using assms(1) by (auto simp: SharedMemoryServer_def Let_def io_simps split: if_splits)
  have n: "n < 2 ^ 32" by (simp add: n_def)
  have w: "ucast ?w = (of_nat n :: u32)"
    by (simp only: ucast_u32_mod n_def)
  have n3: "n + 3 < 2 ^ 32"
    using al AlignUp_overflow [OF _ n] by (cases "n + 3 < 2 ^ 32") (simp_all add: AlignCapacity_def w)
  have lt: "align4 n < 2 ^ 32" using align4_less [of n] n3 by simp
  have a: "aligned = of_nat (align4 n)"
    using al align4_ge [of n] by (simp add: AlignCapacity_def w AlignUp_ok [OF n3] word_less_nat_alt lt split: if_splits)
  have size: "unat (SPSCRingBuffer_size + ucast aligned :: u64) = 192 + align4 n"
  proof -
    have "SPSCRingBuffer_size + ucast aligned = (of_nat (192 + align4 n) :: u64)"
      using lt by (simp add: a SPSCRingBuffer_size_def)
    then show ?thesis using lt by (simp del: of_nat_add)
  qed
  have cap: "rb_capacity rb = aligned" using rb by (auto simp: SPSCRingBuffer_def rbind_Inr split: if_splits)
  have "ring_holds (sms_rbh s) 0 []" if "0 < n"
  proof -
    have "0 < align4 n" using that align4_ge [of n] by simp
    then have "\<exists>rb'. SPSCRingBuffer aligned (replicate (align4 n) 0) = Inr rb' \<and> ring_holds rb' 0 []"
      using SPSCRingBuffer_ok [OF align4_dvd _ lt, of "replicate (align4 n) 0"] by (auto simp flip: a)
    moreover have "?zeros aligned = replicate (align4 n) 0"
      using size by (simp add: SPSCRingBuffer_size_def)
    ultimately show ?thesis using rb by (auto simp add: s SetInitialized_def ring_holds_def)
  qed
  moreover have "unat (SharedMemoryServer_GetBufferSize s) = align4 n"
    using lt by (simp add: SharedMemoryServer_GetBufferSize_def GetCapacity_def s SetInitialized_def cap a)
  moreover have "unat (sms_size s) = 192 + align4 n" using size by (simp add: s)
  moreover have "IsInitialized (sms_rbh s)" by (simp add: s SetInitialized_def IsInitialized_def)
  ultimately show ?thesis unfolding align4_def by blast
qed

text \<open>A request of 4 GiB and 8 bytes gives a ring of 8 bytes.\<close>

theorem shared_memory_capacity_witness:
  "\<exists>s h'. SharedMemoryServer ''id'' (Some (2 ^ 32 + 6)) obliging_kernel [] = Some (Inr s, h') \<and>
    unat (SharedMemoryServer_GetBufferSize s) = 8"
proof -
  have al: "AlignCapacity (ucast (2 ^ 32 + 6 :: u64)) = Inr 8" "AlignCapacity 8 = Inr 8"
    by (simp_all add: AlignCapacity_def AlignUpByRecordHeader_def RecordHeader_size_def)
  then obtain s h' where "SharedMemoryServer ''id'' (Some (2 ^ 32 + 6)) obliging_kernel [] = Some (Inr s, h')"
    by (auto simp: SharedMemoryServer_def SPSCRingBuffer_def Let_def io_simps obliging_kernel_def SPSCRingBuffer_size_def)
  then show ?thesis using shared_memory_capacity [of "''id''" "Some (2 ^ 32 + 6)"] by fastforce
qed

end
