(* ===== verification/Wiring.thy ===== *)
theory Wiring
  imports Actors Run_Test Descriptors
begin

text \<open>
  How the modes put an actor together (\<open>run/src/as/*/run.cpp\<close>): from the arguments to the packers and
  connectors of the type asked for, connected or accepted, to the actor, its run, and its
  destruction, on every path.  The variants of \<open>std::visit\<close> are datatypes.  An object's moves are not shown (\<open>Descriptors\<close> has what they do):
  what a move leaves behind is destroyed with descriptor \<open>-1\<close>, which no kernel has open, and with
  what moving leaves of its name.
\<close>

section \<open>Scopes\<close>

definition io_print :: "string \<Rightarrow> unit io" where
  "io_print s = io_bind (sys (Sys_print s)) (\<lambda>_. io_return ())"

definition io_sleep :: "nat \<Rightarrow> unit io" where
  "io_sleep n = io_bind (sys (Sys_sleep n)) (\<lambda>_. io_return ())"

text \<open>The destructor of a local object runs when an exception leaves its scope, but not when the program aborts.\<close>

definition io_guard :: "unit io \<Rightarrow> 'a io \<Rightarrow> 'a io" where
  "io_guard destroy m K h =
     (case m K h of
        Some (Inl e, h') \<Rightarrow> if is_exception e then io_bind destroy (\<lambda>_. io_throw e) K h' else Some (Inl e, h')
      | r \<Rightarrow> r)"

text \<open>An object that does not outlive the scope is destroyed on the normal way out too.\<close>

definition io_scope :: "unit io \<Rightarrow> 'a io \<Rightarrow> 'a io" where
  "io_scope destroy m = io_bind (io_guard destroy m) (\<lambda>x. io_bind destroy (\<lambda>_. io_return x))"

text \<open>The \<open>catch\<close> clause of every \<open>runAs\<close> function.\<close>

definition io_report :: "(cxx_error \<Rightarrow> string) \<Rightarrow> string \<Rightarrow> 'a io \<Rightarrow> 'a io" where
  "io_report what name m K h =
     (case m K h of
        Some (Inl e, h') \<Rightarrow>
          if is_exception e
          then io_bind (io_print (''['' @ name @ ''] An error occurred during work: '' @ what e @ endl)) (\<lambda>_. io_throw e) K h'
          else Some (Inl e, h')
      | r \<Rightarrow> r)"

section \<open>The connector variants\<close>

datatype client = Net_Client net_client | Pipe_Client pipe_end | Shmem_Client shmem_client | Unix_Client unix_end

datatype server = Net_Server net_server | Pipe_Server pipe_end | Shmem_Server shmem_server | Unix_Server unix_end

text \<open>
  What the modes run on: the byte order and the vector implementation of the host, the byte on the stack
  behind a socket's path, the initialisation flag of shared memory as the client's loads see it after a given
  history, \<open>sched_setaffinity\<close>, the clock, the order in which the analyzer's threads take turns, where the
  buffers of an actor lie and what is in their memory, the largest size of a string and the lengths for which \<open>resize\<close> finds memory.  \<open>env_ring name h\<close> is the ring of a name as memory shows it
  to the process after the history \<open>h\<close>, and \<open>env_loads name h\<close> the values its loads of the other side's index return
  from then on.
\<close>

record environment =
  env_host :: Endianness
  env_impl :: vector_impl
  env_string_max :: u64
  env_string_memory :: "u64 \<Rightarrow> bool"
  env_stack :: char
  env_flags :: "history \<Rightarrow> nat \<Rightarrow> bool"
  env_affinity :: "nat set \<Rightarrow> int"
  env_what :: "cxx_error \<Rightarrow> string"
  env_clock :: "nat \<Rightarrow> time_point"
  env_schedule :: "nat \<Rightarrow> bool"
  env_buffer :: "nat \<Rightarrow> u64 \<times> byte list"
  env_ring :: "string \<Rightarrow> history \<Rightarrow> ring_buffer"
  env_loads :: "string \<Rightarrow> history \<Rightarrow> nat \<Rightarrow> u64"

definition env_strings :: "environment \<Rightarrow> string_impl" where
  "env_strings E = \<lparr>string_max_size = env_string_max E, string_memory = env_string_memory E\<rparr>"

definition CreatePacker :: "Endianness \<Rightarrow> ConnectionType \<Rightarrow> packer" where
  "CreatePacker h t =
     (case t of
        kNetSocket \<Rightarrow>
          (let endianess = EndiannessChecker_Value h in
           if endianess = kLittle then NetworkPacker h kLittle else NetworkPacker h kBig)
      | kPipe \<Rightarrow> LocalPacker h
      | kSharedMemory \<Rightarrow> LocalPacker h
      | kUnixSocket \<Rightarrow> LocalPacker h)"

definition make_client :: "ConnectionType \<Rightarrow> string \<Rightarrow> client io" where
  "make_client t cid =
     (case t of
        kNetSocket \<Rightarrow>
          io_bind (io_of_result (ParseHostAndPort cid)) (\<lambda>host_and_port.
          io_bind (NetSocketClient (host host_and_port) (port host_and_port)) (\<lambda>c. io_return (Net_Client c)))
      | kPipe \<Rightarrow> io_return (Pipe_Client (PipeClient cid))
      | kSharedMemory \<Rightarrow> io_return (Shmem_Client (SharedMemoryClient cid))
      | kUnixSocket \<Rightarrow> io_bind (UnixSocketClient cid) (\<lambda>c. io_return (Unix_Client c)))"

fun client_Close :: "client \<Rightarrow> unit io" where
  "client_Close (Net_Client c) = NetSocketClient_Close c"
| "client_Close (Pipe_Client c) = PipeClient_Close c"
| "client_Close (Shmem_Client c) = SharedMemoryClient_Close c"
| "client_Close (Unix_Client c) = UnixSocketClient_Close c"

text \<open>Beside the result, the client as \<open>Connect\<close> leaves it.\<close>

definition keeping :: "'c \<Rightarrow> bool io \<Rightarrow> (bool result \<times> 'c) io" where
  "keeping c m K h = map_option (\<lambda>(r, h'). (Inr (r, c), h')) (m K h)"

definition client_Connect :: "environment \<Rightarrow> client \<Rightarrow> (bool result \<times> client) io" where
  "client_Connect E c K h =
     (case c of
        Net_Client n \<Rightarrow> keeping c (NetSocketClient_Connect n) K h
      | Pipe_Client p \<Rightarrow> io_bind (PipeClient_Connect p) (\<lambda>(r, p'). io_return (r, Pipe_Client p')) K h
      | Shmem_Client s \<Rightarrow>
          io_bind (SharedMemoryClient_Connect (env_flags E h) s) (\<lambda>(r, s'). io_return (r, Shmem_Client s')) K h
      | Unix_Client u \<Rightarrow> keeping c (UnixSocketClient_Connect (env_stack E) u) K h)"

fun client_GetConnectionAddress :: "client \<Rightarrow> string" where
  "client_GetConnectionAddress (Net_Client c) = NetSocketClient_GetConnectionAddress c"
| "client_GetConnectionAddress (Pipe_Client c) = PipeClient_GetConnectionAddress c"
| "client_GetConnectionAddress (Shmem_Client c) = SharedMemoryClient_GetConnectionAddress c"
| "client_GetConnectionAddress (Unix_Client c) = UnixSocketClient_GetConnectionAddress c"

text \<open>The \<open>requires\<close> expressions: a client of shared memory has no buffer to set up, and only network sockets
  have Nagle's algorithm.\<close>

fun sized_client :: "client \<Rightarrow> ((u64 \<Rightarrow> unit io) \<times> u64 io) option" where
  "sized_client (Net_Client c) = Some (\<lambda>n. NetSocketClient_SetBufferSize n c, NetSocketClient_GetBufferSize c)"
| "sized_client (Pipe_Client c) = Some (\<lambda>n. PipeClient_SetBufferSize n c, PipeClient_GetBufferSize c)"
| "sized_client (Shmem_Client c) = None"
| "sized_client (Unix_Client c) = Some (\<lambda>n. UnixSocketClient_SetBufferSize n c, UnixSocketClient_GetBufferSize c)"

fun client_SetNoDelay :: "client \<Rightarrow> unit io option" where
  "client_SetNoDelay (Net_Client c) = Some (NetSocketClient_SetNoDelay c)"
| "client_SetNoDelay _ = None"

text \<open>
  One turn of \<open>while (!client.Connect())\<close>, with a message and a second's sleep when the attempt was refused.
  When \<open>Connect\<close> throws, the client is destroyed.
\<close>

definition connect_attempt :: "environment \<Rightarrow> string \<Rightarrow> client \<Rightarrow> (bool \<times> client) io" where
  "connect_attempt E who c =
     io_bind (client_Connect E c) (\<lambda>(r, c').
     case r of
       Inl e \<Rightarrow> io_guard (client_Close c') (io_throw e)
     | Inr b \<Rightarrow>
         if b then io_return (True, c')
         else
         io_bind (io_print (who @ ''Cannot connect to '' @ client_GetConnectionAddress c' @ endl)) (\<lambda>_.
         io_bind (io_sleep 1) (\<lambda>_. io_return (False, c'))))"

partial_function (option) connect_loop ::
  "environment \<Rightarrow> string \<Rightarrow> client \<Rightarrow> kernel \<Rightarrow> history \<Rightarrow> (client result \<times> history) option" where
  "connect_loop E who c K h =
     Option.bind (connect_attempt E who c K h) (\<lambda>(r, h1).
     case r of
       Inl e \<Rightarrow> Some (Inl e, h1)
     | Inr (b, c') \<Rightarrow> if b then Some (Inr c', h1) else connect_loop E who c' K h1)"

definition connected :: "string \<Rightarrow> unit io" where
  "connected who = io_print (who @ ''Connection was successfully established'' @ endl)"

definition set_no_delay :: "client \<Rightarrow> unit io \<Rightarrow> unit io" where
  "set_no_delay c message =
     (case client_SetNoDelay c of None \<Rightarrow> io_return () | Some m \<Rightarrow> io_bind m (\<lambda>_. message))"

text \<open>The size wanted, as it is printed.\<close>

definition wanted :: "u64 option \<Rightarrow> string" where
  "wanted buffer_size =
     (case buffer_size of None \<Rightarrow> ''--'' | Some n \<Rightarrow> to_string (unat n) @ '' bytes'')"

definition report_size :: "string \<Rightarrow> u64 io \<Rightarrow> u64 option \<Rightarrow> unit io" where
  "report_size who get_size buffer_size =
     io_bind (io_print (who @ ''Internal buffer prepared for connection: actual size is '')) (\<lambda>_.
     io_bind get_size (\<lambda>n.
     io_print (to_string (unat n) @ '' bytes, wanted size is '' @ wanted buffer_size @ endl)))"

definition set_buffer_size :: "client \<Rightarrow> string \<Rightarrow> u64 option \<Rightarrow> unit io" where
  "set_buffer_size c who buffer_size =
     (case sized_client c of
        None \<Rightarrow> io_return ()
      | Some (set_size, get_size) \<Rightarrow>
          io_bind (case buffer_size of None \<Rightarrow> io_return () | Some n \<Rightarrow> set_size n) (\<lambda>_.
          report_size who get_size buffer_size))"

text \<open>
  The servers.  \<open>Accept\<close> and \<open>SetBufferSize\<close> are called on a local object, which is destroyed when they
  throw.  The analyzer asks for no buffer size.
\<close>

definition make_server :: "environment \<Rightarrow> ConnectionType \<Rightarrow> string \<Rightarrow> u64 option \<Rightarrow> server io" where
  "make_server E t cid buffer_size =
     (case t of
        kNetSocket \<Rightarrow>
          io_bind (io_of_result (ParseHostAndPort cid)) (\<lambda>host_and_port.
          io_bind (NetSocketServer (port host_and_port)) (\<lambda>s.
          io_bind (io_guard (NetSocketServer_Close s) (NetSocketServer_Accept s)) (\<lambda>s.
          io_guard (NetSocketServer_Close s)
            (io_bind (case buffer_size of None \<Rightarrow> io_return () | Some n \<Rightarrow> NetSocketServer_SetBufferSize n s) (\<lambda>_.
             io_return (Net_Server s))))))
      | kPipe \<Rightarrow> io_bind (PipeServer cid) (\<lambda>s. io_return (Pipe_Server s))
      | kSharedMemory \<Rightarrow> io_bind (SharedMemoryServer cid buffer_size) (\<lambda>s. io_return (Shmem_Server s))
      | kUnixSocket \<Rightarrow>
          io_bind (UnixSocketServer (env_stack E) cid) (\<lambda>s.
          io_bind (io_guard (UnixSocketServer_Close s) (UnixSocketServer_Accept s)) (\<lambda>s.
          io_return (Unix_Server s))))"

fun server_Close :: "server \<Rightarrow> unit io" where
  "server_Close (Net_Server s) = NetSocketServer_Close s"
| "server_Close (Pipe_Server s) = PipeServer_Close s"
| "server_Close (Shmem_Server s) = SharedMemoryServer_Close s"
| "server_Close (Unix_Server s) = UnixSocketServer_Close s"

fun server_GetBufferSize :: "server \<Rightarrow> u64 io option" where
  "server_GetBufferSize (Net_Server s) = Some (NetSocketServer_GetBufferSize s)"
| "server_GetBufferSize (Shmem_Server s) = Some (io_return (SharedMemoryServer_GetBufferSize s))"
| "server_GetBufferSize _ = None"

section \<open>Sending and receiving\<close>

text \<open>A call that works on a ring in shared memory; \<open>name\<close> is the one it is opened under.\<close>

definition on_ring :: "environment \<Rightarrow> string \<Rightarrow> ((nat \<Rightarrow> u64) \<Rightarrow> ring_buffer \<Rightarrow> ('a \<times> ring_buffer) result option) \<Rightarrow> 'a io" where
  "on_ring E name f K h =
     (case f (env_loads E name h) (env_ring E name h) of
        None \<Rightarrow> None
      | Some (Inl e) \<Rightarrow> Some (Inl e, h)
      | Some (Inr (x, rb)) \<Rightarrow> Some (Inr x, h @ [(Shm_left name rb, Returns 0)]))"

fun client_Send :: "environment \<Rightarrow> client \<Rightarrow> buffer \<Rightarrow> unit io" where
  "client_Send E (Net_Client c) b = NetSocketClient_Send b c"
| "client_Send E (Pipe_Client c) b = PipeClient_Send b c"
| "client_Send E (Shmem_Client c) b =
     on_ring E (smc_name c) (\<lambda>loads rb. obind (SharedMemoryClient_Send loads b rb) (\<lambda>rb. Some (Inr ((), rb))))"
| "client_Send E (Unix_Client c) b = UnixSocketClient_Send b c"

fun server_Receive :: "environment \<Rightarrow> server \<Rightarrow> buffer \<Rightarrow> buffer io" where
  "server_Receive E (Net_Server s) b = NetSocketServer_Receive b s"
| "server_Receive E (Pipe_Server s) b = PipeServer_Receive b s"
| "server_Receive E (Shmem_Server s) b = on_ring E (sms_name s) (\<lambda>loads. SharedMemoryServer_Receive loads b)"
| "server_Receive E (Unix_Server s) b = UnixSocketServer_Receive b s"

text \<open>The buffers of an actor are members of it, made by the default constructor.\<close>

definition actor_buffer :: "environment \<Rightarrow> nat \<Rightarrow> buffer" where
  "actor_buffer E k = (case env_buffer E k of (self, bytes) \<Rightarrow> Buffer_init self bytes)"

text \<open>The descriptor of a connection that has one.\<close>

definition client_fd :: "client \<Rightarrow> int" where
  "client_fd c = (case c of Net_Client n \<Rightarrow> nc_socket_fd n | Pipe_Client p \<Rightarrow> fifo_fd p
     | Shmem_Client s \<Rightarrow> smc_fd s | Unix_Client u \<Rightarrow> ux_socket_fd u)"

definition server_fd :: "server \<Rightarrow> int" where
  "server_fd s = (case s of Net_Server n \<Rightarrow> ns_socket_fd n | Pipe_Server p \<Rightarrow> fifo_fd p
     | Shmem_Server m \<Rightarrow> sms_fd m | Unix_Server u \<Rightarrow> ux_socket_fd u)"

fun client_in_memory :: "client \<Rightarrow> bool" where
  "client_in_memory (Shmem_Client _) = True"
| "client_in_memory _ = False"

fun server_in_memory :: "server \<Rightarrow> bool" where
  "server_in_memory (Shmem_Server _) = True"
| "server_in_memory _ = False"

lemma sending_client: "\<not> client_in_memory c \<Longrightarrow> sending (client_Send E c) K = fd_send K (client_fd c)"
  by (cases c; intro ext) (simp_all add: fd_send_def sending_def client_fd_def NetSocketClient_Send_def
      PipeClient_Send_def UnixSocketClient_Send_def)

lemma receiving_server: "\<not> server_in_memory s \<Longrightarrow> receiving (server_Receive E s) K = fd_receive K (server_fd s)"
  by (cases s; intro ext) (simp_all add: fd_receive_def receiving_def server_fd_def NetSocketServer_Receive_def
      PipeServer_Receive_def UnixSocketServer_Receive_def)

end
