(* ===== verification/Packing.thy ===== *)
theory Packing
  imports Packers
begin

text \<open>
  The dispatch of the packers (\<open>packer.hpp\<close>, \<open>packer_traits.hpp\<close>) and their interface \<open>Pack\<close> and \<open>Unpack\<close>: which
  overload or which specialisation of \<open>PackerTraits\<close> an object's type selects, as a recursion over the objects the
  program and its tests pack.  The traits of \<open>Packers\<close> are what the recursion comes to.
\<close>

section \<open>Objects and their types\<close>

text \<open>\<open>Number\<close> is \<open>int64_t\<close>, \<open>uint64_t\<close> or \<open>double\<close>; \<open>View\<close> is a \<open>BytesView\<close> with the bytes behind it.\<close>

datatype packable =
    Number (number: u64)
  | View (view: "byte list")
  | Std_String (std_string: "byte list")
  | Time_Point (tick: time_point)
  | Complex_Object (complex_object: ComplexObject)

datatype packable_type = Number_Type | View_Type nat | String_Type | Time_Type | Complex_Type

fun type_of :: "packable \<Rightarrow> packable_type" where
  "type_of (Number w) = Number_Type"
| "type_of (View s) = View_Type (length s)"
| "type_of (Std_String s) = String_Type"
| "type_of (Time_Point t) = Time_Type"
| "type_of (Complex_Object c) = Complex_Type"

text \<open>How deep \<open>PackerTraits\<close> calls the packer again.\<close>

fun depth :: "packable \<Rightarrow> nat" where
  "depth (Number w) = 0"
| "depth (View s) = 0"
| "depth (Std_String s) = 1"
| "depth (Time_Point t) = 1"
| "depth (Complex_Object c) = 2"

section \<open>Serializing\<close>

text \<open>\<open>requires { Impl().SerializeImpl(object); }\<close>: the overload of the packer for the object, if it has one.\<close>

fun has_SerializeImpl :: "packer \<Rightarrow> packable \<Rightarrow> (buffer \<Rightarrow> buffer result) option" where
  "has_SerializeImpl p (Number w) = Some (SerializeImpl p w)"
| "has_SerializeImpl p (View s) = Some (SerializeImpl_view p s (of_nat (length s)))"
| "has_SerializeImpl p _ = None"

text \<open>The primary template of \<open>PackerTraits\<close> does not compile: no object gets there.\<close>

definition PackerTraits_primary :: "'a result" where
  "PackerTraits_primary = Inl (Assert_Failed ''Not implemented!'')"

function Serialize :: "packer \<Rightarrow> packable \<Rightarrow> buffer \<Rightarrow> buffer result"
  and PackerTraits_Serialize :: "packer \<Rightarrow> packable \<Rightarrow> buffer \<Rightarrow> buffer result" where
  "Serialize p ob b =
     (case has_SerializeImpl p ob of Some f \<Rightarrow> f b | None \<Rightarrow> PackerTraits_Serialize p ob b)"
| "PackerTraits_Serialize p (Std_String s) b =
     rbind (Serialize p (Number (of_nat (length s))) b) (\<lambda>b. Serialize p (View s) b)"
| "PackerTraits_Serialize p (Time_Point t) b = Serialize p (Number (time_since_epoch t)) b"
| "PackerTraits_Serialize p (Complex_Object c) b =
     rbind (Serialize p (Number (co_i c)) b) (\<lambda>b.
     rbind (Serialize p (Number (co_d c)) b) (\<lambda>b.
     rbind (Serialize p (Std_String (co_s c)) b) (\<lambda>b.
     Serialize p (Number (co_u c)) b)))"
| "PackerTraits_Serialize p (Number w) b = PackerTraits_primary"
| "PackerTraits_Serialize p (View s) b = PackerTraits_primary"
  by pat_completeness auto

termination
  by (relation "measure (case_sum (\<lambda>(p, ob, b). 2 * depth ob + 1) (\<lambda>(p, ob, b). 2 * depth ob))") auto

section \<open>Deserializing\<close>

text \<open>The object is passed by reference: what is read replaces the content it has.\<close>

fun has_DeserializeImpl :: "packer \<Rightarrow> packable \<Rightarrow> (buffer \<Rightarrow> (packable \<times> buffer) result) option" where
  "has_DeserializeImpl p (Number w) = Some (\<lambda>b. rbind (DeserializeImpl p b) (\<lambda>(w, b). Inr (Number w, b)))"
| "has_DeserializeImpl p (View s) =
     Some (\<lambda>b. rbind (DeserializeImpl_view p s (of_nat (length s)) b) (\<lambda>(s, b). Inr (View s, b)))"
| "has_DeserializeImpl p _ = None"

text \<open>Local numbers are uninitialised before they are read into; the model has 0 there.\<close>

function Deserialize :: "string_impl \<Rightarrow> packer \<Rightarrow> packable \<Rightarrow> buffer \<Rightarrow> (packable \<times> buffer) result"
  and PackerTraits_Deserialize :: "string_impl \<Rightarrow> packer \<Rightarrow> packable \<Rightarrow> buffer \<Rightarrow> (packable \<times> buffer) result" where
  "Deserialize si p ob b =
     (case has_DeserializeImpl p ob of Some f \<Rightarrow> f b | None \<Rightarrow> PackerTraits_Deserialize si p ob b)"
| "PackerTraits_Deserialize si p (Std_String s) b =
     rbind (Deserialize si p (Number 0) b) (\<lambda>(n, b).
     rbind (resize si (number n) s) (\<lambda>s.
     rbind (Deserialize si p (View s) b) (\<lambda>(v, b).
     Inr (Std_String (view v), b))))"
| "PackerTraits_Deserialize si p (Time_Point t) b =
     rbind (Deserialize si p (Number 0) b) (\<lambda>(count, b). Inr (Time_Point (time_point (number count)), b))"
| "PackerTraits_Deserialize si p (Complex_Object c) b =
     rbind (Deserialize si p (Number (co_i c)) b) (\<lambda>(i, b).
     rbind (Deserialize si p (Number (co_d c)) b) (\<lambda>(d, b).
     rbind (Deserialize si p (Std_String (co_s c)) b) (\<lambda>(s, b).
     rbind (Deserialize si p (Number (co_u c)) b) (\<lambda>(u, b).
     Inr (Complex_Object \<lparr>co_i = number i, co_d = number d, co_s = std_string s, co_u = number u\<rparr>, b)))))"
| "PackerTraits_Deserialize si p (Number w) b = PackerTraits_primary"
| "PackerTraits_Deserialize si p (View s) b = PackerTraits_primary"
  by pat_completeness auto

termination
  by (relation "measure (case_sum (\<lambda>(m, p, ob, b). 2 * depth ob + 1) (\<lambda>(m, p, ob, b). 2 * depth ob))") auto

text \<open>The members \<open>Pack\<close> and \<open>Unpack\<close>, the same in both packers.\<close>

definition Pack :: "packer \<Rightarrow> buffer \<Rightarrow> packable \<Rightarrow> buffer result" where
  "Pack p b ob = Serialize p ob b"

definition Unpack :: "string_impl \<Rightarrow> packer \<Rightarrow> buffer \<Rightarrow> packable \<Rightarrow> (packable \<times> buffer) result" where
  "Unpack si p b ob = Deserialize si p ob b"

section \<open>What the dispatch comes to\<close>

lemma Serialize_cases:
  "Serialize p (Number w) = SerializeImpl p w"
  "Serialize p (View s) = SerializeImpl_view p s (of_nat (length s))"
  "Serialize p (Std_String s) = string_Serialize p s"
  "Serialize p (Time_Point t) = time_point_Serialize p t"
  "Serialize p (Complex_Object c) = ComplexObject_Serialize p c"
proof -
  show w: "Serialize p (Number w) = SerializeImpl p w" for w by (intro ext) simp
  show v: "Serialize p (View s) = SerializeImpl_view p s (of_nat (length s))" for s by (intro ext) simp
  show s: "Serialize p (Std_String s) = string_Serialize p s" for s
    by (intro ext) (simp add: string_Serialize_def v)
  show "Serialize p (Time_Point t) = time_point_Serialize p t"
    by (intro ext) (simp add: time_point_Serialize_def)
  show "Serialize p (Complex_Object c) = ComplexObject_Serialize p c"
    by (intro ext) (simp add: ComplexObject_Serialize_def string_Serialize_def v w)
qed

lemma Deserialize_cases:
  "Deserialize si p (Number w) = (\<lambda>b. rbind (DeserializeImpl p b) (\<lambda>(w, b). Inr (Number w, b)))"
  "Deserialize si p (View s) =
     (\<lambda>b. rbind (DeserializeImpl_view p s (of_nat (length s)) b) (\<lambda>(s, b). Inr (View s, b)))"
  "Deserialize si p (Std_String s) = (\<lambda>b. rbind (Deserialize si p (Number 0) b) (\<lambda>(n, b).
     rbind (resize si (number n) s) (\<lambda>s.
     rbind (Deserialize si p (View s) b) (\<lambda>(v, b).
     Inr (Std_String (view v), b)))))"
  "Deserialize si p (Time_Point t) =
     (\<lambda>b. rbind (Deserialize si p (Number 0) b) (\<lambda>(count, b). Inr (Time_Point (time_point (number count)), b)))"
  "Deserialize si p (Complex_Object c) =
     (\<lambda>b. rbind (Deserialize si p (Number (co_i c)) b) (\<lambda>(i, b).
     rbind (Deserialize si p (Number (co_d c)) b) (\<lambda>(d, b).
     rbind (Deserialize si p (Std_String (co_s c)) b) (\<lambda>(s, b).
     rbind (Deserialize si p (Number (co_u c)) b) (\<lambda>(u, b).
     Inr (Complex_Object \<lparr>co_i = number i, co_d = number d, co_s = std_string s, co_u = number u\<rparr>, b))))))"
  by (intro ext; subst Deserialize.simps; simp only: has_DeserializeImpl.simps option.case PackerTraits_Deserialize.simps)+

declare Serialize.simps [simp del] Deserialize.simps [simp del]

section \<open>Types\<close>

text \<open>
  \<open>unpacks f Q\<close>: on any bytes \<open>f\<close> stops with one of three exceptions or reads some \<open>n\<close> bytes that are there, and
  then \<open>Q x n\<close> holds of the object it returns.
\<close>

definition unpack_errors :: "cxx_error set" where
  "unpack_errors = {Length_Error, Bad_Alloc, Runtime_Error ''not enough message in buffer''}"

definition unpacks :: "(buffer \<Rightarrow> ('a \<times> buffer) result) \<Rightarrow> ('a \<Rightarrow> nat \<Rightarrow> bool) \<Rightarrow> bool" where
  "unpacks f Q \<longleftrightarrow> (\<forall>b. buffer_inv b \<longrightarrow>
     (case f b of Inl e \<Rightarrow> e \<in> unpack_errors | Inr (x, b') \<Rightarrow> \<exists>n. Q x n \<and> buffer_reads b n b'))"

lemma unpacksD:
  assumes "unpacks f Q" and "buffer_inv b"
  shows "f b = Inl e \<Longrightarrow> e \<in> unpack_errors"
    and "f b = Inr (x, b') \<Longrightarrow> \<exists>n. Q x n \<and> buffer_reads b n b'"
  using assms by (auto simp: unpacks_def split: sum.splits)

lemma unpacks_return: "Q x 0 \<Longrightarrow> unpacks (\<lambda>b. Inr (x, b)) Q"
  by (auto simp: unpacks_def buffer_reads_def intro: exI [of _ 0])

lemma unpacks_throw: "e \<in> unpack_errors \<Longrightarrow> unpacks (\<lambda>b. Inl e) Q"
  by (simp add: unpacks_def)

lemma unpacks_seq:
  assumes f: "unpacks f P" and g: "\<And>x n. P x n \<Longrightarrow> unpacks (g x) (\<lambda>y m. Q y (n + m))"
  shows "unpacks (\<lambda>b. rbind (f b) (\<lambda>(x, b). g x b)) Q"
  unfolding unpacks_def
proof (intro allI impI)
  fix b assume b: "buffer_inv b"
  show "case rbind (f b) (\<lambda>(x, b). g x b) of Inl e \<Rightarrow> e \<in> unpack_errors
    | Inr (y, b') \<Rightarrow> \<exists>n. Q y n \<and> buffer_reads b n b'"
  proof (cases "f b")
    case (Inl e)
    then show ?thesis using unpacksD(1) [OF f b] by simp
  next
    case (Inr s)
    then obtain x b1 where 1: "f b = Inr (x, b1)" by (cases s) simp
    then obtain n where n: "P x n" "buffer_reads b n b1" using unpacksD(2) [OF f b] by blast
    then have b1: "buffer_inv b1" by (simp add: buffer_reads_def)
    show ?thesis
    proof (cases "g x b1")
      case (Inl e)
      then show ?thesis using 1 unpacksD(1) [OF g [OF n(1)] b1] by simp
    next
      case (Inr t)
      then obtain y b2 where 2: "g x b1 = Inr (y, b2)" by (cases t) simp
      then obtain m where "Q y (n + m)" "buffer_reads b1 m b2" using unpacksD(2) [OF g [OF n(1)] b1] by blast
      then show ?thesis using 1 2 buffer_reads_trans [OF n(2)] by auto
    qed
  qed
qed

text \<open>The bytes an object takes in a buffer.\<close>

fun packed_size :: "packable \<Rightarrow> nat" where
  "packed_size (Number w) = 8"
| "packed_size (View s) = length s"
| "packed_size (Std_String s) = 8 + length s"
| "packed_size (Time_Point t) = 8"
| "packed_size (Complex_Object c) = 32 + length (co_s c)"

text \<open>An object of the type of \<open>old\<close> that took \<open>n\<close> bytes.\<close>

definition like :: "packable \<Rightarrow> packable \<Rightarrow> nat \<Rightarrow> bool" where
  "like old ob n \<longleftrightarrow> type_of ob = type_of old \<and> n = packed_size ob"

lemma like_Number: "like (Number w) ob n \<longleftrightarrow> n = 8 \<and> (\<exists>w. ob = Number w)"
  and like_View: "like (View s) ob n \<longleftrightarrow> n = length s \<and> (\<exists>s'. ob = View s' \<and> length s' = length s)"
  and like_String: "like (Std_String s) ob n \<longleftrightarrow> (\<exists>s'. ob = Std_String s' \<and> n = 8 + length s')"
  and like_Time: "like (Time_Point t) ob n \<longleftrightarrow> n = 8 \<and> (\<exists>t. ob = Time_Point t)"
  and like_Complex: "like (Complex_Object c) ob n \<longleftrightarrow> (\<exists>c'. ob = Complex_Object c' \<and> n = 32 + length (co_s c'))"
  by (cases ob; auto simp: like_def)+

lemmas likes = like_Number like_View like_String like_Time like_Complex

context word_packer
begin

lemma unpacks_word: "unpacks (DeserializeImpl p) (\<lambda>w n. n = 8)"
  unfolding unpacks_def
proof (intro allI impI)
  fix b assume b: "buffer_inv b"
  show "case DeserializeImpl p b of Inl e \<Rightarrow> e \<in> unpack_errors | Inr (x, b') \<Rightarrow> \<exists>n. n = 8 \<and> buffer_reads b n b'"
    using des_word_ok [OF b] des_word_short [OF b]
    by (cases "rd b + 8 \<le> kBufferCapacityInBytes") (auto simp: unpack_errors_def)
qed

lemma unpacks_Number: "unpacks (Deserialize si p (Number w)) (like (Number w))"
  unfolding Deserialize_cases by (rule unpacks_seq [OF unpacks_word]) (auto intro: unpacks_return simp: likes)

lemma unpacks_View:
  assumes "length s < 2 ^ 63"
  shows "unpacks (Deserialize si p (View s)) (like (View s))"
proof -
  have "unpacks (ReadBytes s (of_nat (length s))) (\<lambda>s' n. n = length s \<and> length s' = length s)"
    unfolding unpacks_def
  proof (intro allI impI)
    fix b assume b: "buffer_inv b"
    show "case ReadBytes s (of_nat (length s)) b of Inl e \<Rightarrow> e \<in> unpack_errors
      | Inr (s', b') \<Rightarrow> \<exists>n. (n = length s \<and> length s' = length s) \<and> buffer_reads b n b'"
      using ReadBytes_ok [OF b _ refl, of s] ReadBytes_short [OF b _ assms, of s] length_unread [OF b]
      by (cases "rd b + length s \<le> kBufferCapacityInBytes") (auto simp: unpack_errors_def)
  qed
  then show ?thesis
    unfolding Deserialize_cases des_view
    by (rule unpacks_seq) (auto intro: unpacks_return simp: likes)
qed

lemma unpacks_String:
  assumes "unat (string_max_size si) < 2 ^ 63"
  shows "unpacks (Deserialize si p (Std_String s)) (like (Std_String s))"
  unfolding Deserialize_cases(3)
proof (rule unpacks_seq [OF unpacks_Number])
  fix x n assume "like (Number 0) x n"
  then obtain w where x: "x = Number w" "n = 8" by (auto simp: likes)
  show "unpacks (\<lambda>b. rbind (resize si (number x) s) (\<lambda>s. rbind (Deserialize si p (View s) b) (\<lambda>(v, b). Inr (Std_String (view v), b))))
    (\<lambda>y m. like (Std_String s) y (n + m))"
  proof (cases "resize si w s")
    case (Inl e)
    then show ?thesis using resize_Inl [OF Inl] by (auto simp: x unpack_errors_def intro: unpacks_throw)
  next
    case (Inr s')
    then have "length s' < 2 ^ 63" using assms resize_Inr [OF Inr] by simp
    then have "unpacks (\<lambda>b. rbind (Deserialize si p (View s') b) (\<lambda>(v, b). Inr (Std_String (view v), b)))
        (\<lambda>y m. like (Std_String s) y (8 + m))"
      by (intro unpacks_seq [OF unpacks_View] unpacks_return) (auto simp: likes)
    then show ?thesis using Inr by (simp add: x)
  qed
qed

lemma unpacks_object:
  assumes max: "unat (string_max_size si) < 2 ^ 63" and old: "\<And>s. ob = View s \<Longrightarrow> length s < 2 ^ 63"
  shows "unpacks (Deserialize si p ob) (like ob)"
proof (cases ob)
  case (Complex_Object c)
  show ?thesis
    unfolding Complex_Object Deserialize_cases(5)
    by (rule unpacks_seq [OF unpacks_Number], rule unpacks_seq [OF unpacks_Number],
        rule unpacks_seq [OF unpacks_String [OF max]], rule unpacks_seq [OF unpacks_Number], rule unpacks_return)
      (auto simp: likes)
next
  case (Time_Point t)
  show ?thesis
    unfolding Time_Point Deserialize_cases(4)
    by (rule unpacks_seq [OF unpacks_Number], rule unpacks_return) (auto simp: likes)
qed (use unpacks_Number unpacks_View unpacks_String [OF max] old in simp_all)

end

section \<open>Round trips\<close>

lemma ReadBytes_over:
  assumes "length d = unat n" and "length d' = unat n"
  shows "ReadBytes d n b = ReadBytes d' n b"
proof -
  have "mem_write 0 bs d = mem_write 0 bs d'" if "mem_read off (unat n) mem = Inr bs" for off mem bs
    using that assms by (auto simp: mem_read_def mem_write_def splice_def split: if_splits)
  then show ?thesis
    by (cases "mem_read (buffer_offset b (buf_read_ptr b)) (unat n) (buffer_bytes b)") (simp_all add: ReadBytes_def)
qed

lemma reads_image: "reads f bs x \<Longrightarrow> reads (\<lambda>b. rbind (f b) (\<lambda>(x, b). Inr (c x, b))) bs (c x)"
  using reads_seq [where g = "\<lambda>x b. Inr (c x, b)", OF _ reads_return] by fastforce

lemma reads_view:
  assumes "length d = length s"
  shows "reads (ReadBytes d (of_nat (length d))) s s"
  unfolding reads_def
proof (intro allI impI)
  fix b assume b: "buffer_inv b" "take (length s) (unread b) = s"
  then have "rd b + length s \<le> kBufferCapacityInBytes"
    using reads_fits [OF b refl] b(1) by (cases "0 < length s") (simp_all add: buffer_inv_def del: length_greater_0_conv)
  from ReadBytes_ok [OF b(1) this assms [symmetric]]
  show "\<exists>b'. ReadBytes d (of_nat (length d)) b = Inr (s, b') \<and> buffer_reads b (length s) b'"
    unfolding b(2) assms .
qed

text \<open>The bytes of an object under an encoding of numbers.\<close>

fun object_bytes :: "(u64 \<Rightarrow> byte list) \<Rightarrow> packable \<Rightarrow> byte list" where
  "object_bytes enc (Number w) = enc w"
| "object_bytes enc (View s) = s"
| "object_bytes enc (Std_String s) = string_bytes enc s"
| "object_bytes enc (Time_Point t) = enc (time_since_epoch t)"
| "object_bytes enc (Complex_Object c) = ComplexObject_bytes enc c"

context word_packer
begin

lemma Deserialize_String: "Deserialize si p (Std_String s) b =
    rbind (string_Deserialize si p b) (\<lambda>(s, b). Inr (Std_String s, b))"
proof -
  have "rbind (resize si w s) (\<lambda>s. rbind (ReadBytes s (of_nat (length s)) b) g) = rbind (resize si w []) (\<lambda>s. rbind (ReadBytes s w b) g)"
    for w b and g :: "byte list \<times> buffer \<Rightarrow> (packable \<times> buffer) result"
  proof (cases "resize si w s")
    case (Inl e)
    then show ?thesis by (auto simp: resize_def split: if_splits)
  next
    case (Inr s')
    then obtain s0 where "resize si w [] = Inr s0" by (auto simp: resize_def split: if_splits)
    then show ?thesis using Inr resize_Inr(1) [OF Inr] resize_Inr(1) [OF \<open>resize si w [] = Inr s0\<close>] ReadBytes_over [of s' w s0 b] by simp
  qed
  then show ?thesis
    unfolding Deserialize_cases string_Deserialize_def des_view
    by (cases "DeserializeImpl p b") (auto simp: rbind_assoc case_prod_unfold)
qed

lemma length_object_bytes: "length (object_bytes enc ob) = packed_size ob"
  by (cases ob) (simp_all add: length_enc string_bytes_def ComplexObject_bytes_def)

lemma writes_object: "writes (Serialize p ob) (object_bytes enc ob)"
proof (cases ob)
  case (View s)
  show ?thesis unfolding View Serialize_cases ser_view writes_def using WriteBytes_ok by simp
next
  case (Time_Point t)
  show ?thesis unfolding Time_Point Serialize_cases time_point_Serialize_def [abs_def] using writes_word by simp
qed (simp_all only: Serialize_cases object_bytes.simps writes_word writes_string writes_ComplexObject)

lemma reads_Number: "reads (Deserialize si p (Number old)) (enc w) (Number w)"
  unfolding Deserialize_cases by (rule reads_image [OF reads_word])

lemma reads_String:
  assumes "strings_fit si"
  shows "reads (Deserialize si p (Std_String old)) (string_bytes enc s) (Std_String s)"
  using reads_image [OF reads_string [OF assms]] by (simp only: Deserialize_String [abs_def])

lemma reads_object:
  assumes max: "strings_fit si" and old: "type_of old = type_of ob"
  shows "reads (Deserialize si p old) (object_bytes enc ob) ob"
proof (cases ob)
  case (Number w)
  then show ?thesis using old by (cases old) (simp_all only: type_of.simps packable_type.distinct object_bytes.simps reads_Number)
next
  case (View s)
  then obtain d where d: "old = View d" "length d = length s" using old by (cases old) simp_all
  show ?thesis
    unfolding View d(1) Deserialize_cases des_view object_bytes.simps by (rule reads_image [OF reads_view [OF d(2)]])
next
  case (Std_String s)
  then show ?thesis using old by (cases old) (simp_all only: type_of.simps packable_type.distinct object_bytes.simps reads_String [OF max])
next
  case (Time_Point t)
  then obtain t' where t': "old = Time_Point t'" using old by (cases old) simp_all
  have "reads (\<lambda>b. rbind (Deserialize si p (Number 0) b) (\<lambda>(x, b). Inr (Time_Point (time_point (number x)), b)))
      (enc (time_since_epoch t)) (Time_Point (time_point (number (Number (time_since_epoch t)))))"
    by (rule reads_image [OF reads_Number])
  then show ?thesis unfolding Time_Point t' Deserialize_cases(4) by simp
next
  case (Complex_Object c)
  then obtain c' where c': "old = Complex_Object c'" using old by (cases old) simp_all
  have "reads (Deserialize si p (Complex_Object c'))
      (enc (co_i c) @ enc (co_d c) @ string_bytes enc (co_s c) @ enc (co_u c) @ [])
      (Complex_Object \<lparr>co_i = number (Number (co_i c)), co_d = number (Number (co_d c)),
        co_s = std_string (Std_String (co_s c)), co_u = number (Number (co_u c))\<rparr>)"
    unfolding Deserialize_cases(5)
    by (rule reads_seq [OF reads_Number], rule reads_seq [OF reads_Number], rule reads_seq [OF reads_String [OF max]],
        rule reads_seq [OF reads_Number], rule reads_return)
  then show ?thesis unfolding Complex_Object c' by (cases c) (simp add: ComplexObject_bytes_def)
qed

end

section \<open>Properties\<close>

text \<open>
  Which packer may be at the other end: the same one, or the network packer of another host when both were made
  for the byte order of their hosts.
\<close>

inductive partners :: "packer \<Rightarrow> packer \<Rightarrow> bool" where
  local_partners: "partners (LocalPacker host) (LocalPacker host)"
| same_network: "partners (NetworkPacker host E) (NetworkPacker host E)"
| two_hosts: "partners (NetworkPacker host1 (EndiannessChecker_Value host1)) (NetworkPacker host2 (EndiannessChecker_Value host2))"

lemma partners_contract: "partners p q \<Longrightarrow> \<exists>enc dec dec'. word_packer p enc dec \<and> word_packer q enc dec'"
  by (induction rule: partners.induct)
    (use local_packer.word_packer_axioms network_packer.word_packer_axioms wire_network in blast)+

lemma pack_object:
  assumes p: "word_packer p enc dec" and "buffer_inv b" and "packed_size ob \<le> kBufferCapacityInBytes"
  obtains b1 where "Pack p (Reset b) ob = Inr b1" "buffer_inv b1" "written b1 = object_bytes enc ob" "received (written b1) b1"
proof -
  have "wr (Reset b) + length (object_bytes enc ob) \<le> kBufferCapacityInBytes"
    using assms(3) by (simp add: word_packer.length_object_bytes [OF p])
  then obtain b1 where b1: "Pack p (Reset b) ob = Inr b1" "buffer_grows (Reset b) (object_bytes enc ob) b1"
    using word_packer.writes_object [OF p, of ob] Reset_inv [OF assms(2)] unfolding writes_def Pack_def by blast
  then have "written b1 = object_bytes enc ob" by (simp add: buffer_grows_def written_def [of "Reset b"])
  moreover have "buffer_inv b1" "rd b1 = 0" using b1(2) by (simp_all add: buffer_grows_def)
  moreover from this have "received (written b1) b1"
    by (simp add: received_def written_def unread_def min_def buffer_inv_def)
  ultimately show thesis using that b1(1) by blast
qed

lemma unpack_object:
  assumes "word_packer q enc dec" and "received (object_bytes enc ob) b" and "strings_fit si"
    and "type_of old = type_of ob"
  obtains b' where "Unpack si q b old = Inr (ob, b')" "buffer_inv b'"
  using received_reads [OF word_packer.reads_object [OF assms(1,3,4)] assms(2)] unfolding Unpack_def by blast

text \<open>C15: an object of each kind the program and its tests pack (a number, a view, a string, a time point, or the structure
  of the unit tests with a string inside), if it fits in the buffer, is packed into exactly as many bytes as its kind asks for,
  and unpacking into any object of its type, whatever it held, gives it back: from the same buffer, and from any buffer
  filled with these bytes.  The packer at the other end is the same one, local or network, on the same host, or the
  network packer of another host, of whatever byte order, when both were made for the byte order of their hosts.  Strings must
  have room for what a buffer can hold.\<close>

theorem pack_unpack:
  assumes "partners p q" and "buffer_inv b" and "packed_size ob \<le> kBufferCapacityInBytes"
    and "strings_fit si" and "type_of old = type_of ob"
  shows "\<exists>b1. Pack p (Reset b) ob = Inr b1 \<and> length (written b1) = packed_size ob \<and>
    (\<exists>b2. Unpack si q b1 old = Inr (ob, b2)) \<and>
    (\<forall>b2. received (written b1) b2 \<longrightarrow> (\<exists>b3. Unpack si q b2 old = Inr (ob, b3)))"
proof -
  obtain enc dec dec' where p: "word_packer p enc dec" and q: "word_packer q enc dec'"
    using partners_contract [OF assms(1)] by blast
  obtain b1 where b1: "Pack p (Reset b) ob = Inr b1" "written b1 = object_bytes enc ob" "received (written b1) b1"
    using pack_object [OF p assms(2,3)] by blast
  have "\<exists>b3. Unpack si q b2 old = Inr (ob, b3)" if "received (written b1) b2" for b2
    using unpack_object [OF q _ assms(4,5)] that unfolding b1(2) by metis
  with b1 show ?thesis by (auto simp: word_packer.length_object_bytes [OF p])
qed

text \<open>From a little-endian to a big-endian host, into a string that is not empty.\<close>

theorem pack_unpack_witness:
  "\<exists>b1 b2. Pack (NetworkPacker kLittle (EndiannessChecker_Value kLittle)) (Reset start_buffer) (Std_String [104, 105]) = Inr b1 \<and>
    length (written b1) = 10 \<and>
    Unpack ample_strings (NetworkPacker kBig (EndiannessChecker_Value kBig)) b1 (Std_String [1, 2, 3]) = Inr (Std_String [104, 105], b2)"
  using pack_unpack [OF two_hosts [of kLittle kBig], of start_buffer "Std_String [104, 105]" ample_strings "Std_String [1, 2, 3]"] ample_strings
  by (auto simp: kBufferCapacityInBytes_def)

text \<open>C16: whatever bytes are in the buffer, unpacking into an object keeps its type: it ends with an object of the same type,
  for which exactly the bytes of its packed form were read, all inside the array, or with one of three exceptions: the buffer
  does not hold as much, or \<open>resize\<close> throws because the length that was read is beyond \<open>max_size()\<close> or because there
  is no memory for it.  No overload is missing, and nothing undefined happens.\<close>

theorem unpack_typed:
  assumes "p \<in> {LocalPacker host, NetworkPacker host E}" and "buffer_inv b" and "unat (string_max_size si) < 2 ^ 63"
    and "\<forall>s. old = View s \<longrightarrow> length s < 2 ^ 63"
  shows "case Unpack si p b old of
      Inl e \<Rightarrow> e \<in> {Length_Error, Bad_Alloc, Runtime_Error ''not enough message in buffer''}
    | Inr (ob, b') \<Rightarrow> type_of ob = type_of old \<and> buffer_reads b (packed_size ob) b'"
proof -
  obtain enc dec where "word_packer p enc dec" using packers_keep_contract [OF assms(1)] by blast
  from word_packer.unpacks_object [OF this assms(3), of old] assms(4)
  have "unpacks (Deserialize si p old) (like old)" by blast
  then show ?thesis
    using assms(2) unfolding unpacks_def Unpack_def unpack_errors_def like_def by (auto split: sum.splits)
qed

text \<open>A structure read out of bytes that are all 255: the length of its string is refused.\<close>

theorem unpack_typed_witness:
  "case Unpack ample_strings (LocalPacker kLittle) (Buffer_init 4096 (replicate kBufferCapacityInBytes (- 1)))
      (Complex_Object \<lparr>co_i = 0, co_d = 0, co_s = [], co_u = 0\<rparr>) of
     Inl e \<Rightarrow> e \<in> {Length_Error, Bad_Alloc, Runtime_Error ''not enough message in buffer''}
   | Inr (ob, b') \<Rightarrow> \<exists>c. ob = Complex_Object c"
proof -
  have *: "type_of ob = Complex_Type \<longleftrightarrow> (\<exists>c. ob = Complex_Object c)" for ob by (cases ob) simp_all
  let ?b = "Buffer_init 4096 (replicate kBufferCapacityInBytes (- 1))"
  have "buffer_inv ?b" by (simp add: Buffer_init_inv)
  from unpack_typed [of "LocalPacker kLittle" kLittle kBig ?b ample_strings "Complex_Object \<lparr>co_i = 0, co_d = 0, co_s = [], co_u = 0\<rparr>", OF _ this ample_strings(2)]
  show ?thesis by (auto simp: * split: sum.splits)
qed

section \<open>The unit tests\<close>

text \<open>
  The three tests of the packers (\<open>src/src/connection/src/packers/tests.cpp\<close>) are one body over a packer.  \<open>co2\<close> is the
  object unpacked into, whose numbers are not initialised; \<open>456.789\<close> is given by its bits.
\<close>

definition co1 :: ComplexObject where
  "co1 = \<lparr>co_i = 123, co_d = 0x407C8C9FBE76C8B4, co_s = text_bytes ''hello_msg'', co_u = 654\<rparr>"

definition PackersTest :: "string_impl \<Rightarrow> packer \<Rightarrow> buffer \<Rightarrow> ComplexObject \<Rightarrow> bool result" where
  "PackersTest si packer buffer co2 =
     rbind (Pack packer buffer (Complex_Object co1)) (\<lambda>buffer.
     rbind (Unpack si packer buffer (Complex_Object co2)) (\<lambda>(co2, buffer).
     Inr (Complex_Object co1 = co2)))"

theorem packers_tests:
  assumes "packer \<in> {LocalPacker host, NetworkPacker host kBig, NetworkPacker host kLittle}"
    and "buffer = Buffer_init self bytes" and "buffer_inv buffer" and "strings_fit si"
  shows "PackersTest si packer buffer co2 = Inr True"
proof -
  obtain enc dec where p: "word_packer packer enc dec"
    using packers_keep_contract [of packer host kBig] packers_keep_contract [of packer host kLittle] assms(1) by auto
  have "Reset buffer = buffer" by (simp add: assms(2) Reset_def Buffer_init_def)
  moreover have "packed_size (Complex_Object co1) \<le> kBufferCapacityInBytes"
    by (simp add: co1_def kBufferCapacityInBytes_def)
  ultimately obtain b1 where "Pack packer buffer (Complex_Object co1) = Inr b1" "received (object_bytes enc (Complex_Object co1)) b1"
    using pack_object [OF p assms(3)] by metis
  moreover from unpack_object [OF p this(2) assms(4), of "Complex_Object co2"] obtain b2
    where "Unpack si packer b1 (Complex_Object co2) = Inr (Complex_Object co1, b2)" by auto
  ultimately show ?thesis by (simp add: PackersTest_def)
qed

end
