(* ===== verification/Hello_Tests.thy ===== *)
theory Hello_Tests
  imports Wiring Packing
begin

text \<open>
  The tests of the connectors (\<open>src/src/connection/src/connectors/*/tests.cpp\<close>): a client sends one string to
  a server, over a pipe and over shared memory in one thread, over sockets from a second thread.  Each is the whole body, with the
  destructors of its objects, against a kernel; a test over sockets has a kernel for each thread.
\<close>

section \<open>The bodies\<close>

text \<open>The string that is packed; \<open>obj\<close>, into which it is unpacked, is empty.\<close>

definition hello_msg :: packable where
  "hello_msg = Std_String (text_bytes ''hello_msg'')"

definition hello_send :: "packer \<Rightarrow> buffer \<Rightarrow> (buffer \<Rightarrow> unit io) \<Rightarrow> unit io" where
  "hello_send client_packer client_buffer send =
     io_bind (io_of_result (Pack client_packer client_buffer hello_msg)) send"

definition hello_receive :: "string_impl \<Rightarrow> packer \<Rightarrow> buffer \<Rightarrow> (buffer \<Rightarrow> buffer io) \<Rightarrow> bool io" where
  "hello_receive si server_packer server_buffer receive =
     io_bind (receive server_buffer) (\<lambda>server_buffer.
     io_bind (io_of_result (Unpack si server_packer server_buffer (Std_String []))) (\<lambda>(obj, server_buffer).
     io_return (obj = hello_msg)))"

text \<open>\<open>while (!client.Connect());\<close>, with the client as the attempts leave it.\<close>

partial_function (option) busy_connect ::
  "('c \<Rightarrow> (bool result \<times> 'c) io) \<Rightarrow> ('c \<Rightarrow> unit io) \<Rightarrow> 'c \<Rightarrow> kernel \<Rightarrow> history \<Rightarrow> ('c result \<times> history) option" where
  "busy_connect connect close c K h =
     Option.bind (connect c K h) (\<lambda>(r, h1).
     case r of
       Inl e \<Rightarrow> Some (Inl e, h1)
     | Inr (b, c') \<Rightarrow>
         (case b of
            Inl e \<Rightarrow> io_guard (close c') (io_throw e) K h1
          | Inr b \<Rightarrow> if b then Some (Inr c', h1) else busy_connect connect close c' K h1))"

definition PipeTests_HelloTest :: "Endianness \<Rightarrow> string_impl \<Rightarrow> buffer \<Rightarrow> buffer \<Rightarrow> bool io" where
  "PipeTests_HelloTest E si client_buffer server_buffer =
     (let CONNECTION_ID = ''ipc_checker_pipe_connection_id'' in
      io_bind (PipeServer CONNECTION_ID) (\<lambda>server.
      io_scope (PipeServer_Close server)
     (io_bind (busy_connect PipeClient_Connect PipeClient_Close (PipeClient CONNECTION_ID)) (\<lambda>client.
      io_scope (PipeClient_Close client)
     (io_bind (PipeClient_SetBufferSize 4096 client) (\<lambda>_.
      io_bind (hello_send (LocalPacker E) client_buffer (\<lambda>b. PipeClient_Send b client)) (\<lambda>_.
      hello_receive si (LocalPacker E) server_buffer (\<lambda>b. PipeServer_Receive b server))))))))"

definition UnixSocketTests_client :: "Endianness \<Rightarrow> char \<Rightarrow> buffer \<Rightarrow> unit io" where
  "UnixSocketTests_client E stack client_buffer =
     (let CONNECTION_ID = ''ipc_checker_uxsock_connection_id'' in
      io_bind (UnixSocketClient CONNECTION_ID) (\<lambda>client.
      io_bind (busy_connect (\<lambda>c. keeping c (UnixSocketClient_Connect stack c)) UnixSocketClient_Close client) (\<lambda>client.
      io_scope (UnixSocketClient_Close client)
     (io_bind (UnixSocketClient_SetBufferSize 4096 client) (\<lambda>_.
      hello_send (LocalPacker E) client_buffer (\<lambda>b. UnixSocketClient_Send b client))))))"

definition UnixSocketTests_server :: "Endianness \<Rightarrow> string_impl \<Rightarrow> char \<Rightarrow> buffer \<Rightarrow> bool io" where
  "UnixSocketTests_server E si stack server_buffer =
     (let CONNECTION_ID = ''ipc_checker_uxsock_connection_id'' in
      io_bind (UnixSocketServer stack CONNECTION_ID) (\<lambda>server.
      io_bind (io_guard (UnixSocketServer_Close server) (UnixSocketServer_Accept server)) (\<lambda>server.
      io_scope (UnixSocketServer_Close server)
        (hello_receive si (LocalPacker E) server_buffer (\<lambda>b. UnixSocketServer_Receive b server)))))"

text \<open>Both ends use the packer for big-endian byte order, whatever the host.\<close>

definition NetSocketTests_client :: "Endianness \<Rightarrow> buffer \<Rightarrow> unit io" where
  "NetSocketTests_client E client_buffer =
     (let CONNECTION_ID_HOST = ''localhost''; CONNECTION_ID_PORT = 2000 in
      io_bind (NetSocketClient CONNECTION_ID_HOST CONNECTION_ID_PORT) (\<lambda>client.
      io_bind (busy_connect (\<lambda>c. keeping c (NetSocketClient_Connect c)) NetSocketClient_Close client) (\<lambda>client.
      io_scope (NetSocketClient_Close client)
     (io_bind (NetSocketClient_SetBufferSize 4096 client) (\<lambda>_.
      io_bind (NetSocketClient_SetNoDelay client) (\<lambda>_.
      hello_send (NetworkPacker E kBig) client_buffer (\<lambda>b. NetSocketClient_Send b client)))))))"

definition NetSocketTests_server :: "Endianness \<Rightarrow> string_impl \<Rightarrow> buffer \<Rightarrow> bool io" where
  "NetSocketTests_server E si server_buffer =
     (let CONNECTION_ID_PORT = 2000 in
      io_bind (NetSocketServer CONNECTION_ID_PORT) (\<lambda>server.
      io_bind (io_guard (NetSocketServer_Close server) (NetSocketServer_Accept server)) (\<lambda>server.
      io_scope (NetSocketServer_Close server)
     (io_bind (NetSocketServer_SetBufferSize 4096 server) (\<lambda>_.
      hello_receive si (NetworkPacker E kBig) server_buffer (\<lambda>b. NetSocketServer_Receive b server))))))"

text \<open>
  The thread of the client beside the main thread, which joins it.  An exception ends the program in either of them: in the
  thread because nothing catches it, in the main thread because a thread that has not been joined is destroyed.
\<close>

definition in_two_threads :: "unit io \<Rightarrow> kernel \<Rightarrow> bool io \<Rightarrow> kernel \<Rightarrow> bool result option" where
  "in_two_threads client Kc server Ks =
     (let ended = (\<lambda>e. if is_exception e then Std_Terminate else e) in
      case (client Kc [], server Ks []) of
        (Some (Inl e, _), _) \<Rightarrow> Some (Inl (ended e))
      | (_, Some (Inl e, _)) \<Rightarrow> Some (Inl (ended e))
      | (Some (Inr _, _), Some (Inr expect, _)) \<Rightarrow> Some (Inr expect)
      | _ \<Rightarrow> None)"

definition UnixSocketTests_HelloTest ::
  "Endianness \<Rightarrow> string_impl \<Rightarrow> char \<Rightarrow> char \<Rightarrow> buffer \<Rightarrow> buffer \<Rightarrow> kernel \<Rightarrow> kernel \<Rightarrow> bool result option" where
  "UnixSocketTests_HelloTest E si stack1 stack2 client_buffer server_buffer Kc Ks =
     in_two_threads (UnixSocketTests_client E stack1 client_buffer) Kc
       (UnixSocketTests_server E si stack2 server_buffer) Ks"

definition NetSocketTests_HelloTest ::
  "Endianness \<Rightarrow> string_impl \<Rightarrow> buffer \<Rightarrow> buffer \<Rightarrow> kernel \<Rightarrow> kernel \<Rightarrow> bool result option" where
  "NetSocketTests_HelloTest E si client_buffer server_buffer Kc Ks =
     in_two_threads (NetSocketTests_client E client_buffer) Kc (NetSocketTests_server E si server_buffer) Ks"

text \<open>
  Over shared memory, both ends are one thread, which sees its own stores: the loads of the other index show
  the index as it is.  The result of \<open>Connect\<close> is not looked at, and \<open>Send\<close> follows the pointer to the ring.
\<close>

definition waiting :: "'a result option \<Rightarrow> 'a io" where
  "waiting r K h = map_option (\<lambda>r. (r, h)) r"

definition SharedMemoryTests_HelloTest :: "Endianness \<Rightarrow> string_impl \<Rightarrow> buffer \<Rightarrow> buffer \<Rightarrow> bool io" where
  "SharedMemoryTests_HelloTest E si client_buffer server_buffer =
     (let CONNECTION_ID = ''ipc_checker_shmem_connection_id'' in
      io_bind (SharedMemoryServer CONNECTION_ID (Some 4096)) (\<lambda>server.
      io_scope (SharedMemoryServer_Close server)
     (io_bind (SharedMemoryClient_Connect (\<lambda>_. IsInitialized (sms_rbh server)) (SharedMemoryClient CONNECTION_ID)) (\<lambda>(r, client).
      io_scope (SharedMemoryClient_Close client)
     (io_bind (io_of_result r) (\<lambda>_.
      io_bind (io_of_result (Pack (LocalPacker E) client_buffer hello_msg)) (\<lambda>client_buffer.
      if \<not> smc_mapped client then io_throw (Undefined_Behaviour ''_rbh'') else
      io_bind (waiting (SharedMemoryClient_Send (\<lambda>_. rb_consumer_index (sms_rbh server)) client_buffer (sms_rbh server))) (\<lambda>rbh.
      io_bind (waiting (SharedMemoryServer_Receive (\<lambda>_. rb_producer_index rbh) server_buffer rbh)) (\<lambda>(server_buffer, rbh).
      hello_receive si (LocalPacker E) server_buffer io_return)))))))))"

section \<open>Kernels that work\<close>

text \<open>
  A kernel that answers every call and refuses only calls of a given kind, takes everything that is written, and closes
  without an error.
\<close>

definition willing :: "(syscall \<Rightarrow> bool) \<Rightarrow> kernel \<Rightarrow> bool" where
  "willing refusable K \<longleftrightarrow> (\<forall>h c. \<exists>r. K h c = Some r \<and> (reply_value r = - 1 \<longrightarrow> refusable c) \<and>
     (\<forall>fd. c = Sys_close fd \<longrightarrow> reply_value r = 0) \<and>
     (\<forall>fd bs. c = Sys_write fd bs \<longrightarrow> reply_value r = int (length bs)))"

definition answer :: "kernel \<Rightarrow> history \<Rightarrow> syscall \<Rightarrow> reply" where
  "answer K h c = the (K h c)"

text \<open>From the \<open>n\<close>-th call on a server is there: its socket is found (\<open>open\<close> of a socket fails with \<open>ENXIO\<close>) and
  \<open>connect\<close> succeeds.\<close>

definition serving :: "kernel \<Rightarrow> nat \<Rightarrow> bool" where
  "serving K n \<longleftrightarrow> (\<forall>h. n \<le> length h \<longrightarrow>
     (\<forall>p. K h (Sys_open p) = Some (Fails ENXIO)) \<and> (\<forall>fd a. reply_value (answer K h (Sys_connect fd a)) \<noteq> - 1))"

text \<open>What a history has sent.\<close>

fun sent_by :: "syscall \<times> reply \<Rightarrow> byte list list" where
  "sent_by (Sys_write fd bs, r) = [bs]"
| "sent_by _ = []"

definition sent :: "history \<Rightarrow> byte list list" where
  "sent h = concat (map sent_by h)"

lemma sent_append [simp]: "sent (h @ h') = sent h @ sent h'"
  by (simp add: sent_def)

lemma sent_simps [simp]: "sent [] = []" "sent (x # h) = sent_by x @ sent h"
  by (simp_all add: sent_def)

fun is_connect :: "syscall \<Rightarrow> bool" where
  "is_connect (Sys_connect fd a) = True"
| "is_connect _ = False"

fun is_attempt :: "syscall \<Rightarrow> bool" where
  "is_attempt (Sys_connect fd a) = True"
| "is_attempt (Sys_open p) = True"
| "is_attempt _ = False"

lemma willing_answer:
  assumes "willing R K"
  shows "K h c = Some (answer K h c)" and "\<not> R c \<Longrightarrow> reply_value (answer K h c) \<noteq> - 1"
    and "reply_value (answer K h (Sys_close fd)) = 0"
    and "reply_value (answer K h (Sys_write fd bs)) = int (length bs)"
proof -
  have all: "\<exists>r. K h c = Some r \<and> (reply_value r = - 1 \<longrightarrow> R c) \<and>
     (\<forall>fd. c = Sys_close fd \<longrightarrow> reply_value r = 0) \<and>
     (\<forall>fd bs. c = Sys_write fd bs \<longrightarrow> reply_value r = int (length bs))" for c
    using assms [unfolded willing_def, THEN spec, of h, THEN spec, of c] .
  show "K h c = Some (answer K h c)" and "\<not> R c \<Longrightarrow> reply_value (answer K h c) \<noteq> - 1"
    using all [of c] by (auto simp: answer_def)
  show "reply_value (answer K h (Sys_close fd)) = 0" using all [of "Sys_close fd"] by (auto simp: answer_def)
  show "reply_value (answer K h (Sys_write fd bs)) = int (length bs)"
    using all [of "Sys_write fd bs"] by (auto simp: answer_def)
qed

lemma willing_sys:
  assumes "willing R K"
  shows "sys c K h = Some (Inr (answer K h c), h @ [(c, answer K h c)])"
    and "\<not> R c \<Longrightarrow> sys_or_throw c msg K h = Some (Inr (answer K h c), h @ [(c, answer K h c)])"
  using willing_answer [OF assms] by (simp_all add: sys_run sys_or_throw_run)

lemmas hello_runs = io_bind_def io_return_def io_of_result_def io_throw_def

section \<open>The parts of a test\<close>

lemma busy_connect_ends:
  assumes step: "\<And>c h. P c \<Longrightarrow> \<exists>b c' h'. connect c K h = Some (Inr (Inr b, c'), h') \<and> P c' \<and>
      length h < length h' \<and> sent h' = sent h \<and> (n \<le> length h \<longrightarrow> b)"
    and "P c"
  shows "\<exists>c' h'. busy_connect connect close c K h = Some (Inr c', h') \<and> P c' \<and> sent h' = sent h"
  using assms(2)
proof (induction "n - length h" arbitrary: c h rule: less_induct)
  case less
  obtain b c' h' where 1: "connect c K h = Some (Inr (Inr b, c'), h')" "P c'" "length h < length h'" "sent h' = sent h"
    "n \<le> length h \<longrightarrow> b" using step [OF less.prems] by blast
  show ?case
  proof (cases b)
    case True
    then show ?thesis using 1 by (simp add: busy_connect.simps [of connect close c])
  next
    case False
    then have "n - length h' < n - length h" using 1(3,5) by auto
    from less.hyps [OF this 1(2)] 1(1,4) False show ?thesis by (simp add: busy_connect.simps [of connect close c])
  qed
qed

text \<open>A buffer as it is constructed.\<close>

definition fresh :: "buffer \<Rightarrow> bool" where
  "fresh b \<longleftrightarrow> buffer_inv b \<and> Reset b = b"

lemma hello_packed:
  assumes "word_packer p enc dec" and "fresh b"
  obtains b1 where "Pack p b hello_msg = Inr b1" "buffer_inv b1" "written b1 = object_bytes enc hello_msg"
proof -
  have "packed_size hello_msg \<le> kBufferCapacityInBytes" by (simp add: hello_msg_def kBufferCapacityInBytes_def)
  from pack_object [OF assms(1) _ this] assms(2) that show thesis unfolding fresh_def by metis
qed

lemma hello_size: "word_packer p enc dec \<Longrightarrow> length (object_bytes enc hello_msg) = 17"
  using word_packer.length_object_bytes [of p enc dec hello_msg] by (simp add: hello_msg_def)

lemma hello_unpacked:
  assumes "word_packer p enc dec" and "received (object_bytes enc hello_msg) b" and "strings_fit si"
  obtains b' where "Unpack si p b (Std_String []) = Inr (hello_msg, b')"
  using unpack_object [OF assms, of "Std_String []"] by (auto simp: hello_msg_def)

lemma hello_send_run:
  assumes p: "word_packer p enc dec" and b: "fresh b" and K: "willing R K"
  shows "hello_send p b (fd_Send fd) K h =
    Some (Inr (), h @ [(Sys_write fd (object_bytes enc hello_msg), answer K h (Sys_write fd (object_bytes enc hello_msg)))])"
proof -
  obtain b1 where b1: "Pack p b hello_msg = Inr b1" "buffer_inv b1" "written b1 = object_bytes enc hello_msg"
    using hello_packed [OF p b] .
  then show ?thesis
    by (simp add: hello_send_def fd_Send_def hello_runs willing_sys [OF K] buffer_content_written UsedBytes_written
        willing_answer(4) [OF K])
qed

lemma hello_receive_run:
  assumes p: "word_packer p enc dec" and b: "fresh b" and m: "strings_fit si"
    and K: "K h (Sys_read fd (of_nat kBufferCapacityInBytes)) = Some (Returns_Bytes (object_bytes enc hello_msg))"
  shows "\<exists>h'. hello_receive si p b (fd_Receive fd) K h = Some (Inr True, h')"
proof -
  have "rd b = 0" using b Reset_sel(2) [of b] by (simp add: fresh_def)
  moreover have "length (object_bytes enc hello_msg) \<le> kBufferCapacityInBytes"
    by (simp add: hello_size [OF p] kBufferCapacityInBytes_def)
  ultimately obtain b1 where b1: "buffer_fill (object_bytes enc hello_msg) b = Inr b1" "received (object_bytes enc hello_msg) b1"
    using buffer_fill_received [of b "object_bytes enc hello_msg"] b by (auto simp: fresh_def)
  obtain b2 where "Unpack si p b1 (Std_String []) = Inr (hello_msg, b2)"
    using hello_unpacked [OF p b1(2) m] .
  with b1(1) K show ?thesis
    by (simp add: hello_receive_def fd_Receive_def hello_runs sys_or_throw_run Capacity_def)
qed

section \<open>The tests\<close>

lemma then_returns: "m K h = Some (Inr x, h1) \<Longrightarrow> io_bind m f K h = f x K h1"
  by (simp add: io_bind_def)

lemma scope_returns:
  "m K h = Some (Inr x, h1) \<Longrightarrow> destroy K h1 = Some (Inr (), h2) \<Longrightarrow> io_scope destroy m K h = Some (Inr x, h2)"
  by (simp add: io_scope_def io_guard_def hello_runs)

lemma guard_returns: "m K h = Some (Inr x, h1) \<Longrightarrow> io_guard destroy m K h = Some (Inr x, h1)"
  by (simp add: io_guard_def)

lemma close_runs:
  assumes "willing R K"
  shows "\<exists>h'. PipeServer_Close s K h = Some (Inr (), h')" and "\<exists>h'. PipeClient_Close s K h = Some (Inr (), h')"
    and "\<exists>h'. UnixSocketServer_Close u K h = Some (Inr (), h')" and "\<exists>h'. NetSocketServer_Close n K h = Some (Inr (), h')"
    and "\<exists>h'. SharedMemoryServer_Close m K h = Some (Inr (), h')" and "\<exists>h'. SharedMemoryClient_Close mc K h = Some (Inr (), h')"
  by (simp_all add: PipeServer_Close_def PipeClient_Close_def UnixSocketServer_Close_def NetSocketServer_Close_def
      SharedMemoryServer_Close_def SharedMemoryClient_Close_def hello_runs willing_sys [OF assms])

text \<open>A pipe gives to its reader what has been written to it, write by write.\<close>

definition piping :: "kernel \<Rightarrow> bool" where
  "piping K \<longleftrightarrow> (\<forall>h fd. reads_of fd h < length (sent h) \<longrightarrow>
     K h (Sys_read fd (of_nat kBufferCapacityInBytes)) = Some (Returns_Bytes (sent h ! reads_of fd h)))"

lemma pipe_test:
  assumes K: "willing (\<lambda>_. False) K" "piping K" and b: "fresh cb" "fresh sb" and m: "strings_fit si"
  shows "\<exists>h. PipeTests_HelloTest E si cb sb K [] = Some (Inr True, h)"
proof -
  let ?id = "''ipc_checker_pipe_connection_id''"
  let ?p = "LocalPacker E"
  obtain enc dec where p: "word_packer ?p enc dec" using packers_keep_contract [of ?p] by blast
  note run = hello_runs willing_sys [OF K(1)] willing_answer(2) [OF K(1)] reads_of_def
  obtain server h1 where 1: "PipeServer ?id K [] = Some (Inr server, h1)" "sent h1 = []" "\<And>fd. reads_of fd h1 = 0"
    by (simp add: PipeServer_def Let_def run)
  obtain client h2 where 2: "busy_connect PipeClient_Connect PipeClient_Close (PipeClient ?id) K h1 = Some (Inr client, h2)"
    "sent h2 = []" "\<And>fd. reads_of fd h2 = 0"
    using 1(2,3) by (simp add: busy_connect.simps PipeClient_Connect_def FileDescriptor_assign_def Let_def run)
  obtain h3 where 3: "PipeClient_SetBufferSize 4096 client K h2 = Some (Inr (), h3)" "sent h3 = []" "\<And>fd. reads_of fd h3 = 0"
    using 2(2,3) by (simp add: PipeClient_SetBufferSize_def run)
  obtain h4 where 4: "hello_send ?p cb (fd_Send (fifo_fd client)) K h3 = Some (Inr (), h4)"
    "sent h4 = [object_bytes enc hello_msg]" "\<And>fd. reads_of fd h4 = 0"
    using hello_send_run [OF p b(1) K(1), of "fifo_fd client" h3] 3(2,3) by (simp add: reads_of_def)
  have "K h4 (Sys_read (fifo_fd server) (of_nat kBufferCapacityInBytes)) = Some (Returns_Bytes (object_bytes enc hello_msg))"
    using K(2) 4(2,3) by (simp add: piping_def)
  from hello_receive_run [where K = K and h = h4, OF p b(2) m this] obtain h5 where
    5: "hello_receive si ?p sb (fd_Receive (fifo_fd server)) K h4 = Some (Inr True, h5)" by blast
  obtain h6 where 6: "PipeClient_Close client K h5 = Some (Inr (), h6)" using close_runs(2) [OF K(1)] by blast
  obtain h7 where 7: "PipeServer_Close server K h6 = Some (Inr (), h7)" using close_runs(1) [OF K(1)] by blast
  show ?thesis
    using 1(1) 2(1) 3(1) 4(1) 5 6 7
    by (simp add: PipeTests_HelloTest_def Let_def then_returns scope_returns PipeClient_Send_def PipeServer_Receive_def)
qed

text \<open>The sockets: what each end does by itself.\<close>

lemma serving_later: "serving K n \<Longrightarrow> n \<le> length h \<Longrightarrow> reply_value (answer K (h @ g) (Sys_connect fd a)) \<noteq> - 1"
  by (simp add: serving_def)

lemma unix_connects:
  assumes K: "willing is_attempt K" "serving K n"
  shows "\<exists>h'. busy_connect (\<lambda>c. keeping c (UnixSocketClient_Connect stack c)) UnixSocketClient_Close c K h = Some (Inr c, h') \<and>
    sent h' = sent h"
proof -
  have "\<exists>b c' h'. keeping c1 (UnixSocketClient_Connect stack c1) K h1 = Some (Inr (Inr b, c'), h') \<and> c' = c \<and>
      length h1 < length h' \<and> sent h' = sent h1 \<and> (n \<le> length h1 \<longrightarrow> b)" if "c1 = c" for c1 h1
  proof -
    have "answer K h1 (Sys_open p) = Fails ENXIO" if "n \<le> length h1" for p
      using K(2) that by (simp add: serving_def answer_def)
    then show ?thesis
      using that serving_later [OF K(2), of h1]
      by (auto simp: keeping_def UnixSocketClient_Connect_def hello_runs willing_sys [OF K(1)])
  qed
  from busy_connect_ends [where P = "\<lambda>c1. c1 = c" and n = n and K = K and
      connect = "\<lambda>c. keeping c (UnixSocketClient_Connect stack c)", OF this] show ?thesis by blast
qed

lemma unix_client:
  assumes K: "willing is_attempt K" "serving K n" and p: "word_packer (LocalPacker E) enc dec" and b: "fresh cb"
  shows "\<exists>h. UnixSocketTests_client E stack cb K [] = Some (Inr (), h) \<and> sent h = [object_bytes enc hello_msg]"
proof -
  note run = hello_runs willing_sys [OF K(1)] willing_answer(2) [OF K(1)]
  let ?id = "''ipc_checker_uxsock_connection_id''"
  obtain client h1 where 1: "UnixSocketClient ?id K [] = Some (Inr client, h1)" "sent h1 = []"
    by (simp add: UnixSocketClient_def Let_def run)
  obtain h2 where 2: "busy_connect (\<lambda>c. keeping c (UnixSocketClient_Connect stack c)) UnixSocketClient_Close client K h1 =
      Some (Inr client, h2)" "sent h2 = []"
    using unix_connects [OF K, of stack client h1] 1(2) by auto
  obtain h3 where 3: "UnixSocketClient_SetBufferSize 4096 client K h2 = Some (Inr (), h3)" "sent h3 = []"
    using 2(2) by (simp add: UnixSocketClient_SetBufferSize_def run)
  obtain h4 where 4: "hello_send (LocalPacker E) cb (fd_Send (ux_socket_fd client)) K h3 = Some (Inr (), h4)"
    "sent h4 = [object_bytes enc hello_msg]"
    using hello_send_run [OF p b K(1), of "ux_socket_fd client" h3] 3(2) by simp
  obtain h5 where 5: "UnixSocketClient_Close client K h4 = Some (Inr (), h5)" "sent h5 = sent h4"
    by (simp add: UnixSocketClient_Close_def run)
  show ?thesis
    using 1(1) 2(1) 3(1) 4 5
    by (simp add: UnixSocketTests_client_def Let_def then_returns scope_returns UnixSocketClient_Send_def)
qed

lemma unix_server:
  assumes K: "willing (\<lambda>_. False) K" "\<And>fd. pending K fd [] [object_bytes enc hello_msg]"
    and p: "word_packer (LocalPacker E) enc dec" and b: "fresh sb" and m: "strings_fit si"
  shows "\<exists>h. UnixSocketTests_server E si stack sb K [] = Some (Inr True, h)"
proof -
  note run = hello_runs willing_sys [OF K(1)] willing_answer(2,3) [OF K(1)] reads_of_def
  let ?id = "''ipc_checker_uxsock_connection_id''"
  obtain server h1 where 1: "UnixSocketServer stack ?id K [] = Some (Inr server, h1)" "\<And>fd. reads_of fd h1 = 0"
    by (simp add: UnixSocketServer_def Let_def run)
  obtain server' h2 where 2: "UnixSocketServer_Accept server K h1 = Some (Inr server', h2)" "\<And>fd. reads_of fd h2 = 0"
    using 1(2) by (simp add: UnixSocketServer_Accept_def run)
  have "K h2 (Sys_read (ux_socket_fd server') (of_nat kBufferCapacityInBytes)) = Some (Returns_Bytes (object_bytes enc hello_msg))"
    using K(2) [unfolded pending_def, rule_format, of "ux_socket_fd server'" h2] 2(2) by simp
  from hello_receive_run [where K = K and h = h2, OF p b m this] obtain h3 where
    3: "hello_receive si (LocalPacker E) sb (fd_Receive (ux_socket_fd server')) K h2 = Some (Inr True, h3)" by blast
  obtain h4 where "UnixSocketServer_Close server' K h3 = Some (Inr (), h4)" using close_runs(3) [OF K(1)] by blast
  with 1(1) 2(1) 3 show ?thesis
    by (simp add: UnixSocketTests_server_def Let_def then_returns scope_returns guard_returns UnixSocketServer_Receive_def)
qed

lemma net_connects:
  assumes K: "willing is_attempt K" "serving K n"
  shows "\<exists>h'. busy_connect (\<lambda>c. keeping c (NetSocketClient_Connect c)) NetSocketClient_Close c K h = Some (Inr c, h') \<and>
    sent h' = sent h"
proof -
  have "\<exists>b c' h'. keeping c1 (NetSocketClient_Connect c1) K h1 = Some (Inr (Inr b, c'), h') \<and> c' = c \<and>
      length h1 < length h' \<and> sent h' = sent h1 \<and> (n \<le> length h1 \<longrightarrow> b)" if "c1 = c" for c1 h1
    using that serving_later [OF K(2), of h1]
    by (auto simp: keeping_def NetSocketClient_Connect_def hello_runs willing_sys [OF K(1)])
  from busy_connect_ends [where P = "\<lambda>c1. c1 = c" and n = n and K = K and
      connect = "\<lambda>c. keeping c (NetSocketClient_Connect c)", OF this] show ?thesis by blast
qed

lemma net_client:
  assumes K: "willing is_attempt K" "serving K n" and p: "word_packer (NetworkPacker E kBig) enc dec" and b: "fresh cb"
  shows "\<exists>h. NetSocketTests_client E cb K [] = Some (Inr (), h) \<and> sent h = [object_bytes enc hello_msg]"
proof -
  note run = hello_runs willing_sys [OF K(1)] willing_answer(2) [OF K(1)]
  obtain client h1 where 1: "NetSocketClient ''localhost'' 2000 K [] = Some (Inr client, h1)" "sent h1 = []"
    by (simp add: NetSocketClient_def run)
  obtain h2 where 2: "busy_connect (\<lambda>c. keeping c (NetSocketClient_Connect c)) NetSocketClient_Close client K h1 =
      Some (Inr client, h2)" "sent h2 = []"
    using net_connects [OF K, of client h1] 1(2) by auto
  obtain h3 where 3: "NetSocketClient_SetBufferSize 4096 client K h2 = Some (Inr (), h3)" "sent h3 = []"
    using 2(2) by (simp add: NetSocketClient_SetBufferSize_def run)
  obtain h4 where 4: "NetSocketClient_SetNoDelay client K h3 = Some (Inr (), h4)" "sent h4 = []"
    using 3(2) by (simp add: NetSocketClient_SetNoDelay_def run)
  obtain h5 where 5: "hello_send (NetworkPacker E kBig) cb (fd_Send (nc_socket_fd client)) K h4 = Some (Inr (), h5)"
    "sent h5 = [object_bytes enc hello_msg]"
    using hello_send_run [OF p b K(1), of "nc_socket_fd client" h4] 4(2) by simp
  obtain h6 where 6: "NetSocketClient_Close client K h5 = Some (Inr (), h6)" "sent h6 = sent h5"
    by (simp add: NetSocketClient_Close_def run)
  show ?thesis
    using 1(1) 2(1) 3(1) 4(1) 5 6
    by (simp add: NetSocketTests_client_def Let_def then_returns scope_returns NetSocketClient_Send_def)
qed

lemma net_server:
  assumes K: "willing (\<lambda>_. False) K" "\<And>fd. pending K fd [] [object_bytes enc hello_msg]"
    and p: "word_packer (NetworkPacker E kBig) enc dec" and b: "fresh sb" and m: "strings_fit si"
  shows "\<exists>h. NetSocketTests_server E si sb K [] = Some (Inr True, h)"
proof -
  note run = hello_runs willing_sys [OF K(1)] willing_answer(2,3) [OF K(1)] reads_of_def
  obtain server h1 where 1: "NetSocketServer 2000 K [] = Some (Inr server, h1)" "\<And>fd. reads_of fd h1 = 0"
    by (simp add: NetSocketServer_def run)
  obtain server' h2 where 2: "NetSocketServer_Accept server K h1 = Some (Inr server', h2)" "\<And>fd. reads_of fd h2 = 0"
    using 1(2) by (simp add: NetSocketServer_Accept_def run)
  obtain h3 where 3: "NetSocketServer_SetBufferSize 4096 server' K h2 = Some (Inr (), h3)" "\<And>fd. reads_of fd h3 = 0"
    using 2(2) by (simp add: NetSocketServer_SetBufferSize_def run)
  have "K h3 (Sys_read (ns_socket_fd server') (of_nat kBufferCapacityInBytes)) = Some (Returns_Bytes (object_bytes enc hello_msg))"
    using K(2) [unfolded pending_def, rule_format, of "ns_socket_fd server'" h3] 3(2) by simp
  from hello_receive_run [where K = K and h = h3, OF p b m this] obtain h4 where
    4: "hello_receive si (NetworkPacker E kBig) sb (fd_Receive (ns_socket_fd server')) K h3 = Some (Inr True, h4)" by blast
  obtain h5 where "NetSocketServer_Close server' K h4 = Some (Inr (), h5)" using close_runs(4) [OF K(1)] by blast
  with 1(1) 2(1) 3(1) 4 show ?thesis
    by (simp add: NetSocketTests_server_def Let_def then_returns scope_returns guard_returns NetSocketServer_Receive_def)
qed

text \<open>Shared memory: what is pushed is popped.\<close>

lemma hello_through_ring:
  assumes rb: "ring_holds rb 0 []" "unat (rb_capacity rb) = 4096"
    and cb: "buffer_inv cb" "length (written cb) = 17" and sb: "buffer_inv sb" "rd sb = 0"
  obtains rb1 rb2 sb' where "SharedMemoryClient_Send (\<lambda>_. rb_consumer_index rb) cb rb = Some (Inr rb1)"
    "SharedMemoryServer_Receive (\<lambda>_. rb_producer_index rb1) sb rb1 = Some (Inr (sb', rb2))" "received (written cb) sb'"
proof -
  let ?mem = "replicate kBufferCapacityInBytes 0"
  have rel: "ring_rel 4096 ?mem rb []" using rb by (auto simp: ring_rel_def kBufferCapacityInBytes_def)
  have fits: "ring_fits 4096 [] (written cb)"
    using cb(2) by (simp add: ring_fits_def rec_size_def align4_def RecordHeader_size_def)
  obtain rb1 where 1: "ring_put (written cb) rb = Some (Inr rb1)" "ring_rel 4096 ?mem rb1 ([] @ [written cb])"
    using ring_put_ok [OF rel fits] by blast
  have take: "\<exists>rb2. ring_take ?mem rb1 = Some (Inr (written cb, rb2))"
    using ring_take_ok 1(2) by fastforce
  then obtain rb2 where 2: "ring_next rb1 = Some (Inr (written cb, rb2))" by (auto simp: ring_next_def)
  obtain H where "ring_holds rb1 H [written cb]" using 1(2) by (auto simp: ring_rel_def)
  then have "ring_ok rb1"
    unfolding ring_ok_def using cb(2) by (intro exI [of _ H] exI [of _ "[written cb]"]) (simp add: kBufferCapacityInBytes_def)
  from ring_server.receive [OF this sb 2] cb(2) obtain sb' where
    3: "ring_receive sb rb1 = Some (Inr (sb', rb2))" "received (written cb) sb'"
    by (auto simp: kBufferCapacityInBytes_def)
  have "SharedMemoryServer_Receive (\<lambda>_. rb_producer_index rb1) sb rb1 = Some (Inr (sb', rb2))"
    using 3(1) by (auto simp: ring_receive_def res_simps split: Option.bind_splits)
  moreover have "SharedMemoryClient_Send (\<lambda>_. rb_consumer_index rb) cb rb = Some (Inr rb1)"
    using 1(1) by (simp add: SharedMemoryClient_Send_def buffer_content_written [OF cb(1)] ring_put_def)
  ultimately show thesis using that 3(2) by blast
qed

lemma shmem_test:
  assumes K: "willing (\<lambda>_. False) K" "\<And>h fd. reply_value (answer K h (Sys_fstat fd)) \<noteq> 0"
    and b: "fresh cb" "fresh sb" and m: "strings_fit si"
  shows "\<exists>h. SharedMemoryTests_HelloTest E si cb sb K [] = Some (Inr True, h)"
proof -
  let ?id = "''ipc_checker_shmem_connection_id''"
  let ?p = "LocalPacker E"
  obtain enc dec where p: "word_packer ?p enc dec" using packers_keep_contract [of ?p] by blast
  note run = hello_runs willing_sys [OF K(1)] willing_answer(2) [OF K(1)] K(2)
  obtain rb where rb: "SPSCRingBuffer 4096 (replicate 4096 0) = Inr rb" "ring_holds rb 0 []" "unat (rb_capacity rb) = 4096"
    using SPSCRingBuffer_ok [of 4096 "replicate 4096 0"] by auto
  have al: "AlignCapacity 4096 = Inr 4096"
    by (simp add: AlignCapacity_def AlignUpByRecordHeader_def RecordHeader_size_def)
  obtain server h1 where 1: "SharedMemoryServer ?id (Some 4096) K [] = Some (Inr server, h1)" "sms_rbh server = SetInitialized rb"
    using rb(1) by (simp add: SharedMemoryServer_def al Let_def run SPSCRingBuffer_size_def)
  have i: "IsInitialized (sms_rbh server)" by (simp add: 1(2) SetInitialized_def IsInitialized_def)
  obtain client h2 where 2: "SharedMemoryClient_Connect (\<lambda>_. True) (SharedMemoryClient ?id) K h1 = Some (Inr (Inr True, client), h2)"
    "smc_mapped client"
    by (simp add: SharedMemoryClient_Connect_def SharedMemoryClient_def SharedMemoryClient_attach_def
        FileDescriptor_assign_def WaitInitialized.simps Let_def run)
  obtain b1 where b1: "Pack ?p cb hello_msg = Inr b1" "buffer_inv b1" "written b1 = object_bytes enc hello_msg"
    using hello_packed [OF p b(1)] .
  have h: "ring_holds (sms_rbh server) 0 []" "unat (rb_capacity (sms_rbh server)) = 4096"
    using rb(2,3) by (simp_all add: 1(2) SetInitialized_def ring_holds_def)
  have sb: "buffer_inv sb" "rd sb = 0" using b(2) Reset_sel(2) [of sb] by (simp_all add: fresh_def)
  obtain rb1 rb2 sb' where 3:
    "SharedMemoryClient_Send (\<lambda>_. rb_consumer_index (sms_rbh server)) b1 (sms_rbh server) = Some (Inr rb1)"
    "SharedMemoryServer_Receive (\<lambda>_. rb_producer_index rb1) sb rb1 = Some (Inr (sb', rb2))" "received (written b1) sb'"
    using hello_through_ring [OF h b1(2) _ sb] by (metis b1(3) hello_size [OF p])
  obtain b2 where 4: "Unpack si ?p sb' (Std_String []) = Inr (hello_msg, b2)"
    using hello_unpacked [OF p _ m] 3(3) unfolding b1(3) by blast
  obtain h3 where 5: "SharedMemoryClient_Close client K h2 = Some (Inr (), h3)" using close_runs(6) [OF K(1)] by blast
  obtain h4 where 6: "SharedMemoryServer_Close server K h3 = Some (Inr (), h4)" using close_runs(5) [OF K(1)] by blast
  have "hello_receive si ?p sb' io_return K h2 = Some (Inr True, h2)"
    using 4 by (simp add: hello_receive_def hello_runs)
  then show ?thesis
    using 1(1) i 2 b1(1) 3(1,2) 5 6
    by (simp add: SharedMemoryTests_HelloTest_def Let_def then_returns scope_returns io_of_result_def waiting_def)
qed

section \<open>Property\<close>

text \<open>
  Two threads and the kernel as each of them sees it: the client's attempts may be refused until its \<open>n\<close>-th call, and whichever
  descriptor the server reads from, it is given what the client has sent.
\<close>

definition socket_pair :: "unit io \<Rightarrow> kernel \<Rightarrow> nat \<Rightarrow> kernel \<Rightarrow> bool" where
  "socket_pair client Kc n Ks \<longleftrightarrow> willing is_attempt Kc \<and> serving Kc n \<and> willing (\<lambda>_. False) Ks \<and>
     (\<forall>r h fd. client Kc [] = Some (r, h) \<longrightarrow> pending Ks fd [] (sent h))"

text \<open>C23: the four tests of the connectors end, and the string that arrives is the one that was sent: over a pipe that gives
  its reader what was written, over shared memory whatever the kernel says as long as it refuses nothing and the object has a size, and over
  Unix and network sockets whose server is there sooner or later, however many attempts to connect are refused before.\<close>

theorem hello_tests:
  assumes "fresh cb" and "fresh sb" and "strings_fit si"
    and "willing (\<lambda>_. False) K" and "piping K" and "\<forall>h fd. reply_value (answer K h (Sys_fstat fd)) \<noteq> 0"
    and "socket_pair (UnixSocketTests_client E stack1 cb) Uc n Us" and "socket_pair (NetSocketTests_client E cb) Nc k Ns"
  shows "(\<exists>h. PipeTests_HelloTest E si cb sb K [] = Some (Inr True, h)) \<and>
    (\<exists>h. SharedMemoryTests_HelloTest E si cb sb K [] = Some (Inr True, h)) \<and>
    UnixSocketTests_HelloTest E si stack1 stack2 cb sb Uc Us = Some (Inr True) \<and>
    NetSocketTests_HelloTest E si cb sb Nc Ns = Some (Inr True)"
proof (intro conjI)
  obtain enc dec where p: "word_packer (LocalPacker E) enc dec" using packers_keep_contract [of "LocalPacker E"] by blast
  obtain enc2 dec2 where q: "word_packer (NetworkPacker E kBig) enc2 dec2"
    using packers_keep_contract [of "NetworkPacker E kBig"] by blast
  show "\<exists>h. PipeTests_HelloTest E si cb sb K [] = Some (Inr True, h)"
    by (rule pipe_test [OF assms(4,5,1,2,3)])
  show "\<exists>h. SharedMemoryTests_HelloTest E si cb sb K [] = Some (Inr True, h)"
    using assms(6) by (intro shmem_test [OF assms(4) _ assms(1,2,3)]) blast
  note U = assms(7) [unfolded socket_pair_def] and N = assms(8) [unfolded socket_pair_def]
  obtain hu where u: "UnixSocketTests_client E stack1 cb Uc [] = Some (Inr (), hu)" "sent hu = [object_bytes enc hello_msg]"
    using unix_client [OF _ _ p assms(1)] U by blast
  then obtain hs where "UnixSocketTests_server E si stack2 sb Us [] = Some (Inr True, hs)"
    using unix_server [OF _ _ p assms(2,3)] U by metis
  with u(1) show "UnixSocketTests_HelloTest E si stack1 stack2 cb sb Uc Us = Some (Inr True)"
    by (simp add: UnixSocketTests_HelloTest_def in_two_threads_def)
  obtain hn where n: "NetSocketTests_client E cb Nc [] = Some (Inr (), hn)" "sent hn = [object_bytes enc2 hello_msg]"
    using net_client [OF _ _ q assms(1)] N by blast
  then obtain hs where "NetSocketTests_server E si sb Ns [] = Some (Inr True, hs)"
    using net_server [OF _ _ q assms(2,3)] N by metis
  with n(1) show "NetSocketTests_HelloTest E si cb sb Nc Ns = Some (Inr True)"
    by (simp add: NetSocketTests_HelloTest_def in_two_threads_def)
qed

text \<open>Kernels that give what was sent; the clients of sockets are refused until their tenth call.\<close>

definition giving :: "(history \<Rightarrow> byte list list) \<Rightarrow> kernel" where
  "giving ms h c = (case c of
     Sys_read fd _ \<Rightarrow> Some (Returns_Bytes (if reads_of fd h < length (ms h) then ms h ! reads_of fd h else []))
   | _ \<Rightarrow> obliging_kernel h c)"

definition late_server :: kernel where
  "late_server h c = (case c of
     Sys_open _ \<Rightarrow> Some (Fails (if 10 \<le> length h then ENXIO else ENOENT))
   | Sys_connect _ _ \<Rightarrow> Some (if 10 \<le> length h then Returns 0 else Fails (Other_Errno 111))
   | _ \<Rightarrow> obliging_kernel h c)"

definition sent_late :: "unit io \<Rightarrow> byte list list" where
  "sent_late client = sent (snd (the (client late_server [])))"

lemma giving_willing: "willing (\<lambda>_. False) (giving ms)"
  unfolding willing_def
proof (intro allI)
  fix h c
  show "\<exists>r. giving ms h c = Some r \<and> (reply_value r = - 1 \<longrightarrow> False) \<and> (\<forall>fd. c = Sys_close fd \<longrightarrow> reply_value r = 0) \<and>
      (\<forall>fd bs. c = Sys_write fd bs \<longrightarrow> reply_value r = int (length bs))"
    by (cases c) (simp_all add: giving_def obliging_kernel_def)
qed

lemma late_willing: "willing is_attempt late_server"
  unfolding willing_def
proof (intro allI)
  fix h c
  show "\<exists>r. late_server h c = Some r \<and> (reply_value r = - 1 \<longrightarrow> is_attempt c) \<and> (\<forall>fd. c = Sys_close fd \<longrightarrow> reply_value r = 0) \<and>
      (\<forall>fd bs. c = Sys_write fd bs \<longrightarrow> reply_value r = int (length bs))"
    by (cases c) (simp_all add: late_server_def obliging_kernel_def)
qed

lemma late_pair: "socket_pair client late_server 10 (giving (\<lambda>_. sent_late client))"
  by (auto simp: socket_pair_def giving_willing late_willing serving_def late_server_def answer_def pending_def giving_def
      sent_late_def)

theorem hello_tests_witness:
  "NetSocketTests_HelloTest kLittle ample_strings start_buffer start_buffer late_server
     (giving (\<lambda>_. sent_late (NetSocketTests_client kLittle start_buffer))) = Some (Inr True) \<and>
   (\<exists>h. PipeTests_HelloTest kLittle ample_strings start_buffer start_buffer (giving sent) [] = Some (Inr True, h))"
proof -
  have "fresh start_buffer" by (simp add: fresh_def) (simp add: start_buffer_def Reset_def Buffer_init_def)
  moreover have "strings_fit ample_strings" by (rule ample_strings)
  moreover have "piping (giving sent)" by (simp add: piping_def giving_def)
  moreover have "\<forall>h fd. reply_value (answer (giving sent) h (Sys_fstat fd)) \<noteq> 0"
    by (simp add: answer_def giving_def obliging_kernel_def)
  ultimately show ?thesis
    using hello_tests [OF _ _ _ giving_willing _ _ late_pair late_pair, of start_buffer start_buffer ample_strings sent kLittle] by blast
qed

end
