(* ===== verification/Ring_Concurrent.thy ===== *)
theory Ring_Concurrent
  imports Ring_Sequential
begin

text \<open>
  The ring buffer under its real use: one process calls \<open>Push\<close> again and again, another one
  \<open>Pop\<close>, and their steps interleave.  A step is one access to shared memory together with
  the local computation around it: a load of the other side's index, the store of the record
  header, each \<open>memcpy\<close>, the store of the own index.

  The two index atomics are modelled by their modification orders, the lists of all values
  ever stored.  An acquire load returns any entry that is not older than the newest one this
  process has loaded before, so a load may return an outdated index; this is what release
  and acquire ordering guarantee.  The bytes of the ring are one list; reading it as one is
  justified by the theorems on races: a pending write of the producer never
  touches bytes the consumer has not released to it, and a pending read of the consumer never
  leaves the bytes the producer has released.
\<close>

section \<open>Processes\<close>

text \<open>Where the producer is inside \<open>Push\<close>, with the local variables that are live there.\<close>

datatype producer_pc =
    P_Idle
  | P_Wait "byte list" index u64
  | P_Header "byte list" index
  | P_Fit "byte list" index index u32 u32 u32
  | P_Overflowed "byte list" index u32 u32 u32
  | P_Store "byte list" index u32 u32 u32
  | P_Error cxx_error

text \<open>Where the consumer is inside \<open>Pop\<close>; the first two components are the caller's memory
  and its announced capacity.\<close>

datatype consumer_pc =
    C_Idle
  | C_Wait "byte list" u64 index
  | C_Header "byte list" u64 index
  | C_Fit "byte list" u32 index index u32 u32 u32
  | C_Overflowed "byte list" u32 index u32 u32 u32
  | C_Store "byte list" u32 index u32 u32 u32
  | C_Error cxx_error

text \<open>
  \<open>p_hist\<close> and \<open>c_hist\<close> are the modification orders, \<open>p_seen\<close> and \<open>c_seen\<close> the newest entry of
  the other side's order each process has loaded.  \<open>pushed\<close> and \<open>popped\<close> record the payloads
  of the calls that have returned; no step depends on them.
\<close>

record ring_conf =
  memory :: "byte list"
  p_hist :: "u64 list"
  c_hist :: "u64 list"
  p_seen :: nat
  c_seen :: nat
  p_pc :: producer_pc
  c_pc :: consumer_pc
  pushed :: "byte list list"
  popped :: "byte list list"

definition ring_start :: "byte list \<Rightarrow> ring_conf" where
  "ring_start mem = \<lparr>memory = mem, p_hist = [0], c_hist = [0], p_seen = 0, c_seen = 0,
     p_pc = P_Idle, c_pc = C_Idle, pushed = [], popped = []\<rparr>"

section \<open>Steps of the producer\<close>

definition push_call :: "u32 \<Rightarrow> byte list \<Rightarrow> ring_conf \<Rightarrow> ring_conf" where
  "push_call c m s = s\<lparr>p_pc :=
     (case Push_record_size c (of_nat (length m)) of
        Inl e \<Rightarrow> P_Error e
      | Inr record_size \<Rightarrow> P_Wait m (index_of_u64 (last (p_hist s))) record_size)\<rparr>"

definition push_load :: "u32 \<Rightarrow> nat \<Rightarrow> byte list \<Rightarrow> index \<Rightarrow> u64 \<Rightarrow> ring_conf \<Rightarrow> ring_conf" where
  "push_load c j m i record_size s = s\<lparr>p_seen := j, p_pc :=
     (case Push_free_size i (index_of_u64 (c_hist s ! j)) c of
        Inl e \<Rightarrow> P_Error e
      | Inr free \<Rightarrow> if record_size \<le> ucast free then P_Header m i else P_Wait m i record_size)\<rparr>"

definition push_header :: "u32 \<Rightarrow> byte list \<Rightarrow> index \<Rightarrow> ring_conf \<Rightarrow> ring_conf" where
  "push_header c m i s =
     (let payload_size = ucast (of_nat (length m) :: u64) :: u32 in
      case Push_header i payload_size (memory s) of
        Inl e \<Rightarrow> s\<lparr>p_pc := P_Error e\<rparr>
      | Inr mem \<Rightarrow>
          (case ProcessMessage_split i payload_size c of
             Inl e \<Rightarrow> s\<lparr>memory := mem, p_pc := P_Error e\<rparr>
           | Inr (i', free_fit, fit, overflowed) \<Rightarrow>
               s\<lparr>memory := mem, p_pc := P_Fit m i i' free_fit fit overflowed\<rparr>))"

definition push_fit ::
  "byte list \<Rightarrow> index \<Rightarrow> index \<Rightarrow> u32 \<Rightarrow> u32 \<Rightarrow> u32 \<Rightarrow> ring_conf \<Rightarrow> ring_conf" where
  "push_fit m i i' free_fit fit overflowed s =
     (case Push_copy_fit i m fit (memory s) of
        Inl e \<Rightarrow> s\<lparr>p_pc := P_Error e\<rparr>
      | Inr mem \<Rightarrow> s\<lparr>memory := mem, p_pc := P_Overflowed m i' free_fit fit overflowed\<rparr>)"

definition push_overflowed ::
  "byte list \<Rightarrow> index \<Rightarrow> u32 \<Rightarrow> u32 \<Rightarrow> u32 \<Rightarrow> ring_conf \<Rightarrow> ring_conf" where
  "push_overflowed m i' free_fit fit overflowed s =
     (case Push_copy_overflowed m fit overflowed (memory s) of
        Inl e \<Rightarrow> s\<lparr>p_pc := P_Error e\<rparr>
      | Inr mem \<Rightarrow> s\<lparr>memory := mem, p_pc := P_Store m i' free_fit fit overflowed\<rparr>)"

definition push_store ::
  "u32 \<Rightarrow> byte list \<Rightarrow> index \<Rightarrow> u32 \<Rightarrow> u32 \<Rightarrow> u32 \<Rightarrow> ring_conf \<Rightarrow> ring_conf" where
  "push_store c m i' free_fit fit overflowed s =
     (case ProcessMessage_advance i' free_fit fit overflowed c of
        Inl e \<Rightarrow> s\<lparr>p_pc := P_Error e\<rparr>
      | Inr j \<Rightarrow> s\<lparr>p_hist := p_hist s @ [u64_of_index j], p_pc := P_Idle, pushed := pushed s @ [m]\<rparr>)"

section \<open>Steps of the consumer\<close>

definition pop_call :: "byte list \<Rightarrow> u64 \<Rightarrow> ring_conf \<Rightarrow> ring_conf" where
  "pop_call buf cap s = s\<lparr>c_pc := C_Wait buf cap (index_of_u64 (last (c_hist s)))\<rparr>"

definition pop_load :: "nat \<Rightarrow> byte list \<Rightarrow> u64 \<Rightarrow> index \<Rightarrow> ring_conf \<Rightarrow> ring_conf" where
  "pop_load j buf cap i s = s\<lparr>c_seen := j, c_pc :=
     (if i = index_of_u64 (p_hist s ! j) then C_Wait buf cap i else C_Header buf cap i)\<rparr>"

definition pop_header :: "u32 \<Rightarrow> byte list \<Rightarrow> u64 \<Rightarrow> index \<Rightarrow> ring_conf \<Rightarrow> ring_conf" where
  "pop_header c buf cap i s =
     s\<lparr>c_pc := (case Pop_header i cap (memory s) of
        Inl e \<Rightarrow> C_Error e
      | Inr payload_size \<Rightarrow>
          (case ProcessMessage_split i payload_size c of
             Inl e \<Rightarrow> C_Error e
           | Inr (i', free_fit, fit, overflowed) \<Rightarrow> C_Fit buf payload_size i i' free_fit fit overflowed))\<rparr>"

definition pop_fit ::
  "byte list \<Rightarrow> u32 \<Rightarrow> index \<Rightarrow> index \<Rightarrow> u32 \<Rightarrow> u32 \<Rightarrow> u32 \<Rightarrow> ring_conf \<Rightarrow> ring_conf" where
  "pop_fit buf payload_size i i' free_fit fit overflowed s =
     s\<lparr>c_pc := (case Pop_copy_fit i (memory s) fit buf of
        Inl e \<Rightarrow> C_Error e
      | Inr buf' \<Rightarrow> C_Overflowed buf' payload_size i' free_fit fit overflowed)\<rparr>"

definition pop_overflowed ::
  "byte list \<Rightarrow> u32 \<Rightarrow> index \<Rightarrow> u32 \<Rightarrow> u32 \<Rightarrow> u32 \<Rightarrow> ring_conf \<Rightarrow> ring_conf" where
  "pop_overflowed buf payload_size i' free_fit fit overflowed s =
     s\<lparr>c_pc := (case Pop_copy_overflowed (memory s) fit overflowed buf of
        Inl e \<Rightarrow> C_Error e
      | Inr buf' \<Rightarrow> C_Store buf' payload_size i' free_fit fit overflowed)\<rparr>"

definition pop_store ::
  "u32 \<Rightarrow> byte list \<Rightarrow> u32 \<Rightarrow> index \<Rightarrow> u32 \<Rightarrow> u32 \<Rightarrow> u32 \<Rightarrow> ring_conf \<Rightarrow> ring_conf" where
  "pop_store c buf payload_size i' free_fit fit overflowed s =
     (case ProcessMessage_advance i' free_fit fit overflowed c of
        Inl e \<Rightarrow> s\<lparr>c_pc := C_Error e\<rparr>
      | Inr j \<Rightarrow> s\<lparr>c_hist := c_hist s @ [u64_of_index j], c_pc := C_Idle,
                  popped := popped s @ [take (unat payload_size) buf]\<rparr>)"

section \<open>Interleaving\<close>

inductive p_step :: "u32 \<Rightarrow> ring_conf \<Rightarrow> ring_conf \<Rightarrow> bool" for c :: u32 where
  p_call: "p_pc s = P_Idle \<Longrightarrow> length m < 2 ^ 64 \<Longrightarrow> p_step c s (push_call c m s)"
| p_load: "p_pc s = P_Wait m i rs \<Longrightarrow> p_seen s \<le> j \<Longrightarrow> j < length (c_hist s) \<Longrightarrow>
    p_step c s (push_load c j m i rs s)"
| p_header: "p_pc s = P_Header m i \<Longrightarrow> p_step c s (push_header c m i s)"
| p_fit: "p_pc s = P_Fit m i i' ff fit ov \<Longrightarrow> p_step c s (push_fit m i i' ff fit ov s)"
| p_overflowed: "p_pc s = P_Overflowed m i' ff fit ov \<Longrightarrow> p_step c s (push_overflowed m i' ff fit ov s)"
| p_store: "p_pc s = P_Store m i' ff fit ov \<Longrightarrow> p_step c s (push_store c m i' ff fit ov s)"

text \<open>The caller of \<open>Pop\<close> announces no more than the memory it has.\<close>

inductive c_step :: "u32 \<Rightarrow> ring_conf \<Rightarrow> ring_conf \<Rightarrow> bool" for c :: u32 where
  c_call: "c_pc s = C_Idle \<Longrightarrow> unat cap \<le> length buf \<Longrightarrow> c_step c s (pop_call buf cap s)"
| c_load: "c_pc s = C_Wait buf cap i \<Longrightarrow> c_seen s \<le> j \<Longrightarrow> j < length (p_hist s) \<Longrightarrow>
    c_step c s (pop_load j buf cap i s)"
| c_header: "c_pc s = C_Header buf cap i \<Longrightarrow> c_step c s (pop_header c buf cap i s)"
| c_fit: "c_pc s = C_Fit buf ps i i' ff fit ov \<Longrightarrow> c_step c s (pop_fit buf ps i i' ff fit ov s)"
| c_overflowed: "c_pc s = C_Overflowed buf ps i' ff fit ov \<Longrightarrow>
    c_step c s (pop_overflowed buf ps i' ff fit ov s)"
| c_store: "c_pc s = C_Store buf ps i' ff fit ov \<Longrightarrow> c_step c s (pop_store c buf ps i' ff fit ov s)"

inductive ring_reach :: "u32 \<Rightarrow> byte list \<Rightarrow> ring_conf \<Rightarrow> bool" for c :: u32 and mem :: "byte list" where
  reach_start: "ring_reach c mem (ring_start mem)"
| reach_p: "ring_reach c mem s \<Longrightarrow> p_step c s s' \<Longrightarrow> ring_reach c mem s'"
| reach_c: "ring_reach c mem s \<Longrightarrow> c_step c s s' \<Longrightarrow> ring_reach c mem s'"

inductive_cases p_step_elim: "p_step c s s'"
inductive_cases c_step_elim: "c_step c s s'"

section \<open>Invariant\<close>

text \<open>The position at which the \<open>k\<close>-th record starts.\<close>

definition pos_of :: "byte list list \<Rightarrow> nat \<Rightarrow> nat" where
  "pos_of ms k = total (take k ms)"

definition index_hist :: "nat \<Rightarrow> byte list list \<Rightarrow> nat \<Rightarrow> u64 list" where
  "index_hist c ms n = map (\<lambda>k. u64_of_index (idx c (pos_of ms k))) [0..<Suc n]"

text \<open>The values \<open>ProcessMessage\<close> computes for a payload of \<open>n\<close> bytes at position \<open>p\<close>.\<close>

definition split_vals :: "nat \<Rightarrow> nat \<Rightarrow> nat \<Rightarrow> index \<Rightarrow> u32 \<Rightarrow> u32 \<Rightarrow> u32 \<Rightarrow> bool" where
  "split_vals c p n i' ff fit ov \<longleftrightarrow>
     i' = (idx c p)\<lparr>idx_value := of_nat (p mod c + RecordHeader_size)\<rparr> \<and>
     ff = of_nat (c - (p mod c + RecordHeader_size)) \<and>
     fit = of_nat (fit_part c p n) \<and> ov = of_nat (n - fit_part c p n)"

text \<open>\<open>r\<close> bytes may be written from position \<open>P\<close> on, with the consumer last seen at \<open>C\<close>.\<close>

fun p_inv :: "nat \<Rightarrow> nat \<Rightarrow> nat \<Rightarrow> byte list \<Rightarrow> producer_pc \<Rightarrow> bool" where
  "p_inv c P C r P_Idle = True"
| "p_inv c P C r (P_Wait m i rs) = (i = idx c P \<and> RecordHeader_size + length m \<le> c \<and>
     rs = of_nat (RecordHeader_size + length m))"
| "p_inv c P C r (P_Header m i) = (i = idx c P \<and> RecordHeader_size + length m \<le> c \<and>
     P + rec_size (length m) \<le> C + c)"
| "p_inv c P C r (P_Fit m i i' ff fit ov) = (i = idx c P \<and> RecordHeader_size + length m \<le> c \<and>
     P + rec_size (length m) \<le> C + c \<and> split_vals c P (length m) i' ff fit ov \<and>
     cread r P RecordHeader_size = le_bytes RecordHeader_size (length m))"
| "p_inv c P C r (P_Overflowed m i' ff fit ov) = (RecordHeader_size + length m \<le> c \<and>
     P + rec_size (length m) \<le> C + c \<and> split_vals c P (length m) i' ff fit ov \<and>
     cread r P RecordHeader_size = le_bytes RecordHeader_size (length m) \<and>
     cread r (P + RecordHeader_size) (fit_part c P (length m)) = take (fit_part c P (length m)) m)"
| "p_inv c P C r (P_Store m i' ff fit ov) = (RecordHeader_size + length m \<le> c \<and>
     P + rec_size (length m) \<le> C + c \<and> split_vals c P (length m) i' ff fit ov \<and> record_at r P m)"
| "p_inv c P C r (P_Error e) = (e = Runtime_Error ''message is not fit in ring memory buffer'')"

text \<open>The consumer at position \<open>H\<close>, where the payload of the record is \<open>m\<close>; \<open>ready\<close> says that the
  record has been released to it.\<close>

fun c_inv :: "nat \<Rightarrow> nat \<Rightarrow> bool \<Rightarrow> byte list \<Rightarrow> consumer_pc \<Rightarrow> bool" where
  "c_inv c H ready m C_Idle = True"
| "c_inv c H ready m (C_Wait buf cap i) = (i = idx c H \<and> unat cap \<le> length buf)"
| "c_inv c H ready m (C_Header buf cap i) = (i = idx c H \<and> unat cap \<le> length buf \<and> ready)"
| "c_inv c H ready m (C_Fit buf ps i i' ff fit ov) = (i = idx c H \<and> ready \<and> length m \<le> length buf \<and>
     ps = of_nat (length m) \<and> split_vals c H (length m) i' ff fit ov)"
| "c_inv c H ready m (C_Overflowed buf ps i' ff fit ov) = (ready \<and> length m \<le> length buf \<and>
     ps = of_nat (length m) \<and> split_vals c H (length m) i' ff fit ov \<and>
     take (fit_part c H (length m)) buf = take (fit_part c H (length m)) m)"
| "c_inv c H ready m (C_Store buf ps i' ff fit ov) = (ready \<and> ps = of_nat (length m) \<and>
     split_vals c H (length m) i' ff fit ov \<and> take (length m) buf = m)"
| "c_inv c H ready m (C_Error e) = (e = Runtime_Error ''message is not fit in outer memory buffer'')"

definition ring_inv :: "nat \<Rightarrow> ring_conf \<Rightarrow> bool" where
  "ring_inv c s \<longleftrightarrow>
     (let N = length (pushed s); n = length (popped s); pos = pos_of (pushed s) in
      ring_pos c 0 \<and> length (memory s) = c \<and>
      p_hist s = index_hist c (pushed s) N \<and> c_hist s = index_hist c (pushed s) n \<and>
      take n (pushed s) = popped s \<and> p_seen s \<le> n \<and> n \<le> c_seen s \<and> c_seen s \<le> N \<and>
      pos N \<le> pos (p_seen s) + c \<and>
      holds (memory s) (pos n) (drop n (pushed s)) \<and>
      p_inv c (pos N) (pos (p_seen s)) (memory s) (p_pc s) \<and>
      c_inv c (pos n) (n < c_seen s) (pushed s ! n) (c_pc s))"

section \<open>Positions of records\<close>

lemma pos_of_0 [simp]: "pos_of ms 0 = 0"
  by (simp add: pos_of_def)

lemma pos_of_dvd [simp]: "4 dvd pos_of ms k"
  by (simp add: pos_of_def)

lemma pos_of_snoc [simp]: "k \<le> length ms \<Longrightarrow> pos_of (ms @ [m]) k = pos_of ms k"
  by (simp add: pos_of_def)

lemma pos_of_snoc_end [simp]:
  "pos_of (ms @ [m]) (Suc (length ms)) = pos_of ms (length ms) + rec_size (length m)"
  by (simp add: pos_of_def)

lemma pos_of_Suc: "k < length ms \<Longrightarrow> pos_of ms (Suc k) = pos_of ms k + rec_size (length (ms ! k))"
  by (simp add: pos_of_def take_Suc_conv_app_nth)

lemma pos_of_drop: "k \<le> length ms \<Longrightarrow> pos_of ms k + total (drop k ms) = pos_of ms (length ms)"
  by (metis append_take_drop_id order_refl pos_of_def take_all total_append)

lemma pos_of_mono:
  assumes "j \<le> k"
  shows "pos_of ms j \<le> pos_of ms k"
proof -
  have "take k ms = take j ms @ drop j (take k ms)"
    using assms append_take_drop_id [of j "take k ms"] by (simp add: min_def)
  then have "pos_of ms k = pos_of ms j + total (drop j (take k ms))"
    unfolding pos_of_def by (metis total_append)
  then show ?thesis by simp
qed

lemma pos_of_less:
  assumes "j < k" and "k \<le> length ms"
  shows "pos_of ms j < pos_of ms k"
proof -
  have "pos_of ms (Suc j) = pos_of ms j + rec_size (length (ms ! j))"
    using assms by (simp add: pos_of_Suc)
  moreover have "pos_of ms (Suc j) \<le> pos_of ms k" using assms by (intro pos_of_mono) simp
  moreover have "0 < rec_size (length (ms ! j))" by simp
  ultimately show ?thesis by linarith
qed

lemma index_hist_nth [simp]: "k \<le> n \<Longrightarrow> index_hist c ms n ! k = u64_of_index (idx c (pos_of ms k))"
  by (simp add: index_hist_def del: upt_Suc)

lemma index_hist_length [simp]: "length (index_hist c ms n) = Suc n"
  by (simp add: index_hist_def)

lemma index_hist_last [simp]: "last (index_hist c ms n) = u64_of_index (idx c (pos_of ms n))"
  by (simp add: index_hist_def)

lemma index_hist_Suc: "index_hist c ms (Suc n) = index_hist c ms n @ [u64_of_index (idx c (pos_of ms (Suc n)))]"
  by (simp add: index_hist_def)

lemma index_hist_snoc [simp]: "n \<le> length ms \<Longrightarrow> index_hist c (ms @ [m]) n = index_hist c ms n"
  by (simp add: index_hist_def)

section \<open>The invariant holds\<close>

lemma ring_inv_start:
  assumes "length mem = c" and "0 < c" and "c < 2 ^ 32" and "4 dvd c"
  shows "ring_inv c (ring_start mem)"
  using assms
  by (simp add: ring_inv_def ring_start_def ring_pos_def index_hist_def idx_def u64_of_index_def)

text \<open>A pc of the producer that needs no more than the invariant gives.\<close>

lemma ring_inv_p_pc:
  assumes "ring_inv c s"
    and "p_inv c (pos_of (pushed s) (length (pushed s))) (pos_of (pushed s) (p_seen s)) (memory s) pc"
  shows "ring_inv c (s\<lparr>p_pc := pc\<rparr>)"
  using assms by (simp add: ring_inv_def Let_def)

lemma ring_inv_c_pc:
  assumes "ring_inv c s"
    and "c_inv c (pos_of (pushed s) (length (popped s))) (length (popped s) < c_seen s)
      (pushed s ! length (popped s)) pc"
  shows "ring_inv c (s\<lparr>c_pc := pc\<rparr>)"
  using assms by (simp add: ring_inv_def Let_def)

text \<open>The producer writes inside the room it has seen: the records in the ring survive.\<close>

lemma ring_inv_write:
  assumes inv: "ring_inv c s" and w: "cwritten p bs (memory s) mem"
    and lo: "pos_of (pushed s) (length (pushed s)) \<le> p"
    and hi: "p + length bs \<le> pos_of (pushed s) (p_seen s) + c"
    and pc: "p_inv c (pos_of (pushed s) (length (pushed s))) (pos_of (pushed s) (p_seen s)) mem pc"
  shows "ring_inv c (s\<lparr>memory := mem, p_pc := pc\<rparr>)"
proof -
  let ?n = "length (popped s)"
  have n: "?n \<le> length (pushed s)" and seen: "p_seen s \<le> ?n" and len: "length (memory s) = c"
    and h: "holds (memory s) (pos_of (pushed s) ?n) (drop ?n (pushed s))"
    using inv by (simp_all add: ring_inv_def Let_def)
  have "pos_of (pushed s) (p_seen s) \<le> pos_of (pushed s) ?n" using seen by (rule pos_of_mono)
  then have "holds mem (pos_of (pushed s) ?n) (drop ?n (pushed s))"
    by (intro holds_disjoint [OF w _ _ h]) (use lo hi len pos_of_drop [OF n] in simp_all)
  then show ?thesis
    using inv pc cwritten_length [OF w] by (simp add: ring_inv_def Let_def)
qed

lemma split_vals_ok:
  assumes "ring_pos c p" and "RecordHeader_size + n \<le> c"
  shows "\<exists>i' ff fit ov. ProcessMessage_split (idx c p) (of_nat n) (of_nat c) = Inr (i', ff, fit, ov) \<and>
    split_vals c p n i' ff fit ov"
  by (simp add: split_ok [OF assms] split_vals_def del: of_nat_diff of_nat_add)

lemma split_vals_advance:
  assumes "ring_pos c p" and "RecordHeader_size + n \<le> c" and "split_vals c p n i' ff fit ov"
  shows "ProcessMessage_advance i' ff fit ov (of_nat c) = Inr (idx c (p + rec_size n))"
  using advance_ok [OF assms(1,2)] assms(3) by (simp add: split_vals_def)

text \<open>The facts of the invariant the steps of the producer need.\<close>

lemma ring_inv_producer:
  assumes "ring_inv c s" and "P = pos_of (pushed s) (length (pushed s))"
    and "C = pos_of (pushed s) (p_seen s)"
  shows "ring_pos c P" "length (memory s) = c" "C \<le> P" "P \<le> C + c"
    "last (p_hist s) = u64_of_index (idx c P)" "p_inv c P C (memory s) (p_pc s)"
  using assms pos_of_mono [of "p_seen s" "length (pushed s)" "pushed s"]
  by (auto simp: ring_inv_def Let_def ring_pos_def)

lemma push_call_inv:
  assumes inv: "ring_inv c s" and m: "length m < 2 ^ 64"
  shows "ring_inv c (push_call (of_nat c) m s)"
proof -
  note f = ring_inv_producer [OF inv refl refl]
  have c: "c < 2 ^ 32" using f(1) by (simp add: ring_pos_def)
  show ?thesis
  proof (cases "RecordHeader_size + length m \<le> c")
    case True
    with c show ?thesis unfolding push_call_def Push_record_size_ok [OF True c]
      by (simp add: f(5) ring_inv_p_pc [OF inv] del: of_nat_add)
  next
    case False
    with c m show ?thesis
      by (simp add: push_call_def Push_record_size_too_big ring_inv_p_pc [OF inv])
  qed
qed

lemma push_load_inv:
  assumes inv: "ring_inv c s" and pc: "p_pc s = P_Wait m i rs"
    and j: "p_seen s \<le> j" "j < length (c_hist s)"
  shows "ring_inv c (push_load (of_nat c) j m i rs s)"
proof -
  define P where "P = pos_of (pushed s) (length (pushed s))"
  define C where "C = pos_of (pushed s) j"
  note f = ring_inv_producer [OF inv P_def refl]
  have jn: "j \<le> length (popped s)" "length (popped s) \<le> length (pushed s)"
    and ch: "c_hist s = index_hist c (pushed s) (length (popped s))"
    using inv j by (simp_all add: ring_inv_def Let_def)
  have CP: "C \<le> P" unfolding C_def P_def using jn by (intro pos_of_mono) simp
  have "pos_of (pushed s) (p_seen s) \<le> C" unfolding C_def using j(1) by (rule pos_of_mono)
  then have PC: "P \<le> C + c" using f(4) by simp
  have i: "i = idx c P" and fits: "RecordHeader_size + length m \<le> c"
    and rs: "rs = of_nat (RecordHeader_size + length m)"
    using f(6) pc by simp_all
  have c: "c < 2 ^ 32" "4 dvd c" using f(1) by (simp_all add: ring_pos_def)
  have room: "ring_room c P C < 2 ^ 32" using c ring_room_le [of c P C] by simp
  have dvd: "4 dvd ring_room c P C" using c by (simp add: ring_room_dvd P_def C_def)
  have base: "ring_inv c (s\<lparr>p_seen := j, p_pc := pc'\<rparr>)"
    if "p_inv c P C (memory s) pc'" for pc'
    using inv that jn j(1) PC by (simp add: ring_inv_def Let_def P_def C_def)
  have le: "rs \<le> of_nat (ring_room c P C) \<longleftrightarrow> RecordHeader_size + length m \<le> ring_room c P C"
    using fits c room by (simp add: rs word_le_nat_alt del: of_nat_add)
  have free: "Push_free_size i (index_of_u64 (c_hist s ! j)) (of_nat c) = Inr (of_nat (ring_room c P C))"
    using jn by (simp add: ch i Push_free_size_ok [OF f(1) CP PC] flip: C_def)
  have "rec_size (length m) \<le> ring_room c P C" if "RecordHeader_size + length m \<le> ring_room c P C"
    using that dvd by (simp add: rec_size_le_iff)
  then have "p_inv c P C (memory s) (if rs \<le> ucast (of_nat (ring_room c P C) :: u32)
      then P_Header m i else P_Wait m i rs)"
    using room fits CP PC by (simp add: le ring_room_iff) (simp add: i rs)
  then show ?thesis by (simp add: push_load_def free base)
qed

lemma push_header_inv:
  assumes inv: "ring_inv c s" and pc: "p_pc s = P_Header m i"
  shows "ring_inv c (push_header (of_nat c) m i s)"
proof -
  note f = ring_inv_producer [OF inv refl refl]
  let ?P = "pos_of (pushed s) (length (pushed s))"
  have i: "i = idx c ?P" and fits: "RecordHeader_size + length m \<le> c"
    and room: "?P + rec_size (length m) \<le> pos_of (pushed s) (p_seen s) + c"
    using f(6) pc by simp_all
  have m: "length m < 2 ^ 32" using fits f(1) by (simp add: ring_pos_def)
  obtain mem where w: "Push_header (idx c ?P) (of_nat (length m)) (memory s) = Inr mem"
    "cwritten ?P (le_bytes RecordHeader_size (length m)) (memory s) mem"
    using Push_header_ok [OF f(1,2) m] by blast
  obtain i' ff fit ov where sp: "ProcessMessage_split (idx c ?P) (of_nat (length m)) (of_nat c) =
      Inr (i', ff, fit, ov)" "split_vals c ?P (length m) i' ff fit ov"
    using split_vals_ok [OF f(1) fits] by blast
  have "ring_inv c (s\<lparr>memory := mem, p_pc := P_Fit m (idx c ?P) i' ff fit ov\<rparr>)"
    by (rule ring_inv_write [OF inv w(2)])
      (use room fits f(2) rec_size_ge [of "length m"] sp(2) in \<open>auto intro: cread_written [OF w(2)]\<close>)
  then show ?thesis by (simp add: push_header_def i w(1) sp(1))
qed

lemma push_fit_inv:
  assumes inv: "ring_inv c s" and pc: "p_pc s = P_Fit m i i' ff fit ov"
  shows "ring_inv c (push_fit m i i' ff fit ov s)"
proof -
  note f = ring_inv_producer [OF inv refl refl]
  let ?P = "pos_of (pushed s) (length (pushed s))" and ?f = "fit_part c (pos_of (pushed s) (length (pushed s))) (length m)"
  have i: "i = idx c ?P" and fits: "RecordHeader_size + length m \<le> c"
    and room: "?P + rec_size (length m) \<le> pos_of (pushed s) (p_seen s) + c"
    and sv: "split_vals c ?P (length m) i' ff fit ov"
    and hd: "cread (memory s) ?P RecordHeader_size = le_bytes RecordHeader_size (length m)"
    using f(6) pc by simp_all
  have fp: "?f \<le> length m" using fit_part_bounds(1) [OF f(1) fits] .
  obtain mem where w: "Push_copy_fit (idx c ?P) m (of_nat ?f) (memory s) = Inr mem"
    "cwritten (?P + RecordHeader_size) (take ?f m) (memory s) mem"
    using Push_copy_fit_ok [OF f(1,2) fits] by blast
  have "cread mem ?P RecordHeader_size = le_bytes RecordHeader_size (length m)"
    using cread_disjoint [OF w(2), of ?P RecordHeader_size] hd fits f(2) fp by simp
  moreover have "cread mem (?P + RecordHeader_size) ?f = take ?f m"
    by (rule cread_written [OF w(2)]) (use fp fits f(2) in auto)
  ultimately have "ring_inv c (s\<lparr>memory := mem, p_pc := P_Overflowed m i' ff fit ov\<rparr>)"
    by (intro ring_inv_write [OF inv w(2)]) (use room fits fp sv rec_size_ge [of "length m"] in auto)
  then show ?thesis using sv by (simp add: push_fit_def i w(1) split_vals_def)
qed

lemma push_overflowed_inv:
  assumes inv: "ring_inv c s" and pc: "p_pc s = P_Overflowed m i' ff fit ov"
  shows "ring_inv c (push_overflowed m i' ff fit ov s)"
proof -
  note f = ring_inv_producer [OF inv refl refl]
  let ?P = "pos_of (pushed s) (length (pushed s))" and ?f = "fit_part c (pos_of (pushed s) (length (pushed s))) (length m)"
  have fits: "RecordHeader_size + length m \<le> c"
    and room: "?P + rec_size (length m) \<le> pos_of (pushed s) (p_seen s) + c"
    and sv: "split_vals c ?P (length m) i' ff fit ov"
    and hd: "cread (memory s) ?P RecordHeader_size = le_bytes RecordHeader_size (length m)"
    and ft: "cread (memory s) (?P + RecordHeader_size) ?f = take ?f m"
    using f(6) pc by simp_all
  have fp: "?f \<le> length m" using fit_part_bounds(1) [OF f(1) fits] .
  obtain mem where w: "Push_copy_overflowed m (of_nat ?f) (of_nat (length m - ?f)) (memory s) = Inr mem"
    "cwritten (?P + RecordHeader_size + ?f) (drop ?f m) (memory s) mem"
    using Push_copy_overflowed_ok [OF f(1,2) fits] by blast
  have "cread mem ?P RecordHeader_size = le_bytes RecordHeader_size (length m)"
    using cread_disjoint [OF w(2), of ?P RecordHeader_size] hd fits f(2) fp by simp
  moreover have "cread mem (?P + RecordHeader_size) ?f = take ?f m"
    using cread_disjoint [OF w(2), of "?P + RecordHeader_size" ?f] ft fits f(2) fp by simp
  moreover have "cread mem (?P + RecordHeader_size + ?f) (length m - ?f) = drop ?f m"
    by (rule cread_written [OF w(2)]) (use fp fits f(2) in auto)
  ultimately have "record_at mem ?P m"
    using cread_append [of mem "?P + RecordHeader_size" ?f "length m - ?f"] fp
    by (simp add: record_at_def)
  then have "ring_inv c (s\<lparr>memory := mem, p_pc := P_Store m i' ff fit ov\<rparr>)"
    by (intro ring_inv_write [OF inv w(2)]) (use room fits fp sv rec_size_ge [of "length m"] in auto)
  then show ?thesis using sv by (simp add: push_overflowed_def w(1) split_vals_def)
qed

lemma push_store_inv:
  assumes inv: "ring_inv c s" and pc: "p_pc s = P_Store m i' ff fit ov"
  shows "ring_inv c (push_store (of_nat c) m i' ff fit ov s)"
proof -
  note f = ring_inv_producer [OF inv refl refl]
  let ?N = "length (pushed s)" and ?n = "length (popped s)"
  let ?P = "pos_of (pushed s) (length (pushed s))"
  have fits: "RecordHeader_size + length m \<le> c"
    and room: "?P + rec_size (length m) \<le> pos_of (pushed s) (p_seen s) + c"
    and sv: "split_vals c ?P (length m) i' ff fit ov" and r: "record_at (memory s) ?P m"
    using f(6) pc by simp_all
  have n: "?n \<le> ?N" "p_seen s \<le> ?n" "take ?n (pushed s) = popped s" "c_seen s \<le> ?N" "?n \<le> c_seen s"
    using inv by (simp_all add: ring_inv_def Let_def)
  have "c_inv c (pos_of (pushed s) ?n) (?n < c_seen s) ((pushed s @ [m]) ! ?n) (c_pc s)"
  proof (cases "?n < ?N")
    case True
    then show ?thesis using inv by (simp add: ring_inv_def Let_def nth_append)
  next
    case False
    with n have "\<not> ?n < c_seen s" by simp
    with inv show ?thesis by (cases "c_pc s") (simp_all add: ring_inv_def Let_def)
  qed
  moreover have "holds (memory s) (pos_of (pushed s) ?n) (drop ?n (pushed s) @ [m])"
    using inv r pos_of_drop [OF n(1)] by (simp add: holds_append ring_inv_def Let_def)
  ultimately show ?thesis
    using inv n room
    by (simp add: push_store_def split_vals_advance [OF f(1) fits sv] ring_inv_def Let_def index_hist_Suc)
qed

text \<open>The facts of the invariant the steps of the consumer need, with its record if there is one.\<close>

lemma ring_inv_consumer:
  assumes "ring_inv c s" and "H = pos_of (pushed s) (length (popped s))"
    and "m = pushed s ! length (popped s)"
  shows "ring_pos c H" "length (memory s) = c"
    "last (c_hist s) = u64_of_index (idx c H)" "c_inv c H (length (popped s) < c_seen s) m (c_pc s)"
  using assms by (auto simp: ring_inv_def Let_def ring_pos_def)

lemma ring_inv_record:
  assumes inv: "ring_inv c s" and ready: "length (popped s) < c_seen s"
    and "H = pos_of (pushed s) (length (popped s))" and "m = pushed s ! length (popped s)"
  shows "record_at (memory s) H m" "RecordHeader_size + length m \<le> c"
    "pos_of (pushed s) (Suc (length (popped s))) = H + rec_size (length m)"
    "holds (memory s) (H + rec_size (length m)) (drop (Suc (length (popped s))) (pushed s))"
proof -
  let ?n = "length (popped s)" and ?N = "length (pushed s)"
  have n: "?n < ?N" "p_seen s \<le> ?n" and lim: "pos_of (pushed s) ?N \<le> pos_of (pushed s) (p_seen s) + c"
    and h: "holds (memory s) H (drop ?n (pushed s))"
    using inv ready assms(3) by (simp_all add: ring_inv_def Let_def)
  have d: "drop ?n (pushed s) = m # drop (Suc ?n) (pushed s)"
    using n(1) by (simp add: assms(4) Cons_nth_drop_Suc)
  from h show "record_at (memory s) H m"
    and "holds (memory s) (H + rec_size (length m)) (drop (Suc ?n) (pushed s))"
    by (simp_all add: d)
  show Suc: "pos_of (pushed s) (Suc ?n) = H + rec_size (length m)"
    using n(1) by (simp add: pos_of_Suc assms(3,4))
  have "pos_of (pushed s) (p_seen s) \<le> H" unfolding assms(3) using n(2) by (rule pos_of_mono)
  moreover have "pos_of (pushed s) (Suc ?n) \<le> pos_of (pushed s) ?N" using n(1) by (intro pos_of_mono) simp
  ultimately show "RecordHeader_size + length m \<le> c"
    using Suc lim rec_size_ge [of "length m"] by simp
qed

lemma pop_call_inv:
  assumes inv: "ring_inv c s" and "unat cap \<le> length buf"
  shows "ring_inv c (pop_call buf cap s)"
  using assms by (simp add: pop_call_def ring_inv_c_pc [OF inv] ring_inv_consumer [OF inv refl refl])

lemma pop_load_inv:
  assumes inv: "ring_inv c s" and pc: "c_pc s = C_Wait buf cap i"
    and j: "c_seen s \<le> j" "j < length (p_hist s)"
  shows "ring_inv c (pop_load j buf cap i s)"
proof -
  note f = ring_inv_consumer [OF inv refl refl]
  let ?n = "length (popped s)"
  have i: "i = idx c (pos_of (pushed s) ?n)" and cap: "unat cap \<le> length buf"
    using f(4) pc by simp_all
  have jn: "?n \<le> j" "j \<le> length (pushed s)" and ph: "p_hist s ! j = u64_of_index (idx c (pos_of (pushed s) j))"
    using inv j by (simp_all add: ring_inv_def Let_def)
  have "ring_inv c (s\<lparr>c_seen := j, c_pc := pc'\<rparr>)"
    if "c_inv c (pos_of (pushed s) ?n) (?n < j) (pushed s ! ?n) pc'" for pc'
    using inv that jn by (simp add: ring_inv_def Let_def)
  moreover have "?n < j" if "idx c (pos_of (pushed s) ?n) \<noteq> idx c (pos_of (pushed s) j)"
    using that jn(1) by (cases "j = ?n") simp_all
  ultimately show ?thesis using i cap by (simp add: pop_load_def ph)
qed

lemma pop_header_inv:
  assumes inv: "ring_inv c s" and pc: "c_pc s = C_Header buf cap i"
  shows "ring_inv c (pop_header (of_nat c) buf cap i s)"
proof -
  note f = ring_inv_consumer [OF inv refl refl]
  let ?H = "pos_of (pushed s) (length (popped s))" and ?m = "pushed s ! length (popped s)"
  have i: "i = idx c ?H" and cap: "unat cap \<le> length buf" and ready: "length (popped s) < c_seen s"
    using f(4) pc by simp_all
  note r = ring_inv_record [OF inv ready refl refl]
  have m: "length ?m < 2 ^ 32" using r(2) f(1) by (simp add: ring_pos_def)
  obtain i' ff fit ov where sp: "ProcessMessage_split (idx c ?H) (of_nat (length ?m)) (of_nat c) =
      Inr (i', ff, fit, ov)" "split_vals c ?H (length ?m) i' ff fit ov"
    using split_vals_ok [OF f(1) r(2)] by blast
  have "length ?m \<le> length buf" if "\<not> cap < of_nat (length ?m)"
    using that m cap by (simp add: word_less_nat_alt)
  then show ?thesis
    unfolding pop_header_def i Pop_header_read [OF f(1,2) r(1) m]
    using sp ready by (cases "cap < of_nat (length ?m)") (simp_all add: ring_inv_c_pc [OF inv])
qed

lemma record_at_parts:
  assumes "record_at r p m" and "f \<le> length m"
  shows "cread r (p + RecordHeader_size) f = take f m"
    and "cread r (p + RecordHeader_size + f) (length m - f) = drop f m"
proof -
  have m: "m = cread r (p + RecordHeader_size) f @ cread r (p + RecordHeader_size + f) (length m - f)"
    using assms cread_append [of r "p + RecordHeader_size" f "length m - f"] by (simp add: record_at_def)
  show "cread r (p + RecordHeader_size) f = take f m" by (subst m) simp
  show "cread r (p + RecordHeader_size + f) (length m - f) = drop f m" by (subst (2) m) simp
qed

lemma pop_fit_inv:
  assumes inv: "ring_inv c s" and pc: "c_pc s = C_Fit buf ps i i' ff fit ov"
  shows "ring_inv c (pop_fit buf ps i i' ff fit ov s)"
proof -
  note f = ring_inv_consumer [OF inv refl refl]
  let ?H = "pos_of (pushed s) (length (popped s))" and ?m = "pushed s ! length (popped s)"
  let ?f = "fit_part c (pos_of (pushed s) (length (popped s))) (length (pushed s ! length (popped s)))"
  have i: "i = idx c ?H" and ready: "length (popped s) < c_seen s" and buf: "length ?m \<le> length buf"
    and ps: "ps = of_nat (length ?m)" and sv: "split_vals c ?H (length ?m) i' ff fit ov"
    using f(4) pc by simp_all
  note r = ring_inv_record [OF inv ready refl refl]
  have fp: "?f \<le> length ?m" using fit_part_bounds(1) [OF f(1) r(2)] .
  note parts = record_at_parts [OF r(1) fp]
  have "take ?f (splice 0 (take ?f ?m) buf) = take ?f ?m" "length (splice 0 (take ?f ?m) buf) = length buf"
    using fp buf by (simp_all add: splice_def)
  then show ?thesis
    using sv ready buf ps
    by (simp add: parts pop_fit_def i split_vals_def Pop_copy_fit_ok [OF f(1,2) r(2) buf] ring_inv_c_pc [OF inv])
qed

lemma pop_overflowed_inv:
  assumes inv: "ring_inv c s" and pc: "c_pc s = C_Overflowed buf ps i' ff fit ov"
  shows "ring_inv c (pop_overflowed buf ps i' ff fit ov s)"
proof -
  note f = ring_inv_consumer [OF inv refl refl]
  let ?H = "pos_of (pushed s) (length (popped s))" and ?m = "pushed s ! length (popped s)"
  let ?f = "fit_part c (pos_of (pushed s) (length (popped s))) (length (pushed s ! length (popped s)))"
  have ready: "length (popped s) < c_seen s" and buf: "length ?m \<le> length buf"
    and ps: "ps = of_nat (length ?m)" and sv: "split_vals c ?H (length ?m) i' ff fit ov"
    and tk: "take ?f buf = take ?f ?m"
    using f(4) pc by simp_all
  note r = ring_inv_record [OF inv ready refl refl]
  have fp: "?f \<le> length ?m" using fit_part_bounds(1) [OF f(1) r(2)] .
  note parts = record_at_parts [OF r(1) fp]
  have "take (length ?m) (splice ?f (drop ?f ?m) buf) = ?m"
    using fp buf tk by (simp add: splice_def)
  then show ?thesis
    using sv ready buf ps
    by (simp add: parts pop_overflowed_def split_vals_def Pop_copy_overflowed_ok [OF f(1,2) r(2) buf]
        ring_inv_c_pc [OF inv] del: of_nat_diff)
qed

lemma pop_store_inv:
  assumes inv: "ring_inv c s" and pc: "c_pc s = C_Store buf ps i' ff fit ov"
  shows "ring_inv c (pop_store (of_nat c) buf ps i' ff fit ov s)"
proof -
  note f = ring_inv_consumer [OF inv refl refl]
  let ?n = "length (popped s)"
  let ?H = "pos_of (pushed s) ?n" and ?m = "pushed s ! length (popped s)"
  have ready: "?n < c_seen s" and ps: "ps = of_nat (length ?m)"
    and sv: "split_vals c ?H (length ?m) i' ff fit ov" and tk: "take (length ?m) buf = ?m"
    using f(4) pc by simp_all
  note r = ring_inv_record [OF inv ready refl refl]
  have m: "length ?m < 2 ^ 32" using r(2) f(1) by (simp add: ring_pos_def)
  have n: "?n < length (pushed s)" "take ?n (pushed s) = popped s"
    using inv ready by (simp_all add: ring_inv_def Let_def)
  have "take (Suc ?n) (pushed s) = popped s @ [?m]"
    using n by (metis take_Suc_conv_app_nth)
  moreover have "take (unat ps) buf = ?m" using m by (simp add: ps tk)
  ultimately show ?thesis
    using inv ready r
    by (simp add: pop_store_def split_vals_advance [OF f(1) r(2) sv] ring_inv_def Let_def index_hist_Suc)
qed

theorem ring_inv_p_step: "p_step (of_nat c) s s' \<Longrightarrow> ring_inv c s \<Longrightarrow> ring_inv c s'"
  by (induction rule: p_step.induct)
    (auto intro: push_call_inv push_load_inv push_header_inv push_fit_inv push_overflowed_inv push_store_inv)

theorem ring_inv_c_step: "c_step (of_nat c) s s' \<Longrightarrow> ring_inv c s \<Longrightarrow> ring_inv c s'"
  by (induction rule: c_step.induct)
    (auto intro: pop_call_inv pop_load_inv pop_header_inv pop_fit_inv pop_overflowed_inv pop_store_inv)

lemma ring_inv_reach:
  assumes "ring_reach (of_nat c) mem s" and "length mem = c" and "0 < c" and "c < 2 ^ 32" and "4 dvd c"
  shows "ring_inv c s"
  using assms(1)
  by induction (auto intro: ring_inv_p_step ring_inv_c_step ring_inv_start assms(2-))

end
