(* ===== verification/Ring_Safety.thy ===== *)
theory Ring_Safety
  imports Ring_Concurrent
begin

text \<open>
  What the invariant of the concurrent ring buffer gives: messages arrive complete and in
  order, no assertion fails and no memory outside of the ring is touched, the two processes
  never race on a byte, and they never wait for each other at the same time.
\<close>

section \<open>The bytes a pending step touches\<close>

text \<open>Offsets in the ring the next step of the producer writes.\<close>

fun p_writes :: "producer_pc \<Rightarrow> nat set" where
  "p_writes (P_Header m i) = {unat (idx_value i)..<unat (idx_value i) + RecordHeader_size}"
| "p_writes (P_Fit m i i' ff fit ov) = {unat (idx_value i) + RecordHeader_size..<
     unat (idx_value i) + RecordHeader_size + unat fit}"
| "p_writes (P_Overflowed m i' ff fit ov) = {0..<unat ov}"
| "p_writes _ = {}"

text \<open>Offsets in the ring the next step of the consumer reads.\<close>

fun c_reads :: "consumer_pc \<Rightarrow> nat set" where
  "c_reads (C_Header buf cap i) = {unat (idx_value i)..<unat (idx_value i) + RecordHeader_size}"
| "c_reads (C_Fit buf ps i i' ff fit ov) = {unat (idx_value i) + RecordHeader_size..<
     unat (idx_value i) + RecordHeader_size + unat fit}"
| "c_reads (C_Overflowed buf ps i' ff fit ov) = {0..<unat ov}"
| "c_reads _ = {}"

text \<open>Offsets of the positions from \<open>a\<close> up to \<open>b\<close>.\<close>

definition offsets :: "nat \<Rightarrow> nat \<Rightarrow> nat \<Rightarrow> nat set" where
  "offsets c a b = (\<lambda>x. x mod c) ` {a..<b}"

lemma offsets_mono: "a \<le> a' \<Longrightarrow> b' \<le> b \<Longrightarrow> offsets c a' b' \<subseteq> offsets c a b"
  by (auto simp: offsets_def)

lemma offsets_flat:
  assumes "p mod c + k \<le> c" and "0 < c"
  shows "{p mod c..<p mod c + k} = offsets c p (p + k)"
proof -
  have e: "(p + j) mod c = p mod c + j" if "j < k" for j
    using that assms mod_near [of j c p] by auto
  show ?thesis
  proof (intro set_eqI iffI)
    fix x assume "x \<in> {p mod c..<p mod c + k}"
    then have "x = (p + (x - p mod c)) mod c" "x - p mod c < k" using e [of "x - p mod c"] by auto
    then show "x \<in> offsets c p (p + k)" unfolding offsets_def by (intro image_eqI) auto
  next
    fix x assume "x \<in> offsets c p (p + k)"
    then obtain y where y: "x = y mod c" "p \<le> y" "y < p + k" by (auto simp: offsets_def)
    then have "x = (p + (y - p)) mod c" "y - p < k" by auto
    then show "x \<in> {p mod c..<p mod c + k}" using e [of "y - p"] by simp
  qed
qed

lemma offsets_disjoint:
  assumes "b \<le> p" and "q \<le> a + c"
  shows "offsets c a b \<inter> offsets c p q = {}"
proof -
  have False if x: "a \<le> x" "x < b" and y: "p \<le> y" "y < q" and eq: "x mod c = y mod c" for x y
  proof -
    have "x \<le> y" "y < x + c" "y \<noteq> x" using assms x y by auto
    moreover from this eq have "c dvd y - x" by (metis mod_eq_dvd_iff_nat)
    ultimately show False by (metis dvd_imp_le add_diff_cancel_left' le_add_diff_inverse
          linorder_not_less nat_add_left_cancel_less zero_less_diff le_neq_implies_less)
  qed
  then show ?thesis unfolding offsets_def by fastforce
qed

text \<open>Both copies of a record stay inside the record.\<close>

lemma split_vals_offsets:
  assumes "ring_pos c p" and "RecordHeader_size + n \<le> c" and "split_vals c p n i' ff fit ov"
  shows "{unat (idx_value (idx c p)) + RecordHeader_size..<
      unat (idx_value (idx c p)) + RecordHeader_size + unat fit} \<subseteq> offsets c p (p + rec_size n)"
    and "{0..<unat ov} \<subseteq> offsets c p (p + rec_size n)"
proof -
  note b = fit_part_bounds [OF assms(1,2)]
  let ?f = "fit_part c p n"
  have c: "0 < c" using assms(1) by (simp add: ring_pos_def)
  have f: "unat fit = ?f" "unat ov = n - ?f"
    using assms(3) b(3,4) by (simp_all add: split_vals_def del: of_nat_diff)
  have s: "p + (RecordHeader_size + n) \<le> p + rec_size n" using rec_size_ge [of n] by simp
  have "{p mod c..<p mod c + (RecordHeader_size + ?f)} = offsets c p (p + (RecordHeader_size + ?f))"
    using b(2) by (intro offsets_flat c) simp
  moreover have "offsets c p (p + (RecordHeader_size + ?f)) \<subseteq> offsets c p (p + rec_size n)"
    using b(1) s by (intro offsets_mono) auto
  ultimately show "{unat (idx_value (idx c p)) + RecordHeader_size..<
      unat (idx_value (idx c p)) + RecordHeader_size + unat fit} \<subseteq> offsets c p (p + rec_size n)"
    unfolding f unat_idx_value [OF assms(1)] by force
  show "{0..<unat ov} \<subseteq> offsets c p (p + rec_size n)"
  proof (cases "n - ?f = 0")
    case False
    note z = b(5) [OF False]
    have "n - ?f \<le> c" using assms(2) by simp
    then have "{0..<n - ?f} = offsets c (p + RecordHeader_size + ?f) (p + RecordHeader_size + ?f + (n - ?f))"
      using offsets_flat [of "p + RecordHeader_size + ?f" c "n - ?f"] z c by simp
    also have "\<dots> \<subseteq> offsets c p (p + rec_size n)" using b(1) s by (intro offsets_mono) auto
    finally show ?thesis by (simp add: f)
  qed (simp add: f)
qed

lemma header_offsets:
  assumes "ring_pos c p"
  shows "{unat (idx_value (idx c p))..<unat (idx_value (idx c p)) + RecordHeader_size} \<subseteq>
    offsets c p (p + rec_size n)"
proof -
  have "{p mod c..<p mod c + RecordHeader_size} = offsets c p (p + RecordHeader_size)"
    using assms ring_pos_room(1) [OF assms] by (intro offsets_flat) (simp_all add: ring_pos_def)
  also have "\<dots> \<subseteq> offsets c p (p + rec_size n)" using rec_size_ge [of n] by (intro offsets_mono) auto
  finally show ?thesis by (simp add: unat_idx_value [OF assms])
qed

lemma p_writes_room:
  assumes "p_inv c P C r pc" and "ring_pos c P"
  shows "p_writes pc \<subseteq> offsets c P (C + c)"
proof -
  have grow: "S \<subseteq> offsets c P (C + c)"
    if "S \<subseteq> offsets c P (P + rec_size n)" "P + rec_size n \<le> C + c" for S n
    using that offsets_mono [of P P "P + rec_size n" "C + c" c] by blast
  show ?thesis
  proof (cases pc)
    case (P_Header m i)
    with assms have i: "i = idx c P" and r: "P + rec_size (length m) \<le> C + c" by simp_all
    show ?thesis
      unfolding P_Header i p_writes.simps by (rule grow [OF header_offsets [OF assms(2)] r])
  next
    case (P_Fit m i i' ff fit ov)
    with assms have i: "i = idx c P" and r: "RecordHeader_size + length m \<le> c"
        "split_vals c P (length m) i' ff fit ov" "P + rec_size (length m) \<le> C + c" by simp_all
    show ?thesis
      unfolding P_Fit i p_writes.simps by (rule grow [OF split_vals_offsets(1) [OF assms(2) r(1,2)] r(3)])
  next
    case (P_Overflowed m i' ff fit ov)
    with assms have r: "RecordHeader_size + length m \<le> c"
        "split_vals c P (length m) i' ff fit ov" "P + rec_size (length m) \<le> C + c" by simp_all
    show ?thesis
      unfolding P_Overflowed p_writes.simps
      by (rule grow [OF split_vals_offsets(2) [OF assms(2) r(1,2)] r(3)])
  qed simp_all
qed

lemma c_reads_record:
  assumes "c_inv c H ready m pc" and "ring_pos c H" and "ready \<Longrightarrow> RecordHeader_size + length m \<le> c"
    and "c_reads pc \<noteq> {}"
  shows "ready \<and> c_reads pc \<subseteq> offsets c H (H + rec_size (length m))"
proof (cases pc)
  case (C_Header buf cap i)
  with assms(1) have i: "i = idx c H" and r: ready by simp_all
  show ?thesis
    unfolding C_Header i c_reads.simps using r header_offsets [OF assms(2)] by simp
next
  case (C_Fit buf ps i i' ff fit ov)
  with assms(1) have i: "i = idx c H" and r: ready and sv: "split_vals c H (length m) i' ff fit ov"
    by simp_all
  show ?thesis
    unfolding C_Fit i c_reads.simps
    using r split_vals_offsets(1) [OF assms(2) assms(3) [OF r] sv] by blast
next
  case (C_Overflowed buf ps i' ff fit ov)
  with assms(1) have r: ready and sv: "split_vals c H (length m) i' ff fit ov" by simp_all
  show ?thesis
    unfolding C_Overflowed c_reads.simps
    using r split_vals_offsets(2) [OF assms(2) assms(3) [OF r] sv] by blast
qed (use assms(4) in simp_all)

section \<open>The waiting loops\<close>

text \<open>With nothing left in the ring, the newest value of the consumer's index lets the producer go on.\<close>

lemma producer_sees:
  assumes inv: "ring_inv c s" and c: "c < 2 ^ 32" and pc: "p_pc s = P_Wait m i rs"
    and N: "length (popped s) = length (pushed s)"
  defines "s' \<equiv> push_load (of_nat c) (length (popped s)) m i rs s"
  shows "p_step (of_nat c) s s' \<and> p_pc s' = P_Header m i"
proof
  let ?n = "length (popped s)"
  note p = ring_inv_producer [OF inv refl refl]
  have o: "p_seen s \<le> ?n" and ch: "c_hist s = index_hist c (pushed s) ?n"
    using inv by (simp_all add: ring_inv_def Let_def)
  have i: "i = idx c (pos_of (pushed s) (length (pushed s)))" and fits: "RecordHeader_size + length m \<le> c"
    and rs: "rs = of_nat (RecordHeader_size + length m)"
    using p(6) pc by simp_all
  have free: "Push_free_size i (index_of_u64 (c_hist s ! ?n)) (of_nat c) = Inr (of_nat c)"
    using Push_free_size_ok [OF p(1), of "pos_of (pushed s) (length (pushed s))"] c
    by (simp add: i ch N ring_room_def)
  have "rs \<le> of_nat c" using fits c by (simp add: rs word_le_nat_alt del: of_nat_add)
  then show "p_pc s' = P_Header m i"
    using c by (simp add: s'_def push_load_def free)
  show "p_step (of_nat c) s s'"
    unfolding s'_def using pc o ch by (intro p_load) simp_all
qed

text \<open>With a record in the ring, the newest value of the producer's index lets the consumer go on.\<close>

lemma consumer_sees:
  assumes inv: "ring_inv c s" and pc: "c_pc s = C_Wait buf cap k"
    and N: "length (popped s) < length (pushed s)"
  defines "s' \<equiv> pop_load (length (pushed s)) buf cap k s"
  shows "c_step (of_nat c) s s' \<and> c_pc s' = C_Header buf cap k"
proof
  let ?pos = "pos_of (pushed s)" and ?n = "length (popped s)" and ?N = "length (pushed s)"
  note p = ring_inv_producer [OF inv refl refl] and cc = ring_inv_consumer [OF inv refl refl]
  have o: "p_seen s \<le> ?n" "c_seen s \<le> ?N" and ph: "p_hist s = index_hist c (pushed s) ?N"
    and c: "0 < c" "4 dvd c"
    using inv by (simp_all add: ring_inv_def Let_def ring_pos_def)
  have k: "k = idx c (?pos ?n)" using cc(4) pc by simp
  have lt: "?pos ?n < ?pos ?N" using N by (intro pos_of_less) simp_all
  have "?pos (p_seen s) \<le> ?pos ?n" using o by (intro pos_of_mono) simp
  then have "?pos ?N \<le> ?pos ?n + c" using p(4) by simp
  then have "idx c (?pos ?n) \<noteq> idx c (?pos ?N)"
    using idx_eq_iff [of c "?pos ?n" "?pos ?N"] lt inv by (simp add: ring_inv_def Let_def ring_pos_def)
  then show "c_pc s' = C_Header buf cap k"
    by (simp add: s'_def pop_load_def ph k)
  show "c_step (of_nat c) s s'"
    unfolding s'_def using pc o ph by (intro c_load) simp_all
qed

section \<open>Properties\<close>

text \<open>C1: with both processes running, in every order of their steps and with loads as outdated as
  release and acquire ordering allows, the payloads that \<open>Pop\<close> has returned are the first
  payloads \<open>Push\<close> was given, in that order and byte for byte, and the records in between
  fit in the ring.\<close>

theorem concurrent_fifo:
  assumes "ring_reach (of_nat c) mem s" and "length mem = c" and "0 < c" and "c < 2 ^ 32" and "4 dvd c"
  shows "\<exists>rest. pushed s = popped s @ rest \<and> total rest \<le> c \<and>
    holds (memory s) (total (popped s)) rest"
proof -
  have inv: "ring_inv c s" using assms by (rule ring_inv_reach)
  define n where "n = length (popped s)"
  have p: "take n (pushed s) = popped s" "p_seen s \<le> n" "n \<le> length (pushed s)"
    and lim: "pos_of (pushed s) (length (pushed s)) \<le> pos_of (pushed s) (p_seen s) + c"
    and h: "holds (memory s) (pos_of (pushed s) n) (drop n (pushed s))"
    using inv by (simp_all add: ring_inv_def Let_def n_def)
  have "pos_of (pushed s) n = total (popped s)" by (simp add: pos_of_def p(1))
  moreover have "total (drop n (pushed s)) \<le> c"
    using lim pos_of_drop [OF p(3)] pos_of_mono [OF p(2), of "pushed s"] by simp
  moreover have "pushed s = popped s @ drop n (pushed s)" by (metis append_take_drop_id p(1))
  ultimately show ?thesis using h by metis
qed

text \<open>C6: the only failure a process can reach is the exception for a message that does not fit in
  the ring (the producer) or in the caller's memory (the consumer): none of the assertions
  fails and no access leaves the ring, the payload or the caller's memory.\<close>

theorem concurrent_errors:
  assumes "ring_reach (of_nat c) mem s" and "length mem = c" and "0 < c" and "c < 2 ^ 32" and "4 dvd c"
  shows "(\<forall>e. p_pc s = P_Error e \<longrightarrow> e = Runtime_Error ''message is not fit in ring memory buffer'') \<and>
    (\<forall>e. c_pc s = C_Error e \<longrightarrow> e = Runtime_Error ''message is not fit in outer memory buffer'')"
  using ring_inv_reach [OF assms] by (auto simp: ring_inv_def Let_def)

text \<open>C5: no data race.  The bytes a pending write of the producer touches are disjoint from all
  records whose release by the consumer the producer has not observed, and the bytes a
  pending read of the consumer touches lie in records whose release by the producer the
  consumer has observed; so the two are disjoint.\<close>

theorem race_free:
  assumes "ring_reach (of_nat c) mem s" and "length mem = c" and "0 < c" and "c < 2 ^ 32" and "4 dvd c"
  shows "p_writes (p_pc s) \<inter>
      offsets c (pos_of (pushed s) (p_seen s)) (pos_of (pushed s) (length (pushed s))) = {} \<and>
    c_reads (c_pc s) \<subseteq>
      offsets c (pos_of (pushed s) (length (popped s))) (pos_of (pushed s) (c_seen s)) \<and>
    p_writes (p_pc s) \<inter> c_reads (c_pc s) = {}"
proof -
  have inv: "ring_inv c s" using assms by (rule ring_inv_reach)
  let ?pos = "pos_of (pushed s)" and ?n = "length (popped s)" and ?N = "length (pushed s)"
  have o: "p_seen s \<le> ?n" "?n \<le> c_seen s" "c_seen s \<le> ?N"
    using inv by (simp_all add: ring_inv_def Let_def)
  note p = ring_inv_producer [OF inv refl refl] and cc = ring_inv_consumer [OF inv refl refl]
  have w: "p_writes (p_pc s) \<subseteq> offsets c (?pos ?N) (?pos (p_seen s) + c)"
    using p(6,1) by (rule p_writes_room)
  have d: "p_writes (p_pc s) \<inter> offsets c (?pos (p_seen s)) (?pos ?N) = {}"
    using w offsets_disjoint [of "?pos ?N" "?pos ?N" "?pos (p_seen s) + c" "?pos (p_seen s)" c] by blast
  have r: "c_reads (c_pc s) \<subseteq> offsets c (?pos ?n) (?pos (c_seen s))"
  proof (cases "c_reads (c_pc s) = {}")
    case False
    note rd = c_reads_record [OF cc(4,1) ring_inv_record(2) [OF inv _ refl refl] False]
    then have "?pos (Suc ?n) \<le> ?pos (c_seen s)" by (intro pos_of_mono) auto
    with rd ring_inv_record(3) [OF inv _ refl refl] show ?thesis
      using offsets_mono [of "?pos ?n" "?pos ?n" "?pos (Suc ?n)" "?pos (c_seen s)" c] by auto
  qed simp
  have "?pos (p_seen s) \<le> ?pos ?n" "?pos (c_seen s) \<le> ?pos ?N"
    using o by (auto intro: pos_of_mono)
  then have "c_reads (c_pc s) \<subseteq> offsets c (?pos (p_seen s)) (?pos ?N)"
    using r offsets_mono by blast
  with d r show ?thesis by blast
qed

text \<open>C7: no deadlock.  When both processes are in their waiting loops, one of them has a load that
  ends its loop: the consumer if a record has been released, the producer otherwise.\<close>

theorem no_deadlock:
  assumes "ring_reach (of_nat c) mem s" and "length mem = c" and "0 < c" and "c < 2 ^ 32" and "4 dvd c"
    and "p_pc s = P_Wait m i rs" and "c_pc s = C_Wait buf cap k"
  shows "\<exists>s'. (p_step (of_nat c) s s' \<and> p_pc s' = P_Header m i) \<or>
    (c_step (of_nat c) s s' \<and> c_pc s' = C_Header buf cap k)"
proof (cases "length (popped s) = length (pushed s)")
  case True
  show ?thesis
    using producer_sees [OF ring_inv_reach [OF assms(1-5)] assms(4,6) True] by blast
next
  case False
  have inv: "ring_inv c s" using assms(1-5) by (rule ring_inv_reach)
  then have "length (popped s) < length (pushed s)" using False by (simp add: ring_inv_def Let_def)
  then show ?thesis using consumer_sees [OF inv assms(7)] by blast
qed

section \<open>Concrete states\<close>

lemmas step_evals = push_call_def push_load_def push_header_def push_fit_def push_overflowed_def
  push_store_def pop_call_def pop_load_def Push_record_size_def Push_free_size_def Push_header_def
  Push_copy_fit_def Push_copy_overflowed_def ProcessMessage_split_def ProcessMessage_advance_def
  AlignUpByRecordHeader_def RecordHeader_size_def mem_read_def mem_write_def splice_def
  le_bytes_numeral Let_def

text \<open>One message has been pushed into a ring of 16 bytes; the producer is about to write the next
  record and the consumer to read the first.\<close>

definition both_busy :: ring_conf where
  "both_busy = \<lparr>memory = [1, 0, 0, 0, 7] @ replicate 11 0,
     p_hist = [0, u64_of_index \<lparr>idx_value = 8, idx_version = 0\<rparr>], c_hist = [0],
     p_seen = 0, c_seen = 1,
     p_pc = P_Header [8, 9] \<lparr>idx_value = 8, idx_version = 0\<rparr>,
     c_pc = C_Header [0, 0] 2 \<lparr>idx_value = 0, idx_version = 0\<rparr>, pushed = [[7]], popped = []\<rparr>"

definition one_pushed :: ring_conf where
  "one_pushed = \<lparr>memory = [1, 0, 0, 0, 7] @ replicate 11 0,
     p_hist = [0, u64_of_index \<lparr>idx_value = 8, idx_version = 0\<rparr>], c_hist = [0],
     p_seen = 0, c_seen = 0, p_pc = P_Idle, c_pc = C_Idle, pushed = [[7]], popped = []\<rparr>"

lemma index_of_0 [simp]: "index_of_u64 0 = \<lparr>idx_value = 0, idx_version = 0\<rparr>"
  by (simp add: index_of_u64_def)

lemma one_pushed_reach: "ring_reach 16 (replicate 16 0) one_pushed"
proof -
  let ?i = "\<lparr>idx_value = 0, idx_version = 0\<rparr> :: index" and ?i' = "\<lparr>idx_value = 4, idx_version = 0\<rparr> :: index"
  define s0 where "s0 = ring_start (replicate 16 0)"
  define s1 where "s1 = s0\<lparr>p_pc := P_Wait [7] ?i 5\<rparr>"
  define s2 where "s2 = s0\<lparr>p_pc := P_Header [7] ?i\<rparr>"
  define s3 where "s3 = s0\<lparr>memory := [1, 0, 0, 0] @ replicate 12 0,
    p_pc := P_Fit [7] ?i ?i' 12 1 0\<rparr>"
  define s4 where "s4 = s0\<lparr>memory := [1, 0, 0, 0, 7] @ replicate 11 0,
    p_pc := P_Overflowed [7] ?i' 12 1 0\<rparr>"
  define s5 where "s5 = s4\<lparr>p_pc := P_Store [7] ?i' 12 1 0\<rparr>"
  note defs = s1_def s2_def s3_def s4_def s5_def s0_def ring_start_def
  have "ring_reach 16 (replicate 16 0) s0" unfolding s0_def by (rule reach_start)
  moreover have "p_step 16 s0 s1"
    using p_call [of s0 "[7]" 16] by (simp add: defs step_evals)
  moreover have "p_step 16 s1 s2"
    using p_load [of s1 "[7]" ?i 5 0 16] by (simp add: defs step_evals)
  moreover have "p_step 16 s2 s3"
    using p_header [of s2 "[7]" ?i 16] by (simp add: defs step_evals)
  moreover have "p_step 16 s3 s4"
    using p_fit [of s3 "[7]" ?i ?i' 12 1 0 16] by (simp add: defs step_evals)
  moreover have "p_step 16 s4 s5"
    using p_overflowed [of s4 "[7]" ?i' 12 1 0 16] by (simp add: defs step_evals)
  moreover have "p_step 16 s5 one_pushed"
    using p_store [of s5 "[7]" ?i' 12 1 0 16] by (simp add: defs step_evals one_pushed_def)
  ultimately show ?thesis by (meson reach_p)
qed

lemma both_busy_reach: "ring_reach 16 (replicate 16 0) both_busy"
proof -
  let ?i = "\<lparr>idx_value = 0, idx_version = 0\<rparr> :: index" and ?i' = "\<lparr>idx_value = 8, idx_version = 0\<rparr> :: index"
  define s1 where "s1 = one_pushed\<lparr>p_pc := P_Wait [8, 9] ?i' 6\<rparr>"
  define s2 where "s2 = one_pushed\<lparr>p_pc := P_Header [8, 9] ?i'\<rparr>"
  define s3 where "s3 = s2\<lparr>c_pc := C_Wait [0, 0] 2 ?i\<rparr>"
  note defs = s1_def s2_def s3_def one_pushed_def
  note one_pushed_reach
  moreover have "p_step 16 one_pushed s1"
    using p_call [of one_pushed "[8, 9]" 16] by (simp add: defs step_evals)
  moreover have "p_step 16 s1 s2"
    using p_load [of s1 "[8, 9]" ?i' 6 0 16] by (simp add: defs step_evals)
  moreover have "c_step 16 s2 s3"
    using c_call [of s2 2 "[0, 0]" 16] by (simp add: defs step_evals)
  moreover have "c_step 16 s3 both_busy"
    using c_load [of s3 "[0, 0]" 2 ?i 1 16] by (simp add: defs step_evals both_busy_def)
  ultimately show ?thesis by (meson reach_p reach_c)
qed

theorem concurrent_fifo_witness:
  "\<exists>rest. pushed both_busy = popped both_busy @ rest \<and> total rest \<le> 16 \<and>
    holds (memory both_busy) (total (popped both_busy)) rest"
  using concurrent_fifo [of 16 "replicate 16 0" both_busy] both_busy_reach by simp

theorem concurrent_errors_witness:
  "\<exists>s. ring_reach 16 (replicate 16 0) s \<and>
    p_pc s = P_Error (Runtime_Error ''message is not fit in ring memory buffer'') \<and>
    (\<forall>e. c_pc s = C_Error e \<longrightarrow> e = Runtime_Error ''message is not fit in outer memory buffer'')"
proof -
  define s where "s = push_call 16 (replicate 13 0) (ring_start (replicate 16 0))"
  have "ring_reach 16 (replicate 16 0) s"
    unfolding s_def by (intro reach_p [OF reach_start] p_call) (simp_all add: ring_start_def)
  moreover have "p_pc s = P_Error (Runtime_Error ''message is not fit in ring memory buffer'')"
    by (simp add: s_def ring_start_def step_evals)
  ultimately show ?thesis
    using concurrent_errors [of 16 "replicate 16 0" s] by auto
qed

theorem race_free_witness:
  "p_writes (p_pc both_busy) = {8..<12} \<and> c_reads (c_pc both_busy) = {0..<4} \<and>
    p_writes (p_pc both_busy) \<inter> c_reads (c_pc both_busy) = {}"
  using race_free [of 16 "replicate 16 0" both_busy] both_busy_reach
  by (simp add: both_busy_def RecordHeader_size_def)

text \<open>Both wait on an empty ring: the producer's next load ends its loop.\<close>

theorem no_deadlock_witness:
  "\<exists>s m i rs buf cap k s'. ring_reach 16 (replicate 16 0) s \<and>
    p_pc s = P_Wait m i rs \<and> c_pc s = C_Wait buf cap k \<and>
    ((p_step 16 s s' \<and> p_pc s' = P_Header m i) \<or> (c_step 16 s s' \<and> c_pc s' = C_Header buf cap k))"
proof -
  let ?i = "\<lparr>idx_value = 0, idx_version = 0\<rparr> :: index"
  define s0 where "s0 = ring_start (replicate 16 0)"
  define s where "s = pop_call [0, 0] 2 (push_call 16 [7] s0)"
  have "ring_reach 16 (replicate 16 0) s"
    unfolding s_def s0_def
    by (intro reach_c [OF reach_p [OF reach_start p_call] c_call])
      (simp_all add: ring_start_def push_call_def)
  moreover have "p_pc s = P_Wait [7] ?i 5" "c_pc s = C_Wait [0, 0] 2 ?i"
    by (simp_all add: s_def s0_def ring_start_def step_evals)
  ultimately show ?thesis
    using no_deadlock [of 16 "replicate 16 0" s "[7]" ?i 5 "[0, 0]" 2 ?i] by fastforce
qed

end
