(* ===== verification/Ring_Progress.thy ===== *)
theory Ring_Progress
  imports Ring_Safety
begin

text \<open>
  How the two processes at the ring get on: what a step inside \<open>Push\<close> or \<open>Pop\<close> changes, that no step
  fails when the payloads fit, and that every call can be completed.
\<close>

section \<open>Inside the calls\<close>

text \<open>The payload \<open>Push\<close> was called with, and the steps it still has to make.\<close>

fun p_payload :: "producer_pc \<Rightarrow> byte list option" where
  "p_payload (P_Wait m i rs) = Some m"
| "p_payload (P_Header m i) = Some m"
| "p_payload (P_Fit m i i' ff fit ov) = Some m"
| "p_payload (P_Overflowed m i' ff fit ov) = Some m"
| "p_payload (P_Store m i' ff fit ov) = Some m"
| "p_payload _ = None"

fun p_left :: "producer_pc \<Rightarrow> nat" where
  "p_left (P_Wait m i rs) = 5"
| "p_left (P_Header m i) = 4"
| "p_left (P_Fit m i i' ff fit ov) = 3"
| "p_left (P_Overflowed m i' ff fit ov) = 2"
| "p_left (P_Store m i' ff fit ov) = 1"
| "p_left _ = 0"

text \<open>The caller's memory of \<open>Pop\<close> has \<open>n\<close> bytes, all of them announced; and the steps \<open>Pop\<close> has made.\<close>

fun c_room :: "nat \<Rightarrow> consumer_pc \<Rightarrow> bool" where
  "c_room n C_Idle \<longleftrightarrow> True"
| "c_room n (C_Wait buf cap i) \<longleftrightarrow> length buf = n \<and> unat cap = n"
| "c_room n (C_Header buf cap i) \<longleftrightarrow> length buf = n \<and> unat cap = n"
| "c_room n (C_Fit buf ps i i' ff fit ov) \<longleftrightarrow> length buf = n"
| "c_room n (C_Overflowed buf ps i' ff fit ov) \<longleftrightarrow> length buf = n"
| "c_room n (C_Store buf ps i' ff fit ov) \<longleftrightarrow> length buf = n"
| "c_room n (C_Error e) \<longleftrightarrow> False"

fun c_done :: "consumer_pc \<Rightarrow> nat" where
  "c_done (C_Wait buf cap i) = 1"
| "c_done (C_Header buf cap i) = 2"
| "c_done (C_Fit buf ps i i' ff fit ov) = 3"
| "c_done (C_Overflowed buf ps i' ff fit ov) = 4"
| "c_done (C_Store buf ps i' ff fit ov) = 5"
| "c_done _ = 0"

text \<open>Only the two size checks throw; everything else that can fail is an assertion or an access.\<close>

lemma never_throws:
  "Push_free_size i j c \<noteq> Inl (Runtime_Error t)" "Push_header i n r \<noteq> Inl (Runtime_Error t)"
  "ProcessMessage_split i n c \<noteq> Inl (Runtime_Error t)" "Push_copy_fit i m fit r \<noteq> Inl (Runtime_Error t)"
  "Push_copy_overflowed m fit ov r \<noteq> Inl (Runtime_Error t)"
  "ProcessMessage_advance i ff fit ov c \<noteq> Inl (Runtime_Error t)"
  "Pop_copy_fit i r fit b \<noteq> Inl (Runtime_Error t)" "Pop_copy_overflowed r fit ov b \<noteq> Inl (Runtime_Error t)"
  by (auto simp: Push_free_size_def Push_header_def ProcessMessage_split_def Push_copy_fit_def Push_copy_overflowed_def
      ProcessMessage_advance_def Pop_copy_fit_def Pop_copy_overflowed_def AlignUpByRecordHeader_def cxx_assert_def
      mem_read_def mem_write_def Let_def rbind_Inl)

section \<open>The producer\<close>

lemma p_step_no_error:
  assumes "p_step (of_nat c) s s'" and "p_pc s \<noteq> P_Idle" and "ring_inv c s"
  shows "p_pc s' \<noteq> P_Error e"
proof
  assume e: "p_pc s' = P_Error e"
  have "ring_inv c s'" using ring_inv_p_step assms(1,3) by blast
  from ring_inv_producer(6) [OF this refl refl] e
  have r: "e = Runtime_Error ''message is not fit in ring memory buffer''" by simp
  from assms(1,2) e r show False
    by (cases rule: p_step.cases)
      (auto simp: push_load_def push_header_def push_fit_def push_overflowed_def push_store_def Let_def never_throws
        split: sum.splits if_splits)
qed

lemma p_step_effect:
  assumes "p_step (of_nat c) s s'" and "p_payload (p_pc s) = Some m" and "ring_inv c s"
  shows "c_pc s' = c_pc s \<and> popped s' = popped s \<and>
    (pushed s' = pushed s \<and> p_payload (p_pc s') = Some m \<or> pushed s' = pushed s @ [m] \<and> p_pc s' = P_Idle)"
proof -
  have "p_pc s \<noteq> P_Idle" using assms(2) by auto
  note ne = p_step_no_error [OF assms(1) this assms(3)]
  from assms(1,2) ne show ?thesis
    by (cases rule: p_step.cases)
      (auto simp: push_load_def push_header_def push_fit_def push_overflowed_def push_store_def Let_def
        split: sum.splits if_splits)
qed

lemma p_step_next:
  assumes "p_payload (p_pc s) = Some m" and "\<And>i rs. p_pc s \<noteq> P_Wait m i rs" and "ring_inv c s"
  shows "\<exists>s'. p_step (of_nat c) s s' \<and> p_left (p_pc s') < p_left (p_pc s)"
proof -
  have n: "p_pc s \<noteq> P_Idle" using assms(1) by auto
  show ?thesis
  proof (cases "p_pc s")
    case (P_Header m' i)
    note st = p_header [OF this, of "of_nat c"]
    from p_step_no_error [OF st n assms(3)] P_Header have "p_left (p_pc (push_header (of_nat c) m' i s)) < p_left (p_pc s)"
      by (auto simp: push_header_def Let_def split: sum.splits)
    with st show ?thesis by blast
  next
    case (P_Fit m' i i' ff fit ov)
    note st = p_fit [OF this, of "of_nat c"]
    from p_step_no_error [OF st n assms(3)] P_Fit have "p_left (p_pc (push_fit m' i i' ff fit ov s)) < p_left (p_pc s)"
      by (auto simp: push_fit_def split: sum.splits)
    with st show ?thesis by blast
  next
    case (P_Overflowed m' i' ff fit ov)
    note st = p_overflowed [OF this, of "of_nat c"]
    from p_step_no_error [OF st n assms(3)] P_Overflowed have "p_left (p_pc (push_overflowed m' i' ff fit ov s)) < p_left (p_pc s)"
      by (auto simp: push_overflowed_def split: sum.splits)
    with st show ?thesis by blast
  next
    case (P_Store m' i' ff fit ov)
    note st = p_store [OF this, of "of_nat c"]
    from p_step_no_error [OF st n assms(3)] P_Store have "p_left (p_pc (push_store (of_nat c) m' i' ff fit ov s)) < p_left (p_pc s)"
      by (auto simp: push_store_def split: sum.splits)
    with st show ?thesis by blast
  qed (use assms in auto)
qed

section \<open>The consumer\<close>

lemma c_step_no_error:
  assumes "c_step (of_nat c) s s'" and "ring_inv c s" and "c_room n (c_pc s)"
    and "\<forall>m \<in> set (pushed s). length m \<le> n" and "n < 2 ^ 64"
  shows "c_pc s' \<noteq> C_Error e"
proof
  assume e: "c_pc s' = C_Error e"
  have "ring_inv c s'" using ring_inv_c_step assms(1,2) by blast
  from ring_inv_consumer(4) [OF this refl refl] e
  have r: "e = Runtime_Error ''message is not fit in outer memory buffer''" by simp
  note f = ring_inv_consumer [OF assms(2) refl refl]
  from assms(1) show False
  proof (cases rule: c_step.cases)
    case (c_header buf cap i)
    let ?m = "pushed s ! length (popped s)"
    have i: "i = idx c (pos_of (pushed s) (length (popped s)))" and ready: "length (popped s) < c_seen s"
      using f(4) c_header(2) by simp_all
    have "length (popped s) < length (pushed s)" using assms(2) ready by (simp add: ring_inv_def Let_def)
    then have m: "length ?m \<le> n" using assms(4) by simp
    note rec = ring_inv_record [OF assms(2) ready refl refl]
    have l: "length ?m < 2 ^ 32" using rec(2) f(1) by (simp add: ring_pos_def)
    have "unat cap = n" using assms(3) c_header(2) by simp
    then have "\<not> cap < of_nat (length ?m)" using m assms(5) by (simp add: word_less_nat_alt unat_of_nat_small)
    then show False
      using e c_header(1) i Pop_header_read [OF f(1,2) rec(1) l, of cap] r
      by (auto simp: pop_header_def never_throws split: sum.splits)
  qed (use e r assms(3) in \<open>auto simp: pop_call_def pop_load_def pop_fit_def pop_overflowed_def pop_store_def never_throws
        split: sum.splits if_splits\<close>)
qed

lemma mem_write_length: "mem_write k bs r = Inr r' \<Longrightarrow> length r' = length r"
  by (auto simp: mem_write_def splice_def split: if_splits)

lemma Pop_copy_length:
  "Pop_copy_fit i r fit b = Inr b' \<Longrightarrow> length b' = length b"
  "Pop_copy_overflowed r fit ov b = Inr b' \<Longrightarrow> length b' = length b"
  by (auto simp: Pop_copy_fit_def Pop_copy_overflowed_def rbind_Inr dest: mem_write_length)

lemma c_step_effect:
  assumes "c_step (of_nat c) s s'" and "c_pc s \<noteq> C_Idle" and "ring_inv c s" and "c_room n (c_pc s)"
    and "\<forall>m \<in> set (pushed s). length m \<le> n" and "n < 2 ^ 64"
  shows "p_pc s' = p_pc s \<and> pushed s' = pushed s \<and> c_room n (c_pc s') \<and>
    (c_pc s' \<noteq> C_Idle \<and> popped s' = popped s \<or>
     (\<exists>buf ps i' ff fit ov. c_pc s = C_Store buf ps i' ff fit ov \<and> s' = pop_store (of_nat c) buf ps i' ff fit ov s \<and>
        c_pc s' = C_Idle))"
  using assms(1,2,4) c_step_no_error [OF assms(1,3,4,5,6)]
  by (cases rule: c_step.cases)
    (auto simp: pop_call_def pop_load_def pop_header_def pop_fit_def pop_overflowed_def pop_store_def Pop_copy_length
      split: sum.splits if_splits)

text \<open>What the return of \<open>Pop\<close> gives: the next payload, at the start of the caller's memory.\<close>

lemma pop_store_gives:
  assumes "c_pc s = C_Store buf ps i' ff fit ov" and "ring_inv c s"
  defines "m \<equiv> pushed s ! length (popped s)"
  shows "length (popped s) < length (pushed s)" "take (length m) buf = m"
    "popped (pop_store (of_nat c) buf ps i' ff fit ov s) = popped s @ [m]"
    "c_pc (pop_store (of_nat c) buf ps i' ff fit ov s) = C_Idle"
    "p_pc (pop_store (of_nat c) buf ps i' ff fit ov s) = p_pc s"
    "pushed (pop_store (of_nat c) buf ps i' ff fit ov s) = pushed s"
proof -
  note f = ring_inv_consumer [OF assms(2) refl refl]
  have ready: "length (popped s) < c_seen s" and ps: "ps = of_nat (length m)"
    and sv: "split_vals c (pos_of (pushed s) (length (popped s))) (length m) i' ff fit ov" and tk: "take (length m) buf = m"
    using f(4) assms(1) by (simp_all add: m_def)
  note r = ring_inv_record [OF assms(2) ready refl refl, folded m_def]
  have l: "length m < 2 ^ 32" using r(2) f(1) by (simp add: ring_pos_def)
  show "length (popped s) < length (pushed s)" using assms(2) ready by (simp add: ring_inv_def Let_def)
  show "take (length m) buf = m" by (fact tk)
  have "take (unat ps) buf = m" using l by (simp add: ps tk)
  then show "popped (pop_store (of_nat c) buf ps i' ff fit ov s) = popped s @ [m]"
    "c_pc (pop_store (of_nat c) buf ps i' ff fit ov s) = C_Idle"
    "p_pc (pop_store (of_nat c) buf ps i' ff fit ov s) = p_pc s"
    "pushed (pop_store (of_nat c) buf ps i' ff fit ov s) = pushed s"
    by (simp_all add: pop_store_def split_vals_advance [OF f(1) r(2) sv])
qed

lemma c_step_next:
  assumes "c_pc s \<noteq> C_Idle" and "\<And>buf cap i. c_pc s \<noteq> C_Wait buf cap i"
    and "\<And>buf ps i' ff fit ov. c_pc s \<noteq> C_Store buf ps i' ff fit ov"
    and "ring_inv c s" and "c_room n (c_pc s)" and "\<forall>m \<in> set (pushed s). length m \<le> n" and "n < 2 ^ 64"
  shows "\<exists>s'. c_step (of_nat c) s s' \<and> c_pc s' \<noteq> C_Idle \<and> c_done (c_pc s) < c_done (c_pc s')"
proof (cases "c_pc s")
  case (C_Header buf cap i)
  note st = c_header [OF this, of "of_nat c"]
  from c_step_no_error [OF st assms(4-7)] C_Header have "c_pc (pop_header (of_nat c) buf cap i s) \<noteq> C_Idle \<and> c_done (c_pc s) < c_done (c_pc (pop_header (of_nat c) buf cap i s))"
    by (auto simp: pop_header_def split: sum.splits) blast+
  with st show ?thesis by blast
next
  case (C_Fit buf ps i i' ff fit ov)
  note st = c_fit [OF this, of "of_nat c"]
  from c_step_no_error [OF st assms(4-7)] C_Fit have "c_pc (pop_fit buf ps i i' ff fit ov s) \<noteq> C_Idle \<and> c_done (c_pc s) < c_done (c_pc (pop_fit buf ps i i' ff fit ov s))"
    by (auto simp: pop_fit_def split: sum.splits) blast+
  with st show ?thesis by blast
next
  case (C_Overflowed buf ps i' ff fit ov)
  note st = c_overflowed [OF this, of "of_nat c"]
  from c_step_no_error [OF st assms(4-7)] C_Overflowed have "c_pc (pop_overflowed buf ps i' ff fit ov s) \<noteq> C_Idle \<and> c_done (c_pc s) < c_done (c_pc (pop_overflowed buf ps i' ff fit ov s))"
    by (auto simp: pop_overflowed_def split: sum.splits) blast+
  with st show ?thesis by blast
qed (use assms in auto)

end
