(* ===== verification/Ring_Tests.thy ===== *)
theory Ring_Tests
  imports Ring_Progress
begin

text \<open>
  The tests of the ring buffer (\<open>src/src/connection/src/connectors/shared_memory/tests.cpp\<close>): a client thread that pushes
  a million messages and the main thread that pops them and compares, interleaved at every access of the ring.
\<close>

section \<open>The two threads\<close>

text \<open>
  The ring with the program counters inside \<open>Push\<close> and \<open>Pop\<close>, the loop counters of the two threads, and the outcome of every
  \<open>EXPECT_EQ\<close>.
\<close>

record ring_test =
  rt_ring :: ring_conf
  rt_i :: nat
  rt_k :: nat
  rt_expects :: "bool list"

definition ITERATIONS_COUNT :: nat where
  "ITERATIONS_COUNT = 1000000"

definition BUFFER_SIZE :: nat where
  "BUFFER_SIZE = 128"

text \<open>
  \<open>MSG i\<close> is the message of the turn \<open>i\<close>.  The array \<open>msg_buffer\<close> has 100 bytes, fresh in each turn, although
  \<open>Pop\<close> is told that there are 1000.
\<close>

inductive rt_step :: "u32 \<Rightarrow> (nat \<Rightarrow> byte list) \<Rightarrow> ring_test \<Rightarrow> ring_test \<Rightarrow> bool" for c :: u32 and MSG :: "nat \<Rightarrow> byte list" where
  rt_push: "p_pc (rt_ring s) = P_Idle \<Longrightarrow> rt_i s \<noteq> ITERATIONS_COUNT \<Longrightarrow>
    rt_step c MSG s (s\<lparr>rt_ring := push_call c (MSG (rt_i s)) (rt_ring s), rt_i := Suc (rt_i s)\<rparr>)"
| rt_pushing: "p_pc (rt_ring s) \<noteq> P_Idle \<Longrightarrow> p_step c (rt_ring s) r \<Longrightarrow> rt_step c MSG s (s\<lparr>rt_ring := r\<rparr>)"
| rt_pop: "c_pc (rt_ring s) = C_Idle \<Longrightarrow> rt_k s \<noteq> ITERATIONS_COUNT \<Longrightarrow> length msg_buffer = 100 \<Longrightarrow>
    rt_step c MSG s (s\<lparr>rt_ring := pop_call msg_buffer 1000 (rt_ring s)\<rparr>)"
| rt_popping: "c_pc (rt_ring s) \<noteq> C_Idle \<Longrightarrow> c_step c (rt_ring s) r \<Longrightarrow> c_pc r \<noteq> C_Idle \<Longrightarrow>
    rt_step c MSG s (s\<lparr>rt_ring := r\<rparr>)"
| rt_popped: "c_pc (rt_ring s) \<noteq> C_Idle \<Longrightarrow> c_step c (rt_ring s) r \<Longrightarrow> c_pc r = C_Idle \<Longrightarrow>
    rt_step c MSG s (s\<lparr>rt_ring := r, rt_k := Suc (rt_k s),
      rt_expects := rt_expects s @ [last (popped r) = MSG (rt_k s)]\<rparr>)"

definition rt_start :: "byte list \<Rightarrow> ring_test" where
  "rt_start mem = \<lparr>rt_ring = ring_start mem, rt_i = 0, rt_k = 0, rt_expects = []\<rparr>"

definition rt_over :: "ring_test \<Rightarrow> bool" where
  "rt_over s \<longleftrightarrow> rt_i s = ITERATIONS_COUNT \<and> p_pc (rt_ring s) = P_Idle \<and>
     rt_k s = ITERATIONS_COUNT \<and> c_pc (rt_ring s) = C_Idle"

section \<open>A capacity that is too large\<close>

text \<open>
  The same configuration, had \<open>Pop\<close> been told the true capacity \<open>n\<close>.  As long as every payload fits in \<open>n\<close> bytes, both
  take the same steps.
\<close>

fun recap :: "u64 \<Rightarrow> consumer_pc \<Rightarrow> consumer_pc" where
  "recap n (C_Wait buf cap i) = C_Wait buf n i"
| "recap n (C_Header buf cap i) = C_Header buf n i"
| "recap n pc = pc"

definition as_if :: "u64 \<Rightarrow> ring_conf \<Rightarrow> ring_conf" where
  "as_if n s = s\<lparr>c_pc := recap n (c_pc s)\<rparr>"

lemma as_if_sel [simp]:
  "memory (as_if n s) = memory s" "p_hist (as_if n s) = p_hist s" "c_hist (as_if n s) = c_hist s"
  "p_seen (as_if n s) = p_seen s" "c_seen (as_if n s) = c_seen s" "p_pc (as_if n s) = p_pc s"
  "c_pc (as_if n s) = recap n (c_pc s)" "pushed (as_if n s) = pushed s" "popped (as_if n s) = popped s"
  by (simp_all add: as_if_def)

lemma recap_eqs [simp]:
  "recap n pc = C_Idle \<longleftrightarrow> pc = C_Idle"
  "recap n pc = C_Wait buf k i \<longleftrightarrow> k = n \<and> (\<exists>cap. pc = C_Wait buf cap i)"
  "recap n pc = C_Header buf k i \<longleftrightarrow> k = n \<and> (\<exists>cap. pc = C_Header buf cap i)"
  "recap n pc = C_Fit buf ps i i' ff fit ov \<longleftrightarrow> pc = C_Fit buf ps i i' ff fit ov"
  "recap n pc = C_Overflowed buf ps i' ff fit ov \<longleftrightarrow> pc = C_Overflowed buf ps i' ff fit ov"
  "recap n pc = C_Store buf ps i' ff fit ov \<longleftrightarrow> pc = C_Store buf ps i' ff fit ov"
  "recap n pc = C_Error e \<longleftrightarrow> pc = C_Error e"
  by (cases pc; auto)+

lemma c_done_recap [simp]: "c_done (recap n pc) = c_done pc"
  by (cases pc) simp_all

text \<open>The producer does not look at the consumer's program counter.\<close>

lemma push_c_pc [simp]:
  "push_call c m (s\<lparr>c_pc := x\<rparr>) = (push_call c m s)\<lparr>c_pc := x\<rparr>"
  "push_load c j m i rs (s\<lparr>c_pc := x\<rparr>) = (push_load c j m i rs s)\<lparr>c_pc := x\<rparr>"
  "push_header c m i (s\<lparr>c_pc := x\<rparr>) = (push_header c m i s)\<lparr>c_pc := x\<rparr>"
  "push_fit m i i' ff fit ov (s\<lparr>c_pc := x\<rparr>) = (push_fit m i i' ff fit ov s)\<lparr>c_pc := x\<rparr>"
  "push_overflowed m i' ff fit ov (s\<lparr>c_pc := x\<rparr>) = (push_overflowed m i' ff fit ov s)\<lparr>c_pc := x\<rparr>"
  "push_store c m i' ff fit ov (s\<lparr>c_pc := x\<rparr>) = (push_store c m i' ff fit ov s)\<lparr>c_pc := x\<rparr>"
  by (simp_all add: push_call_def push_load_def push_header_def push_fit_def push_overflowed_def push_store_def Let_def
      split: sum.splits prod.splits)

lemma p_step_c_pc: "p_step c s r \<Longrightarrow> p_step c (s\<lparr>c_pc := x\<rparr>) (r\<lparr>c_pc := x\<rparr>)"
  by (induction rule: p_step.induct)
    (simp_all add: p_step.intros flip: push_c_pc)

lemma p_step_as_if: "p_step c s r \<Longrightarrow> c_pc r = c_pc s \<Longrightarrow> p_step c (as_if n s) (as_if n r)"
  unfolding as_if_def by (simp add: p_step_c_pc)

lemma p_step_really:
  assumes "p_step c (as_if n s) r"
  shows "p_step c s (r\<lparr>c_pc := c_pc s\<rparr>)"
  using p_step_c_pc [OF assms, of "c_pc s"] by (simp add: as_if_def)

lemma push_load_really: "push_load c j m i rs (as_if n s)\<lparr>c_pc := c_pc s\<rparr> = push_load c j m i rs s"
  by (simp add: as_if_def) (simp add: push_load_def)

text \<open>Neither does it move it.\<close>

lemma p_step_keeps_c_pc: "p_step c s r \<Longrightarrow> c_pc r = c_pc s"
  by (induction rule: p_step.induct)
    (simp_all add: push_call_def push_load_def push_header_def push_fit_def push_overflowed_def push_store_def Let_def
      split: sum.splits prod.splits)

lemma pop_as_if:
  "as_if n (pop_call buf cap s) = pop_call buf n (as_if n s)"
  "as_if n (pop_load j buf cap i s) = pop_load j buf n i (as_if n s)"
  "as_if n (pop_fit buf ps i i' ff fit ov s) = pop_fit buf ps i i' ff fit ov (as_if n s)"
  "as_if n (pop_overflowed buf ps i' ff fit ov s) = pop_overflowed buf ps i' ff fit ov (as_if n s)"
  "c_pc s = C_Store buf ps i' ff fit ov \<Longrightarrow>
    as_if n (pop_store c buf ps i' ff fit ov s) = pop_store c buf ps i' ff fit ov (as_if n s)"
  by (simp_all add: as_if_def pop_call_def pop_load_def pop_fit_def pop_overflowed_def pop_store_def split: sum.splits)

text \<open>Where the capacity is looked at, the payload of the next record is within both.\<close>

lemma pop_header_as_if:
  assumes "ring_inv c (as_if n s)" and "c_pc s = C_Header buf cap i" and "n \<le> cap"
    and "length (pushed s ! length (popped s)) \<le> unat n"
  shows "as_if n (pop_header (of_nat c) buf cap i s) = pop_header (of_nat c) buf n i (as_if n s)"
proof -
  note f = ring_inv_consumer [OF assms(1) refl refl]
  let ?m = "pushed s ! length (popped s)"
  have i: "i = idx c (pos_of (pushed s) (length (popped s)))" and ready: "length (popped s) < c_seen s"
    using f(4) assms(2) by simp_all
  note r = ring_inv_record [OF assms(1), simplified, OF ready refl refl]
  have m: "length ?m < 2 ^ 32" using r(2) f(1) by (simp add: ring_pos_def)
  then have "unat (of_nat (length ?m) :: u64) = length ?m" by (intro unat_of_nat_small) simp
  then have "\<not> n < of_nat (length ?m)" "\<not> cap < of_nat (length ?m)"
    using assms(3,4) by (simp_all add: word_less_nat_alt word_le_nat_alt)
  moreover have "record_at (memory (as_if n s)) (pos_of (pushed s) (length (popped s))) ?m" using r(1) by simp
  ultimately have "Pop_header i k (memory s) = Inr (of_nat (length ?m))" if "k = n \<or> k = cap" for k
    using that Pop_header_read [OF f(1,2) _ m, of k] i by auto
  then show ?thesis by (simp add: pop_header_def as_if_def split: sum.splits prod.splits)
qed

text \<open>The capacity \<open>Pop\<close> was told, while it matters.\<close>

fun told :: "u64 \<Rightarrow> consumer_pc \<Rightarrow> bool" where
  "told k (C_Wait buf cap i) \<longleftrightarrow> cap = k"
| "told k (C_Header buf cap i) \<longleftrightarrow> cap = k"
| "told k pc \<longleftrightarrow> True"

lemma told_recap: "told k pc \<Longrightarrow> recap k pc = pc"
  by (cases pc) simp_all

lemma c_step_told: "c_step c s r \<Longrightarrow> c_pc s \<noteq> C_Idle \<Longrightarrow> told k (c_pc s) \<Longrightarrow> told k (c_pc r)"
  by (induction rule: c_step.induct)
    (auto simp: pop_call_def pop_load_def pop_header_def pop_fit_def pop_overflowed_def pop_store_def split: sum.splits)

text \<open>A payload that is going to be read fits.\<close>

definition next_fits :: "u64 \<Rightarrow> ring_conf \<Rightarrow> bool" where
  "next_fits n s \<longleftrightarrow> (\<forall>m \<in> set (pushed s). length m \<le> unat n)"

lemma header_next:
  assumes "ring_inv c (as_if n s)" and "c_pc s = C_Header buf cap i" and "next_fits n s"
  shows "length (pushed s ! length (popped s)) \<le> unat n"
proof -
  have "length (popped s) < c_seen s" "c_seen s \<le> length (pushed s)"
    using ring_inv_consumer(4) [OF assms(1) refl refl] assms(1,2) by (simp_all add: ring_inv_def Let_def)
  then show ?thesis using assms(3) by (simp add: next_fits_def)
qed

lemma c_step_as_if:
  assumes "c_step (of_nat c) s r" and "c_pc s \<noteq> C_Idle" and inv: "ring_inv c (as_if n s)"
    and "told k (c_pc s)" and "n \<le> k" and fits: "next_fits n s"
  shows "c_step (of_nat c) (as_if n s) (as_if n r)"
  using assms(1)
proof cases
  case (c_load buf cap i j)
  then show ?thesis using c_step.c_load [of "as_if n s" buf n i j "of_nat c"] by (simp add: pop_as_if)
next
  case (c_header buf cap i)
  then have "n \<le> cap" using assms(4,5) by simp
  then show ?thesis
    using c_step.c_header [of "as_if n s" buf n i "of_nat c"] pop_header_as_if [OF inv] header_next [OF inv _ fits] c_header
    by simp
next
  case (c_fit buf ps i i' ff fit ov)
  then show ?thesis using c_step.c_fit [of "as_if n s" buf ps i i' ff fit ov "of_nat c"] by (simp add: pop_as_if)
next
  case (c_overflowed buf ps i' ff fit ov)
  then show ?thesis using c_step.c_overflowed [of "as_if n s" buf ps i' ff fit ov "of_nat c"] by (simp add: pop_as_if)
next
  case (c_store buf ps i' ff fit ov)
  then show ?thesis using c_step.c_store [of "as_if n s" buf ps i' ff fit ov "of_nat c"] by (simp add: pop_as_if)
qed (use assms(2) in simp)

lemma c_step_really:
  assumes "c_step (of_nat c) (as_if n s) q" and "c_pc s \<noteq> C_Idle" and inv: "ring_inv c (as_if n s)"
    and "told k (c_pc s)" and "n \<le> k" and fits: "next_fits n s"
  shows "\<exists>r. c_step (of_nat c) s r \<and> as_if n r = q"
  using assms(1)
proof cases
  case (c_load buf cap i j)
  then obtain cap' where "c_pc s = C_Wait buf cap' i" by auto
  then have "c_step (of_nat c) s (pop_load j buf cap' i s)" using c_load by (intro c_step.c_load) simp_all
  then show ?thesis using c_load by (auto simp: pop_as_if)
next
  case (c_header buf cap i)
  then obtain cap' where pc: "c_pc s = C_Header buf cap' i" "cap = n" by auto
  then have "n \<le> cap'" using assms(4,5) by simp
  with pop_header_as_if [OF inv pc(1) _ header_next [OF inv pc(1) fits]] c_step.c_header [OF pc(1)] c_header(1) pc(2)
  show ?thesis by metis
next
  case (c_fit buf ps i i' ff fit ov)
  then have "c_step (of_nat c) s (pop_fit buf ps i i' ff fit ov s)" by (intro c_step.c_fit) simp
  then show ?thesis using c_fit by (auto simp: pop_as_if)
next
  case (c_overflowed buf ps i' ff fit ov)
  then have "c_step (of_nat c) s (pop_overflowed buf ps i' ff fit ov s)" by (intro c_step.c_overflowed) simp
  then show ?thesis using c_overflowed by (auto simp: pop_as_if)
next
  case (c_store buf ps i' ff fit ov)
  then have "c_step (of_nat c) s (pop_store (of_nat c) buf ps i' ff fit ov s)" by (intro c_step.c_store) simp
  then show ?thesis using c_store by (auto simp: pop_as_if)
qed (use assms(2) in simp)

section \<open>Invariant\<close>

definition rt_in_push :: "ring_test \<Rightarrow> nat" where
  "rt_in_push s = (if p_pc (rt_ring s) = P_Idle then 0 else 1)"

definition rt_inv :: "(nat \<Rightarrow> byte list) \<Rightarrow> nat \<Rightarrow> ring_test \<Rightarrow> bool" where
  "rt_inv MSG c s \<longleftrightarrow>
     (let r = rt_ring s; N = length (pushed r); n = length (popped r) in
      ring_inv c (as_if 100 r) \<and> told 1000 (c_pc r) \<and> c_room 100 (recap 100 (c_pc r)) \<and>
      pushed r = map MSG [0..<N] \<and> rt_i s = N + rt_in_push s \<and> rt_i s \<le> ITERATIONS_COUNT \<and>
      (p_pc r \<noteq> P_Idle \<longrightarrow> p_payload (p_pc r) = Some (MSG N)) \<and>
      rt_k s = n \<and> n \<le> ITERATIONS_COUNT \<and> (c_pc r \<noteq> C_Idle \<longrightarrow> n < ITERATIONS_COUNT) \<and>
      rt_expects s = replicate n True)"

definition rt_fits :: "(nat \<Rightarrow> byte list) \<Rightarrow> nat \<Rightarrow> bool" where
  "rt_fits MSG c \<longleftrightarrow> c < 2 ^ 32 \<and> (\<forall>i. length (MSG i) \<le> 100 \<and> RecordHeader_size + length (MSG i) \<le> c)"

lemma rt_inv_start:
  assumes "length mem = c" and "0 < c" and "c < 2 ^ 32" and "4 dvd c"
  shows "rt_inv MSG c (rt_start mem)"
proof -
  have "as_if 100 (ring_start mem) = ring_start mem" by (simp add: as_if_def ring_start_def)
  then show ?thesis
    using ring_inv_start [OF assms] by (simp add: rt_inv_def rt_start_def rt_in_push_def Let_def) (simp add: ring_start_def)
qed

lemma rt_small:
  assumes "rt_inv MSG c s" and "rt_fits MSG c"
  shows "\<forall>m \<in> set (pushed (rt_ring s)). length m \<le> 100" "next_fits 100 (rt_ring s)"
proof -
  have "pushed (rt_ring s) = map MSG [0..<length (pushed (rt_ring s))]" using assms(1) by (simp add: rt_inv_def Let_def)
  then have "set (pushed (rt_ring s)) \<subseteq> range MSG" by (metis image_mono list.set_map subset_UNIV)
  then show "\<forall>m \<in> set (pushed (rt_ring s)). length m \<le> 100" using assms(2) by (auto simp: rt_fits_def)
  then show "next_fits 100 (rt_ring s)" by (simp add: next_fits_def)
qed

lemma rt_step_inv:
  assumes "rt_step (of_nat c) MSG s s'" and inv: "rt_inv MSG c s" and fits: "rt_fits MSG c"
  shows "rt_inv MSG c s'"
proof -
  let ?r = "rt_ring s"
  have r: "ring_inv c (as_if 100 ?r)" "told 1000 (c_pc ?r)" "c_room 100 (c_pc (as_if 100 ?r))"
    using inv by (simp_all add: rt_inv_def Let_def)
  have le: "length (popped ?r) \<le> length (pushed ?r)" using r(1) by (simp add: ring_inv_def Let_def)
  have small: "\<forall>m \<in> set (pushed (as_if 100 ?r)). length m \<le> 100" "(100 :: nat) < 2 ^ 64"
    using rt_small(1) [OF inv fits] by simp_all
  note pop = c_step_as_if [OF _ _ r(1,2) _ rt_small(2) [OF inv fits]]
  from assms(1) show ?thesis
  proof cases
    case rt_push
    have w: "RecordHeader_size + length (MSG (rt_i s)) \<le> c" "c < 2 ^ 32" using fits by (simp_all add: rt_fits_def)
    have i: "rt_i s = length (pushed ?r)" "rt_i s < ITERATIONS_COUNT"
      using inv rt_push by (simp_all add: rt_inv_def Let_def rt_in_push_def)
    obtain i' rs where pc: "p_pc (push_call (of_nat c) (MSG (rt_i s)) ?r) = P_Wait (MSG (rt_i s)) i' rs"
      using Push_record_size_ok [OF w] by (simp add: push_call_def)
    have "ring_inv c (push_call (of_nat c) (MSG (rt_i s)) (as_if 100 ?r))" using w by (intro push_call_inv r(1)) simp
    then have "ring_inv c (as_if 100 (push_call (of_nat c) (MSG (rt_i s)) ?r))"
      by (simp add: as_if_def) (simp add: push_call_def)
    moreover have "pushed (push_call (of_nat c) (MSG (rt_i s)) ?r) = pushed ?r" "popped (push_call (of_nat c) (MSG (rt_i s)) ?r) = popped ?r"
      "c_pc (push_call (of_nat c) (MSG (rt_i s)) ?r) = c_pc ?r" by (simp_all add: push_call_def)
    ultimately show ?thesis
      using inv i pc unfolding rt_push(1) by (simp add: rt_inv_def Let_def rt_in_push_def)
  next
    case (rt_pushing r)
    have pay: "p_payload (p_pc (as_if 100 ?r)) = Some (MSG (length (pushed ?r)))"
      and N: "length (pushed ?r) < ITERATIONS_COUNT"
      using inv rt_pushing(2) by (simp_all add: rt_inv_def Let_def rt_in_push_def)
    note st = p_step_as_if [OF rt_pushing(3) p_step_keeps_c_pc [OF rt_pushing(3)], of 100]
    note e = p_step_effect [OF st pay r(1)]
    show ?thesis
      using inv e N ring_inv_p_step [OF st r(1)] p_step_keeps_c_pc [OF rt_pushing(3)] rt_pushing(2)
      unfolding rt_pushing(1) by (auto simp: rt_inv_def Let_def rt_in_push_def)
  next
    case (rt_pop msg_buffer)
    have "ring_inv c (pop_call msg_buffer 100 (as_if 100 ?r))" using rt_pop(4) by (intro pop_call_inv r(1)) simp
    then have q: "ring_inv c (as_if 100 (pop_call msg_buffer 1000 ?r))" by (simp only: pop_as_if)
    have "length (popped ?r) < ITERATIONS_COUNT" using inv rt_pop(3) by (simp add: rt_inv_def Let_def)
    then show ?thesis
      using inv q rt_pop(4) unfolding rt_pop(1) by (simp add: rt_inv_def Let_def rt_in_push_def) (simp add: pop_call_def)
  next
    case (rt_popping r)
    note st = pop [OF rt_popping(3,2)]
    have i: "c_pc (as_if 100 ?r) \<noteq> C_Idle" using rt_popping(2) by simp
    note e = c_step_effect [OF st i r(1,3) small]
    show ?thesis
      using inv e ring_inv_c_step [OF st r(1)] c_step_told [OF rt_popping(3,2) r(2)] rt_popping(2,4)
      unfolding rt_popping(1) by (simp add: rt_inv_def Let_def rt_in_push_def)
  next
    case (rt_popped r)
    note st = pop [OF rt_popped(3,2)]
    have i: "c_pc (as_if 100 ?r) \<noteq> C_Idle" using rt_popped(2) by simp
    note e = c_step_effect [OF st i r(1,3) small]
    then obtain buf ps i' ff fit ov where pc: "c_pc (as_if 100 ?r) = C_Store buf ps i' ff fit ov"
      and q: "as_if 100 r = pop_store (of_nat c) buf ps i' ff fit ov (as_if 100 ?r)"
      using rt_popped(4) by auto
    note g = pop_store_gives [OF pc r(1), folded q, simplified]
    have "pushed ?r = map MSG [0..<length (pushed ?r)]" using inv by (simp add: rt_inv_def Let_def)
    then have m: "pushed ?r ! length (popped ?r) = MSG (length (popped ?r))" using g(1) by (metis add_0 nth_map_upt diff_zero)
    show ?thesis
      using inv g m ring_inv_c_step [OF st r(1)] rt_popped(2) unfolding rt_popped(1)
      by (auto simp: rt_inv_def Let_def rt_in_push_def replicate_append_same)
  qed
qed

section \<open>Getting to the end\<close>

definition rt_left :: "ring_test \<Rightarrow> nat" where
  "rt_left s = 6 * (ITERATIONS_COUNT - rt_i s) + p_left (p_pc (rt_ring s)) +
     (6 * (ITERATIONS_COUNT - rt_k s) - c_done (c_pc (rt_ring s)))"

inductive rt_run :: "u32 \<Rightarrow> (nat \<Rightarrow> byte list) \<Rightarrow> ring_test \<Rightarrow> ring_test \<Rightarrow> bool" for c MSG s where
  rt_none: "rt_run c MSG s s"
| rt_more: "rt_run c MSG s s' \<Longrightarrow> rt_step c MSG s' s'' \<Longrightarrow> rt_run c MSG s s''"

lemma rt_run_first: "rt_step c MSG s s' \<Longrightarrow> rt_run c MSG s' s'' \<Longrightarrow> rt_run c MSG s s''"
  by (rotate_tac 1, induction rule: rt_run.induct) (auto intro: rt_none rt_more)

lemma rt_inv_run:
  assumes "rt_run (of_nat c) MSG s s'" and "rt_inv MSG c s" and "rt_fits MSG c"
  shows "rt_inv MSG c s'"
  using assms(1) by induction (auto intro: assms(2) rt_step_inv [OF _ _ assms(3)])

lemma rt_producer_turn:
  assumes inv: "rt_inv MSG c s" and fits: "rt_fits MSG c"
    and i: "p_pc (rt_ring s) = P_Idle \<longrightarrow> rt_i s < ITERATIONS_COUNT"
    and nw: "\<And>m i rs. p_pc (rt_ring s) \<noteq> P_Wait m i rs"
  shows "\<exists>s'. rt_step (of_nat c) MSG s s' \<and> rt_left s' < rt_left s"
proof (cases "p_pc (rt_ring s) = P_Idle")
  case True
  have w: "RecordHeader_size + length (MSG (rt_i s)) \<le> c" "c < 2 ^ 32" using fits by (simp_all add: rt_fits_def)
  have st: "rt_step (of_nat c) MSG s (s\<lparr>rt_ring := push_call (of_nat c) (MSG (rt_i s)) (rt_ring s), rt_i := Suc (rt_i s)\<rparr>)"
    using i True by (intro rt_push) simp_all
  show ?thesis
    by (intro exI conjI, rule st) (use i True Push_record_size_ok [OF w] in \<open>simp add: rt_left_def push_call_def\<close>)
next
  case False
  let ?r = "rt_ring s"
  have r: "ring_inv c (as_if 100 ?r)" "p_payload (p_pc (as_if 100 ?r)) = Some (MSG (length (pushed ?r)))"
    using inv False by (simp_all add: rt_inv_def Let_def)
  obtain q where q: "p_step (of_nat c) (as_if 100 ?r) q" "p_left (p_pc q) < p_left (p_pc ?r)"
    using p_step_next [OF r(2) _ r(1)] nw by auto
  from rt_pushing [OF False p_step_really [OF q(1)]] show ?thesis
    by (intro exI conjI) (auto simp: rt_left_def q(2))
qed

lemma rt_pops_on:
  assumes inv: "rt_inv MSG c s" and fits: "rt_fits MSG c" and i: "c_pc (rt_ring s) \<noteq> C_Idle"
    and q: "c_step (of_nat c) (as_if 100 (rt_ring s)) q" "c_pc q \<noteq> C_Idle" "c_done (c_pc (rt_ring s)) < c_done (c_pc q)"
  shows "\<exists>s'. rt_step (of_nat c) MSG s s' \<and> rt_left s' < rt_left s"
proof -
  let ?r = "rt_ring s"
  have r: "ring_inv c (as_if 100 ?r)" "told 1000 (c_pc ?r)" "c_room 100 (c_pc (as_if 100 ?r))" "rt_k s < ITERATIONS_COUNT"
    using inv i by (simp_all add: rt_inv_def Let_def)
  have small: "\<forall>m \<in> set (pushed (as_if 100 ?r)). length m \<le> 100" "(100 :: nat) < 2 ^ 64"
    using rt_small(1) [OF inv fits] by simp_all
  obtain r' where r': "c_step (of_nat c) ?r r'" "as_if 100 r' = q"
    using c_step_really [OF q(1) i r(1,2) _ rt_small(2) [OF inv fits]] by auto
  have pc: "c_pc r' \<noteq> C_Idle" "c_done (c_pc ?r) < c_done (c_pc r')" using q(2,3) by (auto simp flip: r'(2))
  have "c_pc (as_if 100 ?r) \<noteq> C_Idle" using i by simp
  from c_step_effect [OF q(1) this r(1,3) small] have "p_pc r' = p_pc ?r" by (simp flip: r'(2))
  moreover have "c_done (c_pc r') \<le> 5" by (cases "c_pc r'") simp_all
  ultimately have "rt_left (s\<lparr>rt_ring := r'\<rparr>) < rt_left s" using pc r(4) by (simp add: rt_left_def)
  with rt_popping [OF i r'(1) pc(1)] show ?thesis by blast
qed

lemma rt_consumer_turn:
  assumes inv: "rt_inv MSG c s" and fits: "rt_fits MSG c" and k: "rt_k s < ITERATIONS_COUNT"
    and nw: "\<And>bs cap i. c_pc (rt_ring s) = C_Wait bs cap i \<Longrightarrow>
      length (popped (rt_ring s)) < length (pushed (rt_ring s))"
  shows "\<exists>s'. rt_step (of_nat c) MSG s s' \<and> rt_left s' < rt_left s"
proof -
  let ?r = "rt_ring s"
  have r: "ring_inv c (as_if 100 ?r)" "c_room 100 (c_pc (as_if 100 ?r))" using inv by (simp_all add: rt_inv_def Let_def)
  have small: "\<forall>m \<in> set (pushed (as_if 100 ?r)). length m \<le> 100" "(100 :: nat) < 2 ^ 64"
    using rt_small(1) [OF inv fits] by simp_all
  note on = rt_pops_on [OF inv fits]
  have steps: ?thesis if "c_pc ?r \<noteq> C_Idle" "\<And>b x i. c_pc ?r \<noteq> C_Wait b x i" "\<And>b ps i' ff f v. c_pc ?r \<noteq> C_Store b ps i' ff f v"
    using c_step_next [OF _ _ _ r small] that by (auto intro: on)
  show ?thesis
  proof (cases "c_pc ?r")
    case C_Idle
    have "rt_step (of_nat c) MSG s (s\<lparr>rt_ring := pop_call (replicate 100 0) 1000 ?r\<rparr>)"
      using k C_Idle by (intro rt_pop) simp_all
    moreover have "rt_left (s\<lparr>rt_ring := pop_call (replicate 100 0) 1000 ?r\<rparr>) < rt_left s"
      using k C_Idle by (simp add: rt_left_def pop_call_def)
    ultimately show ?thesis by blast
  next
    case (C_Wait bs cap i)
    have "c_pc (as_if 100 ?r) = C_Wait bs 100 i" using C_Wait by simp
    from consumer_sees [OF r(1) this] nw [OF C_Wait] C_Wait show ?thesis by (auto intro: on)
  next
    case (C_Store bs ps i' ff fit ov)
    then have pc: "c_pc (as_if 100 ?r) = C_Store bs ps i' ff fit ov" by simp
    note g = pop_store_gives [OF pc r(1)]
    let ?q = "pop_store (of_nat c) bs ps i' ff fit ov ?r"
    have "c_pc ?q = C_Idle" "p_pc ?q = p_pc ?r"
      using g(4,5) by (simp_all add: C_Store flip: pop_as_if(5))
    moreover from this C_Store
    have "rt_step (of_nat c) MSG s (s\<lparr>rt_ring := ?q, rt_k := Suc (rt_k s), rt_expects := rt_expects s @ [last (popped ?q) = MSG (rt_k s)]\<rparr>)"
      by (intro rt_popped c_store) simp_all
    ultimately show ?thesis using C_Store k by (intro exI conjI) (assumption, simp add: rt_left_def)
  next
    case (C_Error e)
    with r(2) show ?thesis by simp
  qed (use steps in simp_all)
qed

lemma rt_goes_on:
  assumes inv: "rt_inv MSG c s" and fits: "rt_fits MSG c" and "\<not> rt_over s"
  shows "\<exists>s'. rt_step (of_nat c) MSG s s' \<and> rt_left s' < rt_left s"
proof -
  let ?r = "rt_ring s"
  let ?N = "length (pushed ?r)" and ?n = "length (popped ?r)"
  have r: "ring_inv c (as_if 100 ?r)" and le: "?n \<le> ?N" "rt_i s \<le> ITERATIONS_COUNT" and k: "rt_k s = ?n" "?n \<le> ITERATIONS_COUNT"
    and i: "rt_i s = ?N + rt_in_push s" and w: "c_pc ?r \<noteq> C_Idle \<Longrightarrow> ?n < ITERATIONS_COUNT"
    using inv by (auto simp: rt_inv_def Let_def ring_inv_def)
  note producer = rt_producer_turn [OF inv fits] and consumer = rt_consumer_turn [OF inv fits, unfolded k(1)]
  consider (waits) m i rs where "p_pc ?r = P_Wait m i rs" "?n < ?N" | (full) m i rs where "p_pc ?r = P_Wait m i rs" "?n = ?N"
    | (goes) "\<And>m i rs. p_pc ?r \<noteq> P_Wait m i rs" "p_pc ?r = P_Idle \<longrightarrow> rt_i s < ITERATIONS_COUNT"
    | (all) "p_pc ?r = P_Idle" "?N = ITERATIONS_COUNT"
    using le i by (cases "\<exists>m i rs. p_pc ?r = P_Wait m i rs") (fastforce simp: rt_in_push_def)+
  then show ?thesis
  proof cases
    case waits
    then have "?n < ITERATIONS_COUNT" using le i by simp
    with waits show ?thesis by (intro consumer)
  next
    case full
    have pc: "p_pc (as_if 100 ?r) = P_Wait m i rs" "length (popped (as_if 100 ?r)) = length (pushed (as_if 100 ?r))"
      and c: "c < 2 ^ 32"
      using full fits by (simp_all add: rt_fits_def)
    have st: "p_step (of_nat c) ?r (push_load (of_nat c) ?n m i rs ?r)" "p_pc (push_load (of_nat c) ?n m i rs ?r) = P_Header m i"
      using producer_sees [OF r c pc] p_step_really [of "of_nat c" 100 ?r "push_load (of_nat c) ?n m i rs (as_if 100 ?r)"]
      by (simp_all add: push_load_really) (simp add: as_if_def)
    have ne: "p_pc ?r \<noteq> P_Idle" using full(1) by simp
    from rt_pushing [OF ne st(1)] show ?thesis
      by (intro exI conjI) (auto simp: rt_left_def st(2) full(1), simp add: push_load_def)
  next
    case goes
    then show ?thesis by (intro producer)
  next
    case all
    have "?n < ITERATIONS_COUNT"
      using w k all assms(3) i by (cases "c_pc ?r = C_Idle") (auto simp: rt_over_def rt_in_push_def)
    then show ?thesis using all by (intro consumer) simp_all
  qed
qed

lemma rt_ends:
  assumes "rt_inv MSG c s" and fits: "rt_fits MSG c"
  shows "\<exists>s'. rt_run (of_nat c) MSG s s' \<and> rt_over s' \<and> rt_inv MSG c s'"
  using assms(1)
proof (induction "rt_left s" arbitrary: s rule: less_induct)
  case less
  show ?case
  proof (cases "rt_over s")
    case True
    with less.prems show ?thesis by (blast intro: rt_none)
  next
    case False
    obtain s1 where s1: "rt_step (of_nat c) MSG s s1" "rt_left s1 < rt_left s"
      using rt_goes_on [OF less.prems fits False] by blast
    from less.hyps [OF s1(2) rt_step_inv [OF s1(1) less.prems fits]]
    show ?thesis using rt_run_first [OF s1(1)] by blast
  qed
qed

section \<open>The tests\<close>

definition CorrectnessTest_EmptyMessage :: "nat \<Rightarrow> byte list" where
  "CorrectnessTest_EmptyMessage i = text_bytes []"

definition CorrectnessTest_SomeMessage :: "nat \<Rightarrow> byte list" where
  "CorrectnessTest_SomeMessage i = text_bytes ''test_msg_12345''"

definition MSGS :: "string list" where
  "MSGS = [''hello_msg'', ''test_msg_12'', ''test_msg_123'', ''test_msg_12345'', ''test_msg_123456'',
     ''test_msg_23456'', ''test_msg_3456'', ''test_msg_456'', ''test_msg_56'', ''test_msg_6'']"

definition CorrectnessTest_DifferentMessages :: "nat \<Rightarrow> byte list" where
  "CorrectnessTest_DifferentMessages i = text_bytes (MSGS ! (i mod length MSGS))"

definition CorrectnessTest_BufferAlignedByMessage :: "nat \<Rightarrow> byte list" where
  "CorrectnessTest_BufferAlignedByMessage i = text_bytes ''test_msg_123''"

definition correctness_tests :: "(nat \<Rightarrow> byte list) list" where
  "correctness_tests = [CorrectnessTest_EmptyMessage, CorrectnessTest_SomeMessage, CorrectnessTest_DifferentMessages,
     CorrectnessTest_BufferAlignedByMessage]"

lemma tests_fit: "MSG \<in> set correctness_tests \<Longrightarrow> rt_fits MSG BUFFER_SIZE"
proof -
  have "length s \<le> 15" if "s \<in> set MSGS" for s using that by (auto simp: MSGS_def)
  moreover have "MSGS ! (i mod length MSGS) \<in> set MSGS" for i by (rule nth_mem) (simp add: MSGS_def)
  ultimately have l: "length (MSGS ! (i mod length MSGS)) \<le> 15" for i by blast
  have "length (MSG i) \<le> 15" if "MSG \<in> set correctness_tests" for i
    using that l [of i]
    by (auto simp: correctness_tests_def CorrectnessTest_EmptyMessage_def CorrectnessTest_SomeMessage_def
        CorrectnessTest_DifferentMessages_def CorrectnessTest_BufferAlignedByMessage_def)
  then show "MSG \<in> set correctness_tests \<Longrightarrow> rt_fits MSG BUFFER_SIZE"
    by (fastforce simp: rt_fits_def BUFFER_SIZE_def RecordHeader_size_def intro: order_trans)
qed

section \<open>Property\<close>

text \<open>C22: the four tests of the ring buffer pass, with a million messages each over a ring of 128 bytes: however the
  accesses of the two threads interleave and however old the indices they see, every comparison made so far holds, nothing
  has failed, and from every state that is reached both loops can still be completed, with all comparisons made.  That
  \<open>Pop\<close> is told 1000 bytes for an array of 100 does no harm, since no message is longer than the array.\<close>

theorem ring_buffer_tests:
  assumes "MSG \<in> set correctness_tests" and "length mem = BUFFER_SIZE"
    and "rt_run (of_nat BUFFER_SIZE) MSG (rt_start mem) s"
  shows "(\<exists>rb. SPSCRingBuffer (of_nat BUFFER_SIZE) mem = Inr rb \<and> GetCapacity rb = of_nat BUFFER_SIZE) \<and>
    rt_expects s = replicate (rt_k s) True \<and> (\<forall>e. p_pc (rt_ring s) \<noteq> P_Error e \<and> c_pc (rt_ring s) \<noteq> C_Error e) \<and>
    (\<exists>s'. rt_run (of_nat BUFFER_SIZE) MSG s s' \<and> rt_over s' \<and> rt_expects s' = replicate ITERATIONS_COUNT True)"
proof -
  note fits = tests_fit [OF assms(1)]
  have inv: "rt_inv MSG BUFFER_SIZE s"
    by (rule rt_inv_run [OF assms(3) rt_inv_start [OF assms(2)] fits]) (simp_all add: BUFFER_SIZE_def)
  then have now: "rt_expects s = replicate (rt_k s) True"
    "p_pc (rt_ring s) \<noteq> P_Error e" "c_pc (rt_ring s) \<noteq> C_Error e" for e
    by (auto simp: rt_inv_def Let_def)
  obtain s' where s': "rt_run (of_nat BUFFER_SIZE) MSG s s'" "rt_over s'" "rt_inv MSG BUFFER_SIZE s'"
    using rt_ends [OF inv fits] by blast
  then have "rt_expects s' = replicate ITERATIONS_COUNT True" by (simp add: rt_inv_def rt_over_def Let_def)
  moreover obtain rb where "SPSCRingBuffer (of_nat BUFFER_SIZE) mem = Inr rb" "unat (rb_capacity rb) = BUFFER_SIZE"
    using SPSCRingBuffer_ok [of BUFFER_SIZE mem] assms(2) by (auto simp: BUFFER_SIZE_def)
  ultimately show ?thesis using now s' by (auto simp: GetCapacity_def) (metis of_nat_unat)
qed

theorem ring_buffer_tests_witness:
  "\<exists>s. rt_run 128 CorrectnessTest_DifferentMessages (rt_start (replicate 128 0)) s \<and> rt_over s \<and>
    rt_expects s = replicate 1000000 True"
proof -
  have "CorrectnessTest_DifferentMessages \<in> set correctness_tests" "length (replicate 128 (0 :: byte)) = BUFFER_SIZE"
    by (simp_all add: correctness_tests_def BUFFER_SIZE_def)
  from ring_buffer_tests [OF this rt_none] show ?thesis by (auto simp: BUFFER_SIZE_def ITERATIONS_COUNT_def)
qed

end
