(* ===== verification/Quantiles_Test.thy ===== *)
theory Quantiles_Test
  imports Quantiles
begin

text \<open>
  The unit tests of the quantiles (\<open>src/src/statistics/src/quantiles/src/tests.cpp\<close>), computed with the roundings of
  \<open>double\<close>.
\<close>

text \<open>The roundings on the way.\<close>

lemma test_roundings:
  "double_round (1 / 10) = 3602879701896397 / 36028797018963968"
  "double_round (9 / 10) = 8106479329266893 / 9007199254740992"
  "double_round (3602879701896397 / 9007199254740992) = 3602879701896397 / 9007199254740992"
  "double_round (90071992547409925 / 2251799813685248) = 40"
  "double_round (8106479329266893 / 2251799813685248) = 8106479329266893 / 2251799813685248"
  "double_round (1351079888211149 / 2251799813685248) = 1351079888211149 / 2251799813685248"
  "double_round (33776997205278725 / 562949953421312) = 8444249301319681 / 140737488355328"
  using double_round_at [of "1 / 10" 56] double_round_at [of "9 / 10" 53]
    double_round_at [of "3602879701896397 / 9007199254740992" 54]
    double_round_at [of "90071992547409925 / 2251799813685248" 47]
    double_round_at [of "8106479329266893 / 2251799813685248" 51]
    double_round_at [of "1351079888211149 / 2251799813685248" 53]
    double_round_at [of "33776997205278725 / 562949953421312" 47]
  by (simp_all add: round_half_even_def Let_def)

lemma test_literals:
  "double_round 0 = 0" "double_round 1 = 1" "double_round 2 = 2" "double_round 3 = 3" "double_round 4 = 4" "double_round 100 = 100"
  "double_round (1 / 2) = 1 / 2" "double_round (1 / 4) = 1 / 4" "double_round (3 / 4) = 3 / 4"
  using double_round_int [of 0] double_round_int [of 1] double_round_int [of 2] double_round_int [of 3] double_round_int [of 4]
    double_round_int [of 100] double_round_at [of "1 / 2" 53] double_round_at [of "1 / 4" 54] double_round_at [of "3 / 4" 53]
  by (simp_all add: round_half_even_def Let_def)

lemmas quantile_steps = Quantiles_Get_def quantile_frac_def quantile_idx_def quantile_pos_def interpolate_def
  duration_cast_double_def test_roundings test_literals Let_def

text \<open>The interpolated values: with the doubles nearest to 0.1 and 0.9, the rounding errors of the position, the
  fraction and the product do not reach the result.\<close>

theorem quantile_interpolated:
  "Quantiles_Get double_round [100, 200, 300, 400, 500] (double_round (1 / 10)) = Inr 140"
  "Quantiles_Get double_round [100, 200, 300, 400, 500] (double_round (9 / 10)) = Inr 460"
  by (simp_all add: quantile_steps)

section \<open>The tests\<close>

text \<open>\<open>EXPECT_EQ(p.Get(alpha), value)\<close> for a list of such pairs; the literals \<open>alpha\<close> are rounded to \<open>double\<close>.\<close>

fun expect_all :: "(rat \<times> int) list \<Rightarrow> int list \<Rightarrow> bool result" where
  "expect_all [] p = Inr True"
| "expect_all ((alpha, v) # expected) p =
     rbind (Quantiles_Get double_round p (double_round alpha)) (\<lambda>q.
     rbind (expect_all expected p) (\<lambda>ok. Inr (q = v \<and> ok)))"

definition QuantilesTests_BasicTest :: "bool result" where
  "QuantilesTests_BasicTest = rbind (Quantiles [100, 200, 300, 400, 500])
     (expect_all [(0, 100), (1, 500), (1 / 2, 300), (1 / 4, 200), (3 / 4, 400)])"

definition QuantilesTests_InterpolatedValuesTest :: "bool result" where
  "QuantilesTests_InterpolatedValuesTest = rbind (Quantiles [100, 200, 300, 400, 500])
     (expect_all [(1 / 10, 140), (9 / 10, 460)])"

definition QuantilesTests_DuplicateValuesTest :: "bool result" where
  "QuantilesTests_DuplicateValuesTest = rbind (Quantiles [100, 100, 100, 100, 200])
     (expect_all [(0, 100), (1 / 10, 100), (1 / 2, 100), (1, 200)])"

text \<open>The three tests of the quantiles pass, in the arithmetic of \<open>double\<close>: the interpolated values with the doubles
  nearest to 0.1 and 0.9, whose rounding errors do not reach the result, the exact positions and the duplicates.\<close>

theorem quantiles_tests:
  "QuantilesTests_BasicTest = Inr True \<and> QuantilesTests_InterpolatedValuesTest = Inr True \<and>
   QuantilesTests_DuplicateValuesTest = Inr True"
proof (intro conjI)
  show "QuantilesTests_BasicTest = Inr True"
    by (simp add: QuantilesTests_BasicTest_def Quantiles_def quantile_steps)
  show "QuantilesTests_InterpolatedValuesTest = Inr True"
    by (simp add: QuantilesTests_InterpolatedValuesTest_def Quantiles_def quantile_interpolated)
  show "QuantilesTests_DuplicateValuesTest = Inr True"
    by (simp add: QuantilesTests_DuplicateValuesTest_def Quantiles_def quantile_steps)
qed

end
