(* ===== verification/Modes.thy ===== *)
theory Modes
  imports Wiring
begin

text \<open>
  The modes producer, consumer and analyzer from their parsed arguments on: the parameter structures, the
  dependencies made from them in the order \<open>ModeMaker::Make\<close> makes them, the actor's \<open>Run\<close> on them, and the
  \<open>runAs\<close> functions.
\<close>

section \<open>Parameters\<close>

text \<open>The copy of an optional size, whose value is not initialised after a malformed number.\<close>

definition optional_size :: "u64 option option \<Rightarrow> u64 option result" where
  "optional_size x = (case x of None \<Rightarrow> Inr None | Some n \<Rightarrow> rbind (initialised n) (\<lambda>n. Inr (Some n)))"

record connection_params =
  params_type :: ConnectionType
  params_id :: string
  params_buffer_size :: "u64 option"

definition connection_of :: "(ConnectionType \<times> string) option \<Rightarrow> u64 option option \<Rightarrow> connection_params result" where
  "connection_of connection buffer_size =
     rbind (initialised connection) (\<lambda>(t, cid).
     rbind (optional_size buffer_size) (\<lambda>n.
     Inr \<lparr>params_type = t, params_id = cid, params_buffer_size = n\<rparr>))"

section \<open>Making an actor of its dependencies\<close>

text \<open>
  \<open>ModeMaker::Make\<close> (\<open>run/as/common/maker.hpp\<close>) makes the dependencies in the order of its arguments.  A dependency
  is a type, or an object together with its type; the types become the template arguments of the
  actor and the objects the arguments of its constructor, both in this order.  An object that has been made is
  destroyed when a later dependency cannot be made.
\<close>

datatype object =
    Statistics_Object
  | Measurer_Object measurer
  | Generator_Object "byte list vec"
  | Client_Object client
  | Server_Object server

datatype impl = Buffer_Impl | Packer_Impl packer | Object_Impl

datatype dependency = As_Argument object | As_Type impl

fun object_destroy :: "object \<Rightarrow> unit io" where
  "object_destroy (Client_Object c) = client_Close c"
| "object_destroy (Server_Object s) = server_Close s"
| "object_destroy _ = io_return ()"

fun Make :: "dependency io list \<Rightarrow> impl list \<Rightarrow> object list \<Rightarrow> (impl list \<times> object list) io" where
  "Make [] impls args = io_return (impls, args)"
| "Make (create # creates) impls args =
     io_bind create (\<lambda>dependency.
     case dependency of
       As_Argument x \<Rightarrow> io_guard (object_destroy x) (Make creates (impls @ [Object_Impl]) (args @ [x]))
     | As_Type t \<Rightarrow> Make creates (impls @ [t]) args)"

text \<open>The dependencies the modes make, as functions of the parameters.\<close>

definition make_packer :: "packer \<Rightarrow> dependency io" where
  "make_packer p = io_return (As_Type (Packer_Impl p))"

definition make_object :: "('a \<Rightarrow> object) \<Rightarrow> 'a io \<Rightarrow> dependency io" where
  "make_object C m = io_bind m (\<lambda>x. io_return (As_Argument (C x)))"

definition buffer_capacity_message :: "string \<Rightarrow> string" where
  "buffer_capacity_message name =
     ''['' @ name @ ''][packer's buffer] Capacity is '' @ to_string kBufferCapacityInBytes @ '' bytes'' @ endl"

definition make_buffer :: "string \<Rightarrow> dependency io" where
  "make_buffer message = io_bind (io_print message) (\<lambda>_. io_return (As_Type Buffer_Impl))"

text \<open>What does not fit the parameters of a template or a constructor does not compile.\<close>

definition ill_typed :: "'a result" where
  "ill_typed = Inl (Undefined_Behaviour ''ill-typed'')"

fun as_packer :: "impl \<Rightarrow> packer result" where
  "as_packer (Packer_Impl p) = Inr p"
| "as_packer _ = ill_typed"

fun as_measurer :: "object \<Rightarrow> measurer result" where
  "as_measurer (Measurer_Object m) = Inr m"
| "as_measurer _ = ill_typed"

fun as_generator :: "object \<Rightarrow> byte list vec result" where
  "as_generator (Generator_Object g) = Inr g"
| "as_generator _ = ill_typed"

fun as_client :: "object \<Rightarrow> client result" where
  "as_client (Client_Object c) = Inr c"
| "as_client _ = ill_typed"

fun as_server :: "object \<Rightarrow> server result" where
  "as_server (Server_Object s) = Inr s"
| "as_server _ = ill_typed"

text \<open>Laws with which a list of dependencies becomes the sequence of steps it stands for.\<close>

lemma io_bind_return [simp]: "io_bind (io_return x) f = f x"
  by (intro ext) (simp add: io_bind_def io_return_def)

lemma io_return_bind: "io_bind m io_return = m"
  by (intro ext) (auto simp: io_bind_def io_return_def split: option.split sum.split prod.split)

lemma io_bind_assoc: "io_bind (io_bind m f) g = io_bind m (\<lambda>x. io_bind (f x) g)"
  by (intro ext) (auto simp: io_bind_def split: option.split prod.split sum.split)

lemma io_guard_trivial [simp]: "io_guard (io_return ()) m = m"
  by (intro ext) (auto simp: io_guard_def io_bind_def io_return_def io_throw_def split: option.split sum.split)

lemma io_guard_return [simp]: "io_guard destroy (io_return x) = io_return x"
  by (intro ext) (simp add: io_guard_def io_return_def)

lemma io_guard_pure:
  assumes "\<And>x. k (f x) = io_return (g x)"
  shows "io_bind (io_guard destroy (io_bind m (\<lambda>x. io_return (f x)))) k =
    io_guard destroy (io_bind m (\<lambda>x. io_return (g x)))"
proof (intro ext)
  fix K h
  show "io_bind (io_guard destroy (io_bind m (\<lambda>x. io_return (f x)))) k K h =
    io_guard destroy (io_bind m (\<lambda>x. io_return (g x))) K h"
  proof (cases "m K h")
    case (Some r)
    obtain q h' where r: "r = (q, h')" by fastforce
    show ?thesis
    proof (cases q)
      case (Inl e)
      then show ?thesis using Some r
        by (cases "destroy K h'"; cases "fst (the (destroy K h'))")
          (auto simp: io_guard_def io_bind_def io_return_def io_throw_def)
    next
      case (Inr x)
      then show ?thesis using Some r assms [of x]
        by (simp add: io_guard_def io_bind_def io_return_def)
    qed
  qed (simp add: io_guard_def io_bind_def)
qed

lemma io_of_Inr: "io_of_result (Inr x) = io_return x"
  by (intro ext) (simp add: io_of_result_def io_return_def)

lemma io_of_rbind: "io_of_result (rbind r f) = io_bind (io_of_result r) (\<lambda>x. io_of_result (f x))"
  by (intro ext) (cases r; simp add: io_of_result_def io_bind_def)

text \<open>A value that is read a second time is the same.\<close>

lemma io_of_result_twice: "io_bind (io_of_result r) (\<lambda>x. io_bind (io_of_result r) (f x)) = io_bind (io_of_result r) (\<lambda>x. f x x)"
  by (intro ext) (cases r; simp add: io_of_result_def io_bind_def)

lemmas make_simps = make_packer_def make_object_def make_buffer_def io_bind_assoc io_guard_pure
  io_of_Inr io_of_rbind io_of_result_twice

section \<open>Producer\<close>

definition Producer_MeasurerParams :: "producer_args \<Rightarrow> u64 result" where
  "Producer_MeasurerParams a = initialised (pa_chunks_total_count a)"

definition Producer_GeneratorParams :: "producer_args \<Rightarrow> (u64 \<times> u64) result" where
  "Producer_GeneratorParams a =
     rbind (initialised (pa_chunks_size a)) (\<lambda>chunks_size.
     rbind (initialised (pa_chunks_total_count a)) (\<lambda>chunks_total_count.
     Inr (chunks_size, chunks_total_count)))"

definition Producer_Measurer :: "environment \<Rightarrow> u64 \<Rightarrow> dependency io" where
  "Producer_Measurer E chunks_total_count = make_object Measurer_Object (io_of_result (Measurer (env_impl E) chunks_total_count))"

definition Producer_Generator :: "environment \<Rightarrow> u64 \<times> u64 \<Rightarrow> dependency io" where
  "Producer_Generator E = (\<lambda>(chunks_size, chunks_total_count). make_object Generator_Object
     (io_of_result (SimpleRoundGenerator (env_impl E) (env_string_max E) chunks_size chunks_total_count)))"

definition Producer_Buffer :: "dependency io" where
  "Producer_Buffer = make_buffer (buffer_capacity_message ''producer'')"

text \<open>The overloads that choose a packer are copies of \<open>CreatePacker\<close>, one for each connection of a mode.\<close>

definition Producer_MeasurerPacker :: "environment \<Rightarrow> ConnectionType \<Rightarrow> packer" where
  "Producer_MeasurerPacker E t = CreatePacker (env_host E) t"

definition Producer_ConsumerClientParams :: "producer_args \<Rightarrow> connection_params result" where
  "Producer_ConsumerClientParams a = connection_of (pa_connection a) (pa_connection_buffer_size a)"

definition Producer_ConsumerPackerParams :: "producer_args \<Rightarrow> ConnectionType result" where
  "Producer_ConsumerPackerParams a = rbind (initialised (pa_connection a)) (\<lambda>(t, _). Inr t)"

definition Producer_MeasurerClientParams :: "producer_args \<Rightarrow> connection_params result" where
  "Producer_MeasurerClientParams a = connection_of (pa_measurer a) None"

text \<open>The type is the one of the connection to the consumer.\<close>

definition Producer_MeasurerPackerParams :: "producer_args \<Rightarrow> ConnectionType result" where
  "Producer_MeasurerPackerParams a = rbind (initialised (pa_connection a)) (\<lambda>(t, _). Inr t)"

definition Producer_ConsumerClient :: "environment \<Rightarrow> connection_params \<Rightarrow> client io" where
  "Producer_ConsumerClient E p =
     (let who = ''[producer][consumer's connector] '' in
      io_bind (make_client (params_type p) (params_id p)) (\<lambda>c.
      io_bind (connect_loop E who c) (\<lambda>c.
      io_guard (client_Close c)
        (io_bind (connected who) (\<lambda>_.
         io_bind (set_buffer_size c who (params_buffer_size p)) (\<lambda>_.
         io_bind (set_no_delay c (io_print (who @ ''The Nagle's algorithm disabled for connection'' @ endl))) (\<lambda>_.
         io_return c)))))))"

definition Producer_MeasurerClient :: "environment \<Rightarrow> connection_params \<Rightarrow> client io" where
  "Producer_MeasurerClient E p =
     (let who = ''[producer][measurer's connector] '' in
      io_bind (make_client (params_type p) (params_id p)) (\<lambda>c.
      io_bind (connect_loop E who c) (\<lambda>c.
      io_guard (client_Close c)
        (io_bind (connected who) (\<lambda>_.
         io_bind (set_no_delay c (io_return ())) (\<lambda>_.
         io_return c))))))"

record producer =
  pr_generator :: "byte list vec"
  pr_measurer :: measurer
  pr_consumer_packer :: packer
  pr_consumer_client :: client
  pr_measurer_packer :: packer
  pr_measurer_client :: client

text \<open>Members are destroyed in the reverse order of their declaration.\<close>

definition producer_destroy :: "producer \<Rightarrow> unit io" where
  "producer_destroy p = io_bind (client_Close (pr_measurer_client p)) (\<lambda>_. client_Close (pr_consumer_client p))"

text \<open>The parameters of the class template \<open>Producer\<close> and of its constructor, by position.\<close>

definition Producer_actor :: "impl list \<Rightarrow> object list \<Rightarrow> producer result" where
  "Producer_actor impls args =
     (if length impls \<noteq> 7 \<or> length args \<noteq> 4 then ill_typed
      else
      rbind (as_packer (impls ! 3)) (\<lambda>TMeasurerConnectionPacker.
      rbind (as_packer (impls ! 5)) (\<lambda>TConsumerConnectionPacker.
      rbind (as_generator (args ! 0)) (\<lambda>generator.
      rbind (as_measurer (args ! 1)) (\<lambda>measurer.
      rbind (as_client (args ! 2)) (\<lambda>measurer_connection.
      rbind (as_client (args ! 3)) (\<lambda>consumer_connection.
      Inr \<lparr>pr_generator = generator, pr_measurer = measurer,
        pr_consumer_packer = TConsumerConnectionPacker, pr_consumer_client = consumer_connection,
        pr_measurer_packer = TMeasurerConnectionPacker, pr_measurer_client = measurer_connection\<rparr>)))))))"

definition CreateProducer :: "environment \<Rightarrow> producer_args \<Rightarrow> producer io" where
  "CreateProducer E a =
     io_bind (io_of_result (Producer_GeneratorParams a)) (\<lambda>generator.
     io_bind (io_of_result (Producer_MeasurerParams a)) (\<lambda>measurer.
     io_bind (io_of_result (Producer_MeasurerPackerParams a)) (\<lambda>measurer_packer.
     io_bind (io_of_result (Producer_MeasurerClientParams a)) (\<lambda>measurer_client.
     io_bind (io_of_result (Producer_ConsumerPackerParams a)) (\<lambda>consumer_packer.
     io_bind (io_of_result (Producer_ConsumerClientParams a)) (\<lambda>consumer_client.
     io_bind (Make
       [Producer_Buffer,
        Producer_Generator E generator,
        Producer_Measurer E measurer,
        make_packer (Producer_MeasurerPacker E measurer_packer),
        make_object Client_Object (Producer_MeasurerClient E measurer_client),
        make_packer (CreatePacker (env_host E) consumer_packer),
        make_object Client_Object (Producer_ConsumerClient E consumer_client)] [] [])
       (\<lambda>(impls, args). io_of_result (Producer_actor impls args))))))))"

lemma CreateProducer_steps:
  "CreateProducer E a =
     io_bind (io_of_result (initialised (pa_chunks_size a))) (\<lambda>chunks_size.
     io_bind (io_of_result (initialised (pa_chunks_total_count a))) (\<lambda>chunks_total_count.
     io_bind (io_of_result (Producer_MeasurerPackerParams a)) (\<lambda>mpp.
     io_bind (io_of_result (Producer_MeasurerClientParams a)) (\<lambda>mcp.
     io_bind (io_of_result (Producer_ConsumerPackerParams a)) (\<lambda>cpp.
     io_bind (io_of_result (Producer_ConsumerClientParams a)) (\<lambda>ccp.
     io_bind (io_print (buffer_capacity_message ''producer'')) (\<lambda>_.
     io_bind (io_of_result (SimpleRoundGenerator (env_impl E) (env_string_max E) chunks_size chunks_total_count)) (\<lambda>g.
     io_bind (io_of_result (Measurer (env_impl E) chunks_total_count)) (\<lambda>m.
     io_bind (Producer_MeasurerClient E mcp) (\<lambda>mc.
     io_guard (client_Close mc)
       (io_bind (Producer_ConsumerClient E ccp) (\<lambda>cc.
        io_return \<lparr>pr_generator = g, pr_measurer = m,
          pr_consumer_packer = CreatePacker (env_host E) cpp, pr_consumer_client = cc,
          pr_measurer_packer = Producer_MeasurerPacker E mpp, pr_measurer_client = mc\<rparr>))))))))))))"
  by (simp add: CreateProducer_def Producer_GeneratorParams_def Producer_MeasurerParams_def Producer_Buffer_def
      Producer_Generator_def Producer_Measurer_def make_simps Producer_actor_def)

text \<open>\<open>Run\<close> of the actor, on its members.\<close>

definition run_producer :: "environment \<Rightarrow> producer \<Rightarrow> unit io" where
  "run_producer E p = io_of_outcome (\<lambda>K h.
     obind (Producer_Run (env_impl E) (env_clock E)
         (pr_consumer_packer p) (sending (client_Send E (pr_consumer_client p)) K)
         (pr_measurer_packer p) (sending (client_Send E (pr_measurer_client p)) K)
         (pr_generator p) (pr_measurer p) (actor_buffer E 0) h)
       (\<lambda>(_, _, h). Some (Inr ((), h))))"

definition runAsProducer :: "environment \<Rightarrow> producer_args \<Rightarrow> int io" where
  "runAsProducer E a =
     io_report (env_what E) ''producer''
       (io_bind (io_of_result (SchedSetAffinity (env_affinity E) (pa_cpu a))) (\<lambda>_.
        io_bind (CreateProducer E a) (\<lambda>p.
        io_scope (producer_destroy p)
          (io_bind (io_print (''[producer] Waiting 3s for syncronization with consumer...'' @ endl)) (\<lambda>_.
           io_bind (io_sleep 3) (\<lambda>_.
           io_bind (io_print (''[producer] Ready to work. Working...'' @ endl)) (\<lambda>_.
           io_bind (run_producer E p) (\<lambda>_.
           io_bind (io_print (''[producer] Finished work'' @ endl)) (\<lambda>_.
           io_return 0)))))))))"

section \<open>Consumer\<close>

definition Consumer_MeasurerParams :: "consumer_args \<Rightarrow> u64 result" where
  "Consumer_MeasurerParams a = initialised (ca_chunks_total_count a)"

definition Consumer_Buffer :: "dependency io" where
  "Consumer_Buffer = make_buffer (buffer_capacity_message ''consumer'')"

definition Consumer_Measurer :: "environment \<Rightarrow> u64 \<Rightarrow> dependency io" where
  "Consumer_Measurer E chunks_total_count = make_object Measurer_Object (io_of_result (Measurer (env_impl E) chunks_total_count))"

definition Consumer_MeasurerPacker :: "environment \<Rightarrow> ConnectionType \<Rightarrow> packer" where
  "Consumer_MeasurerPacker E t = CreatePacker (env_host E) t"

definition Consumer_ProducerPacker :: "environment \<Rightarrow> ConnectionType \<Rightarrow> packer" where
  "Consumer_ProducerPacker E t = CreatePacker (env_host E) t"

definition Consumer_ProducerServerParams :: "consumer_args \<Rightarrow> connection_params result" where
  "Consumer_ProducerServerParams a = connection_of (ca_connection a) (ca_connection_buffer_size a)"

definition Consumer_ProducerPackerParams :: "consumer_args \<Rightarrow> ConnectionType result" where
  "Consumer_ProducerPackerParams a = rbind (initialised (ca_connection a)) (\<lambda>(t, _). Inr t)"

definition Consumer_MeasurerClientParams :: "consumer_args \<Rightarrow> connection_params result" where
  "Consumer_MeasurerClientParams a = connection_of (ca_measurer a) None"

text \<open>The type is the one of the connection to the producer.\<close>

definition Consumer_MeasurerPackerParams :: "consumer_args \<Rightarrow> ConnectionType result" where
  "Consumer_MeasurerPackerParams a = rbind (initialised (ca_connection a)) (\<lambda>(t, _). Inr t)"

definition Consumer_ProducerServer :: "environment \<Rightarrow> connection_params \<Rightarrow> server io" where
  "Consumer_ProducerServer E p =
     io_bind (make_server E (params_type p) (params_id p) (params_buffer_size p)) (\<lambda>s.
     case server_GetBufferSize s of
       None \<Rightarrow> io_return s
     | Some get_size \<Rightarrow>
         io_guard (server_Close s)
           (io_bind (report_size ''[consumer][producer's connector] '' get_size (params_buffer_size p)) (\<lambda>_.
            io_return s)))"

definition Consumer_MeasurerClient :: "environment \<Rightarrow> connection_params \<Rightarrow> client io" where
  "Consumer_MeasurerClient E p =
     (let who = ''[consumer][measurer's connector] '' in
      io_bind (make_client (params_type p) (params_id p)) (\<lambda>c.
      io_bind (connect_loop E who c) (\<lambda>c.
      io_guard (client_Close c)
        (io_bind (connected who) (\<lambda>_.
         io_bind (set_no_delay c (io_return ())) (\<lambda>_.
         io_return c))))))"

record consumer =
  co_measurer :: measurer
  co_measurer_packer :: packer
  co_measurer_client :: client
  co_producer_packer :: packer
  co_producer_server :: server

definition consumer_destroy :: "consumer \<Rightarrow> unit io" where
  "consumer_destroy c = io_bind (server_Close (co_producer_server c)) (\<lambda>_. client_Close (co_measurer_client c))"

definition Consumer_actor :: "impl list \<Rightarrow> object list \<Rightarrow> consumer result" where
  "Consumer_actor impls args =
     (if length impls \<noteq> 6 \<or> length args \<noteq> 3 then ill_typed
      else
      rbind (as_packer (impls ! 2)) (\<lambda>TMeasurerConnectionPacker.
      rbind (as_packer (impls ! 4)) (\<lambda>TConsumerConnectionPacker.
      rbind (as_measurer (args ! 0)) (\<lambda>measurer.
      rbind (as_client (args ! 1)) (\<lambda>measurer_connection.
      rbind (as_server (args ! 2)) (\<lambda>producer_connection.
      Inr \<lparr>co_measurer = measurer,
        co_measurer_packer = TMeasurerConnectionPacker, co_measurer_client = measurer_connection,
        co_producer_packer = TConsumerConnectionPacker, co_producer_server = producer_connection\<rparr>))))))"

definition CreateConsumer :: "environment \<Rightarrow> consumer_args \<Rightarrow> consumer io" where
  "CreateConsumer E a =
     io_bind (io_of_result (Consumer_MeasurerParams a)) (\<lambda>measurer.
     io_bind (io_of_result (Consumer_MeasurerPackerParams a)) (\<lambda>measurer_packer.
     io_bind (io_of_result (Consumer_MeasurerClientParams a)) (\<lambda>measurer_client.
     io_bind (io_of_result (Consumer_ProducerPackerParams a)) (\<lambda>producer_packer.
     io_bind (io_of_result (Consumer_ProducerServerParams a)) (\<lambda>producer_server.
     io_bind (Make
       [Consumer_Buffer,
        Consumer_Measurer E measurer,
        make_packer (Consumer_MeasurerPacker E measurer_packer),
        make_object Client_Object (Consumer_MeasurerClient E measurer_client),
        make_packer (Consumer_ProducerPacker E producer_packer),
        make_object Server_Object (Consumer_ProducerServer E producer_server)] [] [])
       (\<lambda>(impls, args). io_of_result (Consumer_actor impls args)))))))"

lemma CreateConsumer_steps:
  "CreateConsumer E a =
     io_bind (io_of_result (initialised (ca_chunks_total_count a))) (\<lambda>chunks_total_count.
     io_bind (io_of_result (Consumer_MeasurerPackerParams a)) (\<lambda>mpp.
     io_bind (io_of_result (Consumer_MeasurerClientParams a)) (\<lambda>mcp.
     io_bind (io_of_result (Consumer_ProducerPackerParams a)) (\<lambda>ppp.
     io_bind (io_of_result (Consumer_ProducerServerParams a)) (\<lambda>psp.
     io_bind (io_print (buffer_capacity_message ''consumer'')) (\<lambda>_.
     io_bind (io_of_result (Measurer (env_impl E) chunks_total_count)) (\<lambda>m.
     io_bind (Consumer_MeasurerClient E mcp) (\<lambda>mc.
     io_guard (client_Close mc)
       (io_bind (Consumer_ProducerServer E psp) (\<lambda>ps.
        io_return \<lparr>co_measurer = m,
          co_measurer_packer = Consumer_MeasurerPacker E mpp, co_measurer_client = mc,
          co_producer_packer = Consumer_ProducerPacker E ppp, co_producer_server = ps\<rparr>))))))))))"
  by (simp add: CreateConsumer_def Consumer_MeasurerParams_def Consumer_Buffer_def Consumer_Measurer_def
      make_simps Consumer_actor_def)

definition run_consumer :: "environment \<Rightarrow> consumer \<Rightarrow> unit io" where
  "run_consumer E c = io_of_outcome (\<lambda>K h.
     obind (Consumer_Run (env_impl E) (env_strings E) (env_clock E)
         (co_producer_packer c) (receiving (server_Receive E (co_producer_server c)) K)
         (co_measurer_packer c) (sending (client_Send E (co_measurer_client c)) K)
         (co_measurer c) (actor_buffer E 0) h)
       (\<lambda>(_, _, h). Some (Inr ((), h))))"

definition runAsConsumer :: "environment \<Rightarrow> consumer_args \<Rightarrow> int io" where
  "runAsConsumer E a =
     io_report (env_what E) ''consumer''
       (io_bind (io_of_result (SchedSetAffinity (env_affinity E) (ca_cpu a))) (\<lambda>_.
        io_bind (CreateConsumer E a) (\<lambda>c.
        io_scope (consumer_destroy c)
          (io_bind (io_print (''[consumer] Ready to work. Working...'' @ endl)) (\<lambda>_.
           io_bind (run_consumer E c) (\<lambda>_.
           io_bind (io_print (''[consumer] Finished work'' @ endl)) (\<lambda>_.
           io_return 0)))))))"

section \<open>Analyzer\<close>

definition Analyzer_ProducerMeasurerParams :: "analyzer_args \<Rightarrow> u64 result" where
  "Analyzer_ProducerMeasurerParams a = initialised (aa_chunks_total_count a)"

definition Analyzer_ConsumerMeasurerParams :: "analyzer_args \<Rightarrow> u64 result" where
  "Analyzer_ConsumerMeasurerParams a = initialised (aa_chunks_total_count a)"

definition Analyzer_Statistics :: "dependency io" where
  "Analyzer_Statistics = make_object (\<lambda>_. Statistics_Object) (io_return ())"

definition Analyzer_ProducerMeasurer :: "environment \<Rightarrow> u64 \<Rightarrow> dependency io" where
  "Analyzer_ProducerMeasurer E chunks_total_count =
     make_object Measurer_Object (io_of_result (Measurer (env_impl E) chunks_total_count))"

definition Analyzer_ConsumerMeasurer :: "environment \<Rightarrow> u64 \<Rightarrow> dependency io" where
  "Analyzer_ConsumerMeasurer E chunks_total_count =
     make_object Measurer_Object (io_of_result (Measurer (env_impl E) chunks_total_count))"

definition Analyzer_Buffer :: "dependency io" where
  "Analyzer_Buffer = io_return (As_Type Buffer_Impl)"

definition Analyzer_ConsumerPacker :: "environment \<Rightarrow> ConnectionType \<Rightarrow> packer" where
  "Analyzer_ConsumerPacker E t = CreatePacker (env_host E) t"

definition Analyzer_ProducerPacker :: "environment \<Rightarrow> ConnectionType \<Rightarrow> packer" where
  "Analyzer_ProducerPacker E t = CreatePacker (env_host E) t"

definition Analyzer_ProducerPackerParams :: "analyzer_args \<Rightarrow> ConnectionType result" where
  "Analyzer_ProducerPackerParams a = rbind (initialised (aa_measurer_producer a)) (\<lambda>(t, _). Inr t)"

definition Analyzer_ConsumerPackerParams :: "analyzer_args \<Rightarrow> ConnectionType result" where
  "Analyzer_ConsumerPackerParams a = rbind (initialised (aa_measurer_consumer a)) (\<lambda>(t, _). Inr t)"

definition Analyzer_ProducerServerParams :: "analyzer_args \<Rightarrow> connection_params result" where
  "Analyzer_ProducerServerParams a = connection_of (aa_measurer_producer a) None"

definition Analyzer_ConsumerServerParams :: "analyzer_args \<Rightarrow> connection_params result" where
  "Analyzer_ConsumerServerParams a = connection_of (aa_measurer_consumer a) None"

definition Analyzer_ConsumerServer :: "environment \<Rightarrow> connection_params \<Rightarrow> server io" where
  "Analyzer_ConsumerServer E p = make_server E (params_type p) (params_id p) None"

definition Analyzer_ProducerServer :: "environment \<Rightarrow> connection_params \<Rightarrow> server io" where
  "Analyzer_ProducerServer E p = make_server E (params_type p) (params_id p) None"

record analyzer =
  an_consumer_measurer :: measurer
  an_producer_measurer :: measurer
  an_consumer_packer :: packer
  an_producer_packer :: packer
  an_consumer_server :: server
  an_producer_server :: server

definition analyzer_destroy :: "analyzer \<Rightarrow> unit io" where
  "analyzer_destroy z = io_bind (server_Close (an_producer_server z)) (\<lambda>_. server_Close (an_consumer_server z))"

text \<open>The fourth template parameter is the packer of the producer's connection.\<close>

definition Analyzer_actor :: "impl list \<Rightarrow> object list \<Rightarrow> analyzer result" where
  "Analyzer_actor impls args =
     (if length impls \<noteq> 8 \<or> length args \<noteq> 5 then ill_typed
      else
      rbind (as_packer (impls ! 3)) (\<lambda>TProducerConnectionPacker.
      rbind (as_packer (impls ! 4)) (\<lambda>TConsumerConnectionPacker.
      rbind (as_measurer (args ! 1)) (\<lambda>consumer_measurer.
      rbind (as_measurer (args ! 2)) (\<lambda>producer_measurer.
      rbind (as_server (args ! 3)) (\<lambda>consumer_measurer_connection.
      rbind (as_server (args ! 4)) (\<lambda>producer_measurer_connection.
      Inr \<lparr>an_consumer_measurer = consumer_measurer, an_producer_measurer = producer_measurer,
        an_consumer_packer = TConsumerConnectionPacker, an_producer_packer = TProducerConnectionPacker,
        an_consumer_server = consumer_measurer_connection,
        an_producer_server = producer_measurer_connection\<rparr>)))))))"

definition CreateAnalyzer :: "environment \<Rightarrow> analyzer_args \<Rightarrow> analyzer io" where
  "CreateAnalyzer E a =
     io_bind (io_of_result (Analyzer_ConsumerMeasurerParams a)) (\<lambda>consumer_measurer.
     io_bind (io_of_result (Analyzer_ProducerMeasurerParams a)) (\<lambda>producer_measurer.
     io_bind (io_of_result (Analyzer_ConsumerPackerParams a)) (\<lambda>consumer_packer.
     io_bind (io_of_result (Analyzer_ProducerPackerParams a)) (\<lambda>producer_packer.
     io_bind (io_of_result (Analyzer_ConsumerServerParams a)) (\<lambda>consumer_server.
     io_bind (io_of_result (Analyzer_ProducerServerParams a)) (\<lambda>producer_server.
     io_bind (Make
       [Analyzer_Statistics,
        Analyzer_ConsumerMeasurer E consumer_measurer,
        Analyzer_ProducerMeasurer E producer_measurer,
        make_packer (Analyzer_ConsumerPacker E consumer_packer),
        make_packer (Analyzer_ProducerPacker E producer_packer),
        Analyzer_Buffer,
        make_object Server_Object (Analyzer_ConsumerServer E consumer_server),
        make_object Server_Object (Analyzer_ProducerServer E producer_server)] [] [])
       (\<lambda>(impls, args). io_of_result (Analyzer_actor impls args))))))))"

text \<open>Each of the two packers ends up at the connection of the other.\<close>

lemma CreateAnalyzer_steps:
  "CreateAnalyzer E a =
     io_bind (io_of_result (initialised (aa_chunks_total_count a))) (\<lambda>chunks_total_count.
     io_bind (io_of_result (Analyzer_ConsumerPackerParams a)) (\<lambda>cpp.
     io_bind (io_of_result (Analyzer_ProducerPackerParams a)) (\<lambda>ppp.
     io_bind (io_of_result (Analyzer_ConsumerServerParams a)) (\<lambda>csp.
     io_bind (io_of_result (Analyzer_ProducerServerParams a)) (\<lambda>psp.
     io_bind (io_of_result (Measurer (env_impl E) chunks_total_count)) (\<lambda>cm.
     io_bind (io_of_result (Measurer (env_impl E) chunks_total_count)) (\<lambda>pm.
     io_bind (Analyzer_ConsumerServer E csp) (\<lambda>cs.
     io_guard (server_Close cs)
       (io_bind (Analyzer_ProducerServer E psp) (\<lambda>ps.
        io_return \<lparr>an_consumer_measurer = cm, an_producer_measurer = pm,
          an_consumer_packer = Analyzer_ProducerPacker E ppp, an_producer_packer = Analyzer_ConsumerPacker E cpp,
          an_consumer_server = cs, an_producer_server = ps\<rparr>))))))))))"
  by (simp add: CreateAnalyzer_def Analyzer_ConsumerMeasurerParams_def Analyzer_ProducerMeasurerParams_def
      Analyzer_Statistics_def Analyzer_ConsumerMeasurer_def Analyzer_ProducerMeasurer_def Analyzer_Buffer_def make_simps Analyzer_actor_def)

text \<open>The report is printed line by line, here as one text, also when it stops with an exception.\<close>

definition run_analyzer :: "environment \<Rightarrow> analyzer \<Rightarrow> unit io" where
  "run_analyzer E z =
     io_bind (io_of_outcome (\<lambda>K h.
       Analyzer_Run double_round (env_impl E) (env_schedule E)
         (an_consumer_packer z) (receiving (server_Receive E (an_consumer_server z)) K)
         (an_producer_packer z) (receiving (server_Receive E (an_producer_server z)) K)
         (an_consumer_measurer z, actor_buffer E 0) (an_producer_measurer z, actor_buffer E 1) h))
       (\<lambda>(text, r). io_bind (io_print text) (\<lambda>_. io_of_result r))"

definition runAsAnalyzer :: "environment \<Rightarrow> analyzer_args \<Rightarrow> int io" where
  "runAsAnalyzer E a =
     io_report (env_what E) ''analyzer''
       (io_bind (CreateAnalyzer E a) (\<lambda>z.
        io_scope (analyzer_destroy z)
          (io_bind (io_print (''[analyzer] Ready to work. Working...'' @ endl)) (\<lambda>_.
           io_bind (run_analyzer E z) (\<lambda>_.
           io_bind (io_print (''[analyzer] Finished work'' @ endl)) (\<lambda>_.
           io_return 0))))))"

end
