(* ===== verification/Effects.thy ===== *)
theory Effects
  imports Actors
begin

text \<open>
  What the connections of an actor keep of the world, its run keeps, whether it returns or throws: nothing
  else it does touches the world.
\<close>

definition keeps :: "('w \<Rightarrow> bool) \<Rightarrow> ('a \<Rightarrow> 'w) \<Rightarrow> ('a, 'w) outcome \<Rightarrow> bool" where
  "keeps P world r \<longleftrightarrow>
     (case r of None \<Rightarrow> True | Some (Inl (e, w)) \<Rightarrow> P w | Some (Inr x) \<Rightarrow> P (world x))"

lemma keeps_simps [simp]:
  "keeps P v None" "keeps P v (Some (Inl (e, w))) \<longleftrightarrow> P w" "keeps P v (Some (Inr x)) \<longleftrightarrow> P (v x)"
  by (simp_all add: keeps_def)

lemma keeps_bind:
  assumes "keeps P v m" and "\<And>x. P (v x) \<Longrightarrow> keeps P u (f x)"
  shows "keeps P u (obind m f)"
  using assms by (cases m; cases "the m") auto

lemma keeps_pure:
  assumes "P w" and "\<And>x. r = Inr x \<Longrightarrow> keeps P u (f x)"
  shows "keeps P u (obind (in_world w r) f)"
  using assms by (cases r) auto

lemma keeps_while:
  assumes "P (v s)" and "\<And>s. P (v s) \<Longrightarrow> keeps P v (body s)"
    and "\<And>s e w. P (v s) \<Longrightarrow> cond s = Inl (e, w) \<Longrightarrow> P w"
  shows "keeps P v (while_loop cond body s)"
proof (cases "while_loop cond body s")
  case (Some r)
  have "case r of Inl e \<Rightarrow> P (snd e) | Inr s' \<Rightarrow> P (v s')"
  proof (rule while_loop_ends [OF Some, where I = "\<lambda>s. P (v s)", OF assms(1)])
    fix s e assume "P (v s)"
    then show "cond s = Inl e \<Longrightarrow> P (snd e)" using assms(3) by (cases e) auto
    show "body s = Some (Inl e) \<Longrightarrow> P (snd e)" using assms(2) [OF \<open>P (v s)\<close>] by (cases e) simp
  next
    fix s s' assume "P (v s)" "body s = Some (Inr s')"
    then show "P (v s')" using assms(2) [OF \<open>P (v s)\<close>] by simp
  qed
  with Some show ?thesis by (cases r) (auto simp: keeps_def split: prod.splits)
qed simp

abbreviation keeps_world :: "('w \<Rightarrow> bool) \<Rightarrow> ('a \<times> 'b \<times> 'w, 'w) outcome \<Rightarrow> bool" where
  "keeps_world P \<equiv> keeps P (\<lambda>(_, _, w). w)"

lemma report_keeps:
  assumes "\<And>b w. P w \<Longrightarrow> keeps P id (send b w)" and "P w"
  shows "keeps_world P (report_ticks pk send (m, b, w))"
  unfolding report_ticks_def
  by (rule keeps_while)
    (auto simp: report_tick_def Let_def at_world_Inl assms
      intro!: keeps_pure keeps_bind [where v = id, OF assms(1)])

lemma Producer_keeps:
  assumes "\<And>b w. P w \<Longrightarrow> keeps P id (send1 b w)" and "\<And>b w. P w \<Longrightarrow> keeps P id (send2 b w)" and "P w"
  shows "keeps_world P (Producer_Run impl clock pk1 send1 pk2 send2 g m b w)"
  unfolding Producer_Run_def
proof (rule keeps_bind)
  show "keeps P (\<lambda>(_, _, _, w). w) (while_loop (\<lambda>(generator, _, _, w). at_world w (Generator_HasNext generator))
      (Producer_message impl clock pk1 send1) (Generator_ToFirst g, m, b, w))"
    by (rule keeps_while)
      (auto simp: Producer_message_def Let_def at_world_Inl assms(3)
        intro!: keeps_pure keeps_bind [where v = id, OF assms(1)])
qed (auto intro!: report_keeps assms)

lemma Consumer_keeps:
  assumes "\<And>b w. P w \<Longrightarrow> keeps P snd (receive b w)" and "\<And>b w. P w \<Longrightarrow> keeps P id (send b w)" and "P w"
  shows "keeps_world P (Consumer_Run impl si clock pk1 receive pk2 send m b w)"
  unfolding Consumer_Run_def
proof (rule keeps_bind)
  show "keeps_world P (while_loop (\<lambda>s. Inr (\<not> IsFull (fst s))) (Consumer_message impl si clock pk1 receive) (m, b, w))"
    by (rule keeps_while)
      (auto simp: Consumer_message_def assms(3) intro!: keeps_pure keeps_bind [where v = snd, OF assms(1)])
qed (auto intro!: report_keeps assms)

lemma keeps_thread: "keeps P v r \<Longrightarrow> keeps P v (in_thread r)"
  by (cases r; cases "the r") (auto simp: in_thread_def)

lemma keeps_blocked_or: "keeps P v r \<Longrightarrow> keeps P u r' \<Longrightarrow> keeps P v (blocked_or r r')"
  by (cases r; cases r'; cases "the r'") (auto simp: blocked_or_def)

lemma Analyzer_keeps:
  assumes "\<And>b w. P w \<Longrightarrow> keeps P snd (receive1 b w)" and "\<And>b w. P w \<Longrightarrow> keeps P snd (receive2 b w)" and "P w"
  shows "keeps P snd (Analyzer_Run fl impl schedule pk1 receive1 pk2 receive2 c p w)"
proof -
  have tick: "keeps_world P (Analyzer_tick impl pk receive (m, b, w))"
    if "\<And>b w. P w \<Longrightarrow> keeps P snd (receive b w)" "P w" for pk receive m b w
    using that(2) by (auto simp: Analyzer_tick_def intro!: keeps_pure keeps_bind [where v = snd, OF that(1)])
  have worker: "keeps_world P (Analyzer_worker impl pk receive m b w)"
    if "\<And>b w. P w \<Longrightarrow> keeps P snd (receive b w)" "P w" for pk receive m b w
    unfolding Analyzer_worker_def by (rule keeps_while) (auto intro!: tick that)
  have turn: "keeps P (\<lambda>(_, _, _, w). w) (Analyzer_turn impl schedule pk1 receive1 pk2 receive2 (k, (m, b), (m', b'), w))"
    if "P w" for k m b m' b' w
    using that unfolding Analyzer_turn_def
    by (auto intro!: keeps_bind [where v = "\<lambda>(_, _, w). w", OF keeps_blocked_or [OF keeps_thread keeps_thread]]
        tick worker assms(1,2))
  have "keeps P (\<lambda>(_, _, _, w). w) (Analyzer_threads impl schedule pk1 receive1 pk2 receive2 (0, c, p, w))"
    unfolding Analyzer_threads_def by (rule keeps_while) (auto simp: assms(3) intro!: turn)
  then show ?thesis
    unfolding Analyzer_Run_def
    by (rule keeps_bind) (auto simp: bind_eq_Some_conv split: Option.bind_split intro!: keeps_pure)
qed

end
