(* ===== verification/Accounts.thy ===== *)
theory Accounts
  imports Modes Effects
begin

text \<open>
  An accounting of descriptors through the modes: which ones are open before and after an operation, on its
  normal way out and on the way of an exception.  With it, the producer over network sockets and pipes is
  shown to close everything it opens, however it ends.
\<close>

section \<open>Accounts\<close>

text \<open>Exactly the descriptors \<open>S\<close> are open; closing \<open>-1\<close> is no closing.\<close>

definition fds :: "history \<Rightarrow> int multiset \<Rightarrow> bool" where
  "fds h S \<longleftrightarrow> mset (opened h) = mset (filter (\<lambda>fd. fd \<noteq> - 1) (closed_fds h)) + S"

text \<open>
  \<open>acc A m own B\<close>: started with \<open>A\<close> open, beside any others, \<open>m\<close> ends with \<open>own x\<close> open when it returns \<open>x\<close>, and
  with \<open>B\<close> when it throws.
\<close>

definition acc :: "int multiset \<Rightarrow> 'a io \<Rightarrow> ('a \<Rightarrow> int multiset) \<Rightarrow> int multiset \<Rightarrow> bool" where
  "acc A m own B \<longleftrightarrow> (\<forall>K h r h' S. fds h (A + S) \<and> m K h = Some (r, h') \<longrightarrow>
     (case r of Inr x \<Rightarrow> fds h' (own x + S) | Inl e \<Rightarrow> is_exception e \<longrightarrow> fds h' (B + S)))"

lemma accI:
  assumes "\<And>K h r h' S. fds h (A + S) \<Longrightarrow> m K h = Some (r, h') \<Longrightarrow>
    (case r of Inr x \<Rightarrow> fds h' (own x + S) | Inl e \<Rightarrow> is_exception e \<longrightarrow> fds h' (B + S))"
  shows "acc A m own B"
  using assms unfolding acc_def by blast

lemma acc_Inr: "acc A m own B \<Longrightarrow> fds h (A + S) \<Longrightarrow> m K h = Some (Inr x, h') \<Longrightarrow> fds h' (own x + S)"
  unfolding acc_def by fastforce

lemma acc_Inl: "acc A m own B \<Longrightarrow> fds h (A + S) \<Longrightarrow> m K h = Some (Inl e, h') \<Longrightarrow> is_exception e \<Longrightarrow> fds h' (B + S)"
  unfolding acc_def by fastforce

lemma accD: "acc A m own B \<Longrightarrow> fds h (A + S) \<Longrightarrow> m K h = Some (r, h') \<Longrightarrow>
    (case r of Inr x \<Rightarrow> fds h' (own x + S) | Inl e \<Rightarrow> is_exception e \<longrightarrow> fds h' (B + S))"
  unfolding acc_def by blast

lemma acc_bind:
  assumes m: "acc A m own B" and f: "\<And>x K h h'. m K h = Some (Inr x, h') \<Longrightarrow> acc (own x) (f x) own' B"
  shows "acc A (io_bind m f) own' B"
proof (rule accI)
  fix K h r h' S assume A: "fds h (A + S)" and run: "io_bind m f K h = Some (r, h')"
  from run consider e where "m K h = Some (Inl e, h')" "r = Inl e"
    | x h1 where "m K h = Some (Inr x, h1)" "f x K h1 = Some (r, h')"
    by (auto simp: io_bind_run)
  then show "case r of Inr x \<Rightarrow> fds h' (own' x + S) | Inl e \<Rightarrow> is_exception e \<longrightarrow> fds h' (B + S)"
  proof cases
    case 1
    then show ?thesis using acc_Inl [OF m A] by simp
  next
    case 2
    show ?thesis by (rule accD [OF f [OF 2(1)] acc_Inr [OF m A 2(1)] 2(2)])
  qed
qed

lemma acc_return: "own x = A \<Longrightarrow> acc A (io_return x) own B"
  by (simp add: acc_def io_return_def)

lemma acc_throw: "acc A (io_throw e) own A"
  by (simp add: acc_def io_throw_def)

lemma acc_result: "acc A (io_of_result r) (\<lambda>_. A) A"
  by (auto simp: acc_def io_of_result_def split: sum.splits)

text \<open>What never throws leaves nothing to account for there.\<close>

lemma acc_print: "acc A (io_print s) (\<lambda>_. A) B"
  by (auto simp: acc_def io_print_def io_simps fds_def)

lemma acc_sleep: "acc A (io_sleep n) (\<lambda>_. A) B"
  by (auto simp: acc_def io_sleep_def io_simps fds_def)

text \<open>An operation that neither opens nor closes leaves every account as it is.\<close>

lemma acc_quiet: "quiet m \<Longrightarrow> acc A m (\<lambda>_. A) A"
  by (auto simp: acc_def quiet_def fds_def split: sum.splits)

lemma acc_guard:
  assumes m: "acc A m own B" and d: "acc B destroy (\<lambda>_. C) C"
  shows "acc A (io_guard destroy m) own C"
proof (rule accI)
  fix K h r h' S assume A: "fds h (A + S)" and run: "io_guard destroy m K h = Some (r, h')"
  show "case r of Inr x \<Rightarrow> fds h' (own x + S) | Inl e \<Rightarrow> is_exception e \<longrightarrow> fds h' (C + S)"
  proof (cases "\<exists>e h1. m K h = Some (Inl e, h1) \<and> is_exception e")
    case True
    then obtain e h1 where 1: "m K h = Some (Inl e, h1)" "is_exception e" by blast
    then have B: "fds h1 (B + S)" using acc_Inl [OF m A] by blast
    have "io_bind destroy (\<lambda>_. io_throw e) K h1 = Some (r, h')"
      using run 1 by (simp add: io_guard_def)
    then show ?thesis
      using acc_Inr [OF d B] acc_Inl [OF d B] by (auto simp: io_bind_run io_throw_run)
  next
    case False
    with run have "m K h = Some (r, h') \<and> (\<forall>e. r = Inl e \<longrightarrow> \<not> is_exception e)"
      by (auto simp: io_guard_def split: option.splits sum.splits prod.splits if_splits)
    then show ?thesis using acc_Inr [OF m A] by (cases r) simp_all
  qed
qed

lemma guard_throw: "io_guard destroy (io_throw e) K h = Some (r, h') \<Longrightarrow> \<exists>e'. r = Inl e'"
  by (auto simp: io_guard_def io_throw_def io_bind_run split: if_splits)

lemma acc_scope:
  assumes "acc A m (\<lambda>_. B) B" and "acc B destroy (\<lambda>_. C) C"
  shows "acc A (io_scope destroy m) (\<lambda>_. C) C"
  unfolding io_scope_def
  by (rule acc_bind, rule acc_guard [OF assms], rule acc_bind [OF assms(2)], rule acc_return, rule refl)

lemma acc_report:
  assumes "acc A m own B"
  shows "acc A (io_report what name m) own B"
proof (rule accI)
  fix K h r h' S assume A: "fds h (A + S)" and run: "io_report what name m K h = Some (r, h')"
  show "case r of Inr x \<Rightarrow> fds h' (own x + S) | Inl e \<Rightarrow> is_exception e \<longrightarrow> fds h' (B + S)"
  proof (cases "m K h")
    case (Some q)
    then show ?thesis
      using run acc_Inl [OF assms A] acc_Inr [OF assms A]
      by (cases q; cases "fst q")
        (auto simp: io_report_def io_print_def io_simps fds_def split: if_splits)
  qed (use run in \<open>simp add: io_report_def\<close>)
qed

section \<open>Clients\<close>

lemma quiet_print [simp]: "quiet (io_print s)"
  by (auto simp: quiet_def io_print_def io_simps)

lemma quiet_sleep [simp]: "quiet (io_sleep n)"
  by (auto simp: quiet_def io_sleep_def io_simps)

lemma quiet_return [simp]: "quiet (io_return x)"
  by (simp add: quiet_def io_return_def)

lemma quiet_bind: "quiet m \<Longrightarrow> (\<And>x. quiet (f x)) \<Longrightarrow> quiet (io_bind m f)"
  unfolding quiet_def io_bind_run by (intro allI impI, elim disjE exE conjE) (simp, metis)

lemma quiet_result [simp]: "quiet (io_of_result r)"
  by (simp add: quiet_def io_of_result_def)

text \<open>The three \<open>Run\<close> functions only send, receive and print.\<close>

lemma quiet_keeps:
  assumes "\<And>K h. keeps (\<lambda>h'. opened h' = opened h \<and> closed_fds h' = closed_fds h) world (f K h)"
    and "\<And>x. world x = snd x"
  shows "quiet (io_of_outcome f)"
  unfolding quiet_def
proof (intro allI impI)
  fix K h r h' assume "io_of_outcome f K h = Some (r, h')"
  then show "opened h' = opened h \<and> closed_fds h' = closed_fds h"
    using assms(1) [of h K] assms(2) by (auto simp: io_of_outcome_Some)
qed

lemma quiet_on_ring: "quiet (on_ring E name f)"
  by (auto simp: quiet_def on_ring_def split: option.splits sum.splits)

lemma quiet_links: "quiet (client_Send E c b)" "quiet (server_Receive E s b)"
  by (cases c; simp add: quiet_transfer quiet_on_ring NetSocketClient_Send_def PipeClient_Send_def UnixSocketClient_Send_def)
    (cases s; simp add: quiet_transfer quiet_on_ring NetSocketServer_Receive_def PipeServer_Receive_def UnixSocketServer_Receive_def)

lemma keeps_links:
  assumes "opened h = os \<and> closed_fds h = cs"
  shows "keeps (\<lambda>h. opened h = os \<and> closed_fds h = cs) id (sending (client_Send E c) K b h)"
    and "keeps (\<lambda>h. opened h = os \<and> closed_fds h = cs) snd (receiving (server_Receive E s) K b h)"
proof -
  have same: "keeps (\<lambda>h. opened h = os \<and> closed_fds h = cs) snd (io_outcome m K h)" if "quiet m" for m :: "'a io"
    using that assms by (auto simp: keeps_def io_outcome_Some quiet_def split: option.split sum.split)
  show "keeps (\<lambda>h. opened h = os \<and> closed_fds h = cs) id (sending (client_Send E c) K b h)"
    unfolding sending_def by (rule keeps_bind [OF same [OF quiet_links(1)]]) auto
  show "keeps (\<lambda>h. opened h = os \<and> closed_fds h = cs) snd (receiving (server_Receive E s) K b h)"
    unfolding receiving_def by (rule same [OF quiet_links(2)])
qed

lemma quiet_runs: "quiet (run_producer E p)" "quiet (run_consumer E c)" "quiet (run_analyzer E z)"
proof -
  show "quiet (run_producer E p)"
    unfolding run_producer_def
    by (intro quiet_keeps [where world = snd] keeps_bind [OF Producer_keeps [OF keeps_links(1) keeps_links(1)]]) auto
  show "quiet (run_consumer E c)"
    unfolding run_consumer_def
    by (intro quiet_keeps [where world = snd] keeps_bind [OF Consumer_keeps [OF keeps_links(2) keeps_links(1)]]) auto
  have "quiet (case x of (text, r) \<Rightarrow> io_bind (io_print text) (\<lambda>_. io_of_result r))" for x :: "string \<times> unit result"
    by (cases x) (simp add: quiet_bind)
  then show "quiet (run_analyzer E z)"
    unfolding run_analyzer_def
    by (intro quiet_bind quiet_keeps [where world = snd] Analyzer_keeps [OF keeps_links(2) keeps_links(2)]) auto
qed

definition owned :: "client \<Rightarrow> int multiset" where
  "owned c = (if client_fd c = - 1 then {#} else {#client_fd c#})"

lemma acc_close: "acc (owned c) (client_Close c) (\<lambda>_. {#}) {#}"
  by (cases c)
    (auto simp: acc_def fds_def owned_def client_fd_def io_simps NetSocketClient_Close_def PipeClient_Close_def
      SharedMemoryClient_Close_def UnixSocketClient_Close_def split: if_splits)

text \<open>Between two attempts to connect, a network client has its socket and a client of pipes nothing.\<close>

definition between_attempts :: "client \<Rightarrow> bool" where
  "between_attempts c \<longleftrightarrow> (case c of Net_Client n \<Rightarrow> True | Pipe_Client p \<Rightarrow> fifo_fd p = - 1 | _ \<Rightarrow> False)"

lemma make_client_between:
  assumes "t = kNetSocket \<or> t = kPipe"
  shows "make_client t cid K h = Some (Inr c, h') \<Longrightarrow> between_attempts c"
    and "acc {#} (make_client t cid) owned {#}"
  using assms
  by (auto simp: acc_def fds_def make_client_def between_attempts_def io_simps NetSocketClient_def PipeClient_def
      FileDescriptor_default_def FileDescriptor_assign_def owned_def client_fd_def split: if_splits)

lemma Connect_account:
  assumes "between_attempts c"
  shows "acc (owned c) (client_Connect E c) (\<lambda>(r, c'). owned c') {#}"
    and "client_Connect E c K h = Some (Inr (Inr False, c'), h') \<Longrightarrow> between_attempts c'"
proof -
  have "acc (owned c) (client_Connect E c) (\<lambda>(r, c'). owned c') {#} \<and>
    (client_Connect E c K h = Some (Inr (Inr False, c'), h') \<longrightarrow> between_attempts c')"
  proof (cases c)
    case (Net_Client n)
    then show ?thesis
      by (auto simp: acc_def client_Connect_def keeping_def NetSocketClient_Connect_def io_simps fds_def
          between_attempts_def split: if_splits)
  next
    case (Pipe_Client p)
    then show ?thesis using assms
      by (auto simp: acc_def client_Connect_def PipeClient_Connect_def io_simps fds_def between_attempts_def Let_def
          FileDescriptor_assign_def owned_def client_fd_def split: if_splits)
  qed (use assms in \<open>simp_all add: between_attempts_def\<close>)
  then show "acc (owned c) (client_Connect E c) (\<lambda>(r, c'). owned c') {#}"
    and "client_Connect E c K h = Some (Inr (Inr False, c'), h') \<Longrightarrow> between_attempts c'" by simp_all
qed

lemma attempt_account:
  assumes c: "between_attempts c"
  shows "acc (owned c) (connect_attempt E who c) (\<lambda>(b, c'). owned c') {#}"
    and "connect_attempt E who c K h = Some (Inr (False, c'), h') \<Longrightarrow> between_attempts c'"
proof -
  have turn: "acc (owned c') (case r of
      Inl e \<Rightarrow> io_guard (client_Close c') (io_throw e)
    | Inr b \<Rightarrow> if b then io_return (True, c')
        else io_bind (io_print s) (\<lambda>_. io_bind (io_sleep 1) (\<lambda>_. io_return (False, c'))))
      (\<lambda>(b, c'). owned c') {#}" for r c' s
    by (cases r)
      (auto intro!: acc_guard [OF acc_throw acc_close] acc_return acc_bind [OF acc_print] acc_bind [OF acc_sleep])
  show "acc (owned c) (connect_attempt E who c) (\<lambda>(b, c'). owned c') {#}"
    unfolding connect_attempt_def
    by (rule acc_bind [OF Connect_account(1) [OF c]]) (simp only: split_def turn [unfolded split_def])
  assume "connect_attempt E who c K h = Some (Inr (False, c'), h')"
  then obtain q c1 h1 where 1: "client_Connect E c K h = Some (Inr (q, c1), h1)"
    and 2: "(case q of
      Inl e \<Rightarrow> io_guard (client_Close c1) (io_throw e)
    | Inr b \<Rightarrow> if b then io_return (True, c1)
        else io_bind (io_print (who @ ''Cannot connect to '' @ client_GetConnectionAddress c1 @ endl)) (\<lambda>_.
          io_bind (io_sleep 1) (\<lambda>_. io_return (False, c1)))) K h1 = Some (Inr (False, c'), h')"
    unfolding connect_attempt_def io_bind_run by fastforce
  then have "q = Inr False \<and> c' = c1"
    by (cases q) (auto simp: io_simps io_print_def io_sleep_def dest: guard_throw split: if_splits)
  with 1 show "between_attempts c'" using Connect_account(2) [OF c] by simp
qed

lemma loop_account:
  assumes run: "connect_loop E who c K h = Some (r, h')" and "between_attempts c" and "fds h (owned c + S)"
  shows "case r of Inr c' \<Rightarrow> fds h' (owned c' + S) | Inl e \<Rightarrow> is_exception e \<longrightarrow> fds h' ({#} + S)"
proof -
  let ?P = "\<lambda>E who c K h y. between_attempts c \<longrightarrow> fds h (owned c + S) \<longrightarrow>
    (case fst y of Inr c' \<Rightarrow> fds (snd y) (owned c' + S) | Inl e \<Rightarrow> is_exception e \<longrightarrow> fds (snd y) ({#} + S))"
  have "?P E who c K h (r, h')"
  proof (rule connect_loop.raw_induct [where P = ?P, OF _ run], intro impI)
    fix loop E who c K h y
    assume IH: "\<And>E who c K h y. loop E who c K h = Some y \<Longrightarrow> ?P E who c K h y"
      and body: "Option.bind (connect_attempt E who c K h) (\<lambda>(r, h1).
        case r of Inl e \<Rightarrow> Some (Inl e, h1)
        | Inr (b, c') \<Rightarrow> if b then Some (Inr c', h1) else loop E who c' K h1) = Some y"
      and c: "between_attempts c" and h: "fds h (owned c + S)"
    obtain q h1 where q: "connect_attempt E who c K h = Some (q, h1)"
      and rest: "(case q of Inl e \<Rightarrow> Some (Inl e, h1)
        | Inr (b, c') \<Rightarrow> if b then Some (Inr c', h1) else loop E who c' K h1) = Some y"
      using body by (auto simp: bind_eq_Some_conv)
    note A = accD [OF attempt_account(1) [OF c] h q]
    show "case fst y of Inr c' \<Rightarrow> fds (snd y) (owned c' + S) | Inl e \<Rightarrow> is_exception e \<longrightarrow> fds (snd y) ({#} + S)"
    proof (cases q)
      case (Inl e)
      then show ?thesis using A rest by auto
    next
      case (Inr bc)
      obtain b c' where bc: "bc = (b, c')" by fastforce
      show ?thesis
      proof (cases b)
        case False
        then have "connect_attempt E who c K h = Some (Inr (False, c'), h1)" using q Inr bc by simp
        then have "between_attempts c'" using attempt_account(2) [OF c] by blast
        moreover have "loop E who c' K h1 = Some y" using rest Inr bc False by simp
        ultimately show ?thesis using IH A Inr bc by auto
      qed (use A rest Inr bc in auto)
    qed
  qed
  with assms(2,3) show ?thesis by (simp split: sum.splits)
qed

section \<open>The producer\<close>

lemma quiet_tune [simp]:
  "quiet (set_no_delay c (io_print s))" "quiet (set_no_delay c (io_return ()))"
  "quiet (set_buffer_size c who n)" "quiet (connected who)"
proof -
  have d: "quiet m" if "client_SetNoDelay c = Some m" for m
    using that by (cases c) (auto simp: quiet_def NetSocketClient_SetNoDelay_def io_simps)
  show "quiet (set_no_delay c (io_print s))" "quiet (set_no_delay c (io_return ()))"
    by (cases "client_SetNoDelay c"; simp add: set_no_delay_def d quiet_bind)+
  have z: "quiet (set_size k)" "quiet get_size" if "sized_client c = Some (set_size, get_size)" for set_size get_size k
    using that
    by (cases c; auto simp: quiet_def io_simps NetSocketClient_SetBufferSize_def NetSocketClient_GetBufferSize_def
        PipeClient_SetBufferSize_def PipeClient_GetBufferSize_def UnixSocketClient_SetBufferSize_def
        UnixSocketClient_GetBufferSize_def)+
  show "quiet (set_buffer_size c who n)"
    by (cases "sized_client c") (auto simp: set_buffer_size_def report_size_def z quiet_bind split: option.split)
  show "quiet (connected who)" by (simp add: connected_def)
qed

text \<open>A client that is made, connected and tuned is owned, and is gone when any of this throws.\<close>

lemma client_account:
  assumes t: "t = kNetSocket \<or> t = kPipe" and q: "\<And>c. quiet (tune c)"
  shows "acc {#} (io_bind (make_client t cid) (\<lambda>c. io_bind (connect_loop E who c) (\<lambda>c.
    io_guard (client_Close c) (io_bind (tune c) (\<lambda>_. io_return c))))) owned {#}"
proof (rule acc_bind [OF make_client_between(2) [OF t]])
  fix c K h h' assume "make_client t cid K h = Some (Inr c, h')"
  then have b: "between_attempts c" using make_client_between(1) [OF t] by blast
  have "acc (owned c) (connect_loop E who c) owned {#}"
    by (rule accI) (rule loop_account [OF _ b])
  moreover have "acc (owned c) (io_guard (client_Close c) (io_bind (tune c) (\<lambda>_. io_return c))) owned {#}" for c
    by (rule acc_guard [OF _ acc_close], rule acc_bind [OF acc_quiet [OF q]], rule acc_return, rule refl)
  ultimately show "acc (owned c) (io_bind (connect_loop E who c) (\<lambda>c.
      io_guard (client_Close c) (io_bind (tune c) (\<lambda>_. io_return c)))) owned {#}"
    by (rule acc_bind)
qed

lemma producer_clients_account:
  assumes "params_type p = kNetSocket \<or> params_type p = kPipe"
  shows "acc {#} (Producer_MeasurerClient E p) owned {#}" and "acc {#} (Producer_ConsumerClient E p) owned {#}"
  unfolding Producer_MeasurerClient_def Producer_ConsumerClient_def Let_def
  using client_account [OF assms, of "\<lambda>c. io_bind (connected who) (\<lambda>_. set_no_delay c (io_return ()))" for who]
    client_account [OF assms, of "\<lambda>c. io_bind (connected who) (\<lambda>_. io_bind (set_buffer_size c who (params_buffer_size p))
      (\<lambda>_. set_no_delay c (io_print s)))" for who s]
  by (simp_all add: io_bind_assoc quiet_bind)

definition plain_types :: "producer_args \<Rightarrow> bool" where
  "plain_types a \<longleftrightarrow> (\<forall>t cid. pa_connection a = Some (t, cid) \<or> pa_measurer a = Some (t, cid) \<longrightarrow>
     t = kNetSocket \<or> t = kPipe)"

definition producer_owned :: "producer \<Rightarrow> int multiset" where
  "producer_owned p = owned (pr_measurer_client p) + owned (pr_consumer_client p)"

lemma connection_of_type: "connection_of c n = Inr p \<Longrightarrow> \<exists>cid. c = Some (params_type p, cid)"
  by (auto simp: connection_of_def initialised_def rbind_Inr split: option.splits)

lemma acc_frame:
  assumes m: "acc {#} m own {#}" and own: "own' = (\<lambda>x. A + own x)"
  shows "acc A m own' A"
proof (rule accI)
  fix K h r h' S assume "fds h (A + S)" and run: "m K h = Some (r, h')"
  then have "fds h ({#} + (A + S))" by simp
  from accD [OF m this run] show "case r of Inr x \<Rightarrow> fds h' (own' x + S) | Inl e \<Rightarrow> is_exception e \<longrightarrow> fds h' (A + S)"
    by (cases r) (simp_all add: own ac_simps)
qed

lemma acc_skip: "(\<And>x K h h'. m K h = Some (Inr x, h') \<Longrightarrow> acc {#} (f x) own {#}) \<Longrightarrow> quiet m \<Longrightarrow>
    acc {#} (io_bind m f) own {#}"
  by (rule acc_bind [OF acc_quiet]) simp_all

lemma create_account:
  assumes "plain_types a"
  shows "acc {#} (CreateProducer E a) producer_owned {#}"
  unfolding CreateProducer_steps
proof ((rule acc_skip [OF _ quiet_result])+, rule acc_skip [OF _ quiet_print], (rule acc_skip [OF _ quiet_result])+)
  fix mcp ccp g m cpp mpp and K1 K2 :: kernel and h1 h1' h2 h2' :: history
  assume "io_of_result (Producer_MeasurerClientParams a) K1 h1 = Some (Inr mcp, h1')"
    and "io_of_result (Producer_ConsumerClientParams a) K2 h2 = Some (Inr ccp, h2')"
  then have "\<exists>cid. pa_measurer a = Some (params_type mcp, cid)" "\<exists>cid. pa_connection a = Some (params_type ccp, cid)"
    by (auto simp: io_of_result_run Producer_MeasurerClientParams_def Producer_ConsumerClientParams_def
        dest: connection_of_type)
  then have "params_type mcp = kNetSocket \<or> params_type mcp = kPipe" "params_type ccp = kNetSocket \<or> params_type ccp = kPipe"
    using assms unfolding plain_types_def by blast+
  note mc = producer_clients_account(1) [OF this(1)] and cc = producer_clients_account(2) [OF this(2)]
  show "acc {#} (io_bind (Producer_MeasurerClient E mcp) (\<lambda>mc. io_guard (client_Close mc)
       (io_bind (Producer_ConsumerClient E ccp) (\<lambda>cc.
        io_return \<lparr>pr_generator = g, pr_measurer = m,
          pr_consumer_packer = CreatePacker (env_host E) cpp, pr_consumer_client = cc,
          pr_measurer_packer = Producer_MeasurerPacker E mpp, pr_measurer_client = mc\<rparr>)))) producer_owned {#}"
    by (rule acc_bind [OF mc], rule acc_guard [OF _ acc_close], rule acc_bind [OF acc_frame [OF cc refl]],
        rule acc_return) (simp add: producer_owned_def)
qed

lemma destroy_account: "acc (producer_owned p) (producer_destroy p) (\<lambda>_. {#}) {#}"
proof -
  have "acc (owned d + owned c) (client_Close c) (\<lambda>_. owned d) B" for c d B
    by (cases c)
      (auto simp: acc_def fds_def owned_def client_fd_def io_simps NetSocketClient_Close_def PipeClient_Close_def
        SharedMemoryClient_Close_def UnixSocketClient_Close_def split: if_splits)
  from this [of "pr_consumer_client p" "pr_measurer_client p"] show ?thesis
    unfolding producer_destroy_def producer_owned_def
    by (intro acc_bind [OF _ acc_close]) (simp add: add.commute)
qed

section \<open>Properties\<close>

text \<open>C34: over network sockets and pipes the producer closes everything: however long it waits for its servers,
  whatever the kernel answers, and whether it finishes or throws, before, during or after its \<open>Run\<close>, every
  descriptor it opened has been closed exactly once at the end.\<close>

theorem producer_closes_all:
  assumes "plain_types a" and "runAsProducer E a K [] = Some (r, h)"
    and "\<forall>e. r = Inl e \<longrightarrow> is_exception e"
  shows "mset (opened h) = mset (filter (\<lambda>fd. fd \<noteq> - 1) (closed_fds h))"
proof -
  have body: "acc (producer_owned p) (io_scope (producer_destroy p)
      (io_bind (io_print s1) (\<lambda>_. io_bind (io_sleep 3) (\<lambda>_. io_bind (io_print s2) (\<lambda>_.
       io_bind (run_producer E p) (\<lambda>_. io_bind (io_print s3) (\<lambda>_. io_return 0))))))) (\<lambda>_. {#}) {#}" for p s1 s2 s3
    by (rule acc_scope [OF acc_quiet destroy_account]) (simp add: quiet_bind quiet_runs)
  have "acc {#} (runAsProducer E a) (\<lambda>_. {#}) {#}"
    unfolding runAsProducer_def
    by (intro acc_report acc_skip quiet_result acc_bind [OF create_account [OF assms(1)] body])
  from accD [OF this, of "[]" "{#}" K r h] assms(2,3) show ?thesis
    by (cases r) (simp_all add: fds_def)
qed

text \<open>The measurer's host is not found: the socket that was made for it is closed before the exception is reported.\<close>

definition example_ring :: ring_buffer where
  "example_ring = \<lparr>rb_capacity = 4096, rb_is_initialized = True, rb_producer_index = 0, rb_consumer_index = 0,
     rb_ring = replicate 4096 0\<rparr>"

definition example_environment :: environment where
  "example_environment = \<lparr>env_host = kLittle, env_impl = exact_vectors, env_string_max = 2 ^ 62,
     env_string_memory = (\<lambda>n. n \<le> 2 ^ 30), env_stack = CHR ''x'',
     env_flags = (\<lambda>_ _. True), env_affinity = (\<lambda>_. 0), env_what = (\<lambda>_. ''what''),
     env_clock = (\<lambda>k. time_point (of_nat (10 * k))), env_schedule = even, env_buffer = (\<lambda>k. (4096, replicate kBufferCapacityInBytes 0)),
     env_ring = (\<lambda>_ _. example_ring), env_loads = (\<lambda>_ _ _. 0)\<rparr>"

definition example_producer_args :: producer_args where
  "example_producer_args = \<lparr>pa_chunks_size = Some 20, pa_chunks_total_count = Some 2,
     pa_connection = Some (kPipe, ''data''), pa_connection_buffer_size = None,
     pa_measurer = Some (kNetSocket, ''nowhere:8100''), pa_cpu = - 1\<rparr>"

definition no_such_host :: kernel where
  "no_such_host h c = (case c of Sys_gethostbyname _ \<Rightarrow> Some (Fails (Other_Errno 1)) | _ \<Rightarrow> obliging_kernel h c)"

lemma example_producer_args_parts:
  "Producer_MeasurerPackerParams example_producer_args = Inr kPipe"
  "Producer_MeasurerClientParams example_producer_args =
    Inr \<lparr>params_type = kNetSocket, params_id = ''nowhere:8100'', params_buffer_size = None\<rparr>"
  "Producer_ConsumerPackerParams example_producer_args = Inr kPipe"
  "Producer_ConsumerClientParams example_producer_args =
    Inr \<lparr>params_type = kPipe, params_id = ''data'', params_buffer_size = None\<rparr>"
  by (simp_all add: example_producer_args_def Producer_MeasurerPackerParams_def Producer_MeasurerClientParams_def
      Producer_ConsumerPackerParams_def Producer_ConsumerClientParams_def connection_of_def initialised_def
      optional_size_def)

lemma example_measurer_client:
  "\<exists>h'. Producer_MeasurerClient example_environment
     \<lparr>params_type = kNetSocket, params_id = ''nowhere:8100'', params_buffer_size = None\<rparr> no_such_host h =
     Some (Inl (Runtime_Error ''gethostbyname() failed''), h')"
proof -
  have "ParseHostAndPort ''nowhere:8100'' = Inr \<lparr>host = ''nowhere'', port = 8100\<rparr>"
    by (simp add: ParseHostAndPort_def substr_def substr_from_def stoi_def Let_def
        is_space_def scan_int_def scan_digits_def is_digit_def char_digit_def in_int_def)
  then show ?thesis
    by (auto simp: Producer_MeasurerClient_def make_client_def Let_def io_bind_def io_of_result_def NetSocketClient_def
        sys_or_throw_run io_return_def no_such_host_def obliging_kernel_def connect_loop.simps connect_attempt_def
        client_Connect_def keeping_def NetSocketClient_Connect_def io_guard_def io_throw_def NetSocketClient_Close_def
        sys_run)
qed

theorem producer_closes_all_witness:
  "\<exists>h. runAsProducer example_environment example_producer_args no_such_host [] =
      Some (Inl (Runtime_Error ''gethostbyname() failed''), h) \<and>
    mset (opened h) = mset (filter (\<lambda>fd. fd \<noteq> - 1) (closed_fds h))"
proof -
  let ?a = example_producer_args and ?E = example_environment
  obtain g where g: "SimpleRoundGenerator exact_vectors (2 ^ 62) 20 2 = Inr g"
    using generator_run [of 2 20 "2 ^ 62" exact_vectors] by (auto simp: exact_vectors_def)
  obtain m where m: "Measurer exact_vectors 2 = Inr m"
    using Measurer_rel [of exact_vectors 2] by (auto simp: exact_vectors_def)
  have "\<exists>h'. CreateProducer ?E ?a no_such_host [] = Some (Inl (Runtime_Error ''gethostbyname() failed''), h')"
  proof -
    obtain h1 where h1: "io_print (buffer_capacity_message ''producer'') no_such_host [] = Some (Inr (), h1)"
      by (simp add: io_print_def io_bind_def sys_run no_such_host_def obliging_kernel_def io_return_def)
    obtain h2 where "Producer_MeasurerClient ?E
        \<lparr>params_type = kNetSocket, params_id = ''nowhere:8100'', params_buffer_size = None\<rparr> no_such_host h1 =
        Some (Inl (Runtime_Error ''gethostbyname() failed''), h2)"
      using example_measurer_client by blast
    then show ?thesis
      using g m h1
      by (auto simp: CreateProducer_steps io_bind_def io_of_result_def example_producer_args_parts
          example_producer_args_def [THEN arg_cong [of _ _ pa_chunks_size]]
          example_producer_args_def [THEN arg_cong [of _ _ pa_chunks_total_count]]
          example_environment_def [THEN arg_cong [of _ _ env_impl]]
          example_environment_def [THEN arg_cong [of _ _ env_string_max]] initialised_def)
  qed
  then obtain h1 where h1: "CreateProducer ?E ?a no_such_host [] = Some (Inl (Runtime_Error ''gethostbyname() failed''), h1)"
    by blast
  have "SchedSetAffinity (env_affinity ?E) (pa_cpu ?a) = Inr ()"
    by (simp add: SchedSetAffinity_def example_producer_args_def)
  with h1 have "\<exists>h. runAsProducer ?E ?a no_such_host [] =
      Some (Inl (Runtime_Error ''gethostbyname() failed''), h)"
    by (simp add: runAsProducer_def io_report_def io_bind_def io_of_result_def io_print_def sys_run
        no_such_host_def obliging_kernel_def io_return_def io_throw_def)
  then obtain h where h: "runAsProducer ?E ?a no_such_host [] =
      Some (Inl (Runtime_Error ''gethostbyname() failed''), h)" by blast
  have "plain_types ?a" by (simp add: plain_types_def example_producer_args_def)
  with producer_closes_all [OF _ h] h show ?thesis by simp
qed

end
