(* ===== verification/Pairing.thy ===== *)
theory Pairing
  imports Accounts
begin

text \<open>
  What two modes make of one connection: which packers they choose at its two ends, and what becomes of the
  time points sent over it; and how a client waits until its server is there.
\<close>

section \<open>The packer of a connection type\<close>

definition chosen_bytes :: "Endianness \<Rightarrow> ConnectionType \<Rightarrow> u64 \<Rightarrow> byte list" where
  "chosen_bytes h t w = (if t = kNetSocket then rev (le_bytes 8 (unat w)) else obj_bytes h 8 (unat w))"

definition chosen_word :: "Endianness \<Rightarrow> ConnectionType \<Rightarrow> byte list \<Rightarrow> u64" where
  "chosen_word h t bs = of_nat (if t = kNetSocket then le_nat (rev bs) else obj_nat h bs)"

interpretation chosen: word_packer "CreatePacker h t" "chosen_bytes h t" "chosen_word h t" for h t
proof (cases "t = kNetSocket")
  case True
  have e: "chosen_bytes h t = (\<lambda>w. rev (le_bytes 8 (unat w)))" by (rule ext) (simp add: chosen_bytes_def True)
  have d: "chosen_word h t = wire_word h h"
    by (rule ext) (simp add: chosen_word_def True wire_word_def obj_nat_def split: Endianness.split)
  have p: "CreatePacker h t = NetworkPacker h h"
    by (cases h) (simp_all add: CreatePacker_def True checker_value)
  show "word_packer (CreatePacker h t) (chosen_bytes h t) (chosen_word h t)"
    using wire_network [of h] by (simp add: e d p checker_value)
next
  case False
  have "chosen_bytes h t = (\<lambda>w. obj_bytes h 8 (unat w))" "chosen_word h t = (\<lambda>bs. of_nat (obj_nat h bs))"
    by (rule ext, simp add: chosen_bytes_def chosen_word_def False)+
  moreover have "CreatePacker h t = LocalPacker h"
    using False by (cases t) (simp_all add: CreatePacker_def)
  ultimately show "word_packer (CreatePacker h t) (chosen_bytes h t) (chosen_word h t)"
    using local_packer.word_packer_axioms [of h] by simp
qed

text \<open>A number with its eight bytes in the opposite order.\<close>

definition swapped :: "u64 \<Rightarrow> u64" where
  "swapped w = of_nat (le_nat (rev (le_bytes 8 (unat w))))"

text \<open>What the packer for \<open>t'\<close> on host \<open>h'\<close> makes of a number packed for \<open>t\<close> on \<open>h\<close>.\<close>

definition misread :: "Endianness \<Rightarrow> ConnectionType \<Rightarrow> Endianness \<Rightarrow> ConnectionType \<Rightarrow> u64 \<Rightarrow> u64" where
  "misread h t h' t' w =
     (let big = (t = kNetSocket \<or> h = kBig); big' = (t' = kNetSocket \<or> h' = kBig) in
      if big = big' then w else swapped w)"

lemma chosen_misread: "chosen_word h' t' (chosen_bytes h t w) = misread h t h' t' w"
proof -
  have "unat w < 256 ^ 8" using unsigned_less [of w] by simp
  then show ?thesis
    by (cases h; cases h')
      (simp_all add: chosen_word_def chosen_bytes_def misread_def swapped_def obj_bytes_def obj_nat_def byte_simps)
qed

lemma reads_chosen:
  assumes "length bs = 8"
  shows "reads (DeserializeImpl (CreatePacker h t)) bs (chosen_word h t bs)"
  unfolding reads_def
proof (intro allI impI)
  fix b assume b: "buffer_inv b" "take (length bs) (unread b) = bs"
  then have "rd b + 8 \<le> kBufferCapacityInBytes" using reads_fits [OF b] assms by simp
  then show "\<exists>b'. DeserializeImpl (CreatePacker h t) b = Inr (chosen_word h t bs, b') \<and> buffer_reads b (length bs) b'"
    using chosen.des_word_ok [OF b(1)] b(2) assms by simp
qed

text \<open>\<open>p\<close> sends the tick \<open>x\<close> as bytes that \<open>q\<close> reads as \<open>y\<close>.\<close>

definition tick_arrives :: "packer \<Rightarrow> packer \<Rightarrow> time_point \<Rightarrow> time_point \<Rightarrow> bool" where
  "tick_arrives p q x y \<longleftrightarrow> (\<exists>bs. writes (time_point_Serialize p x) bs \<and> reads (time_point_Deserialize q) bs y)"

lemma chosen_tick:
  "tick_arrives (CreatePacker h t) (CreatePacker h' t') (time_point w) (time_point (misread h t h' t' w))"
  unfolding tick_arrives_def
proof (intro exI conjI)
  let ?bs = "chosen_bytes h t w"
  show "writes (time_point_Serialize (CreatePacker h t) (time_point w)) ?bs"
    using writes_tick [OF chosen.word_packer_axioms, of h t "time_point w"] by (simp add: tick_bytes_def)
  have "reads (DeserializeImpl (CreatePacker h' t')) ?bs (misread h t h' t' w)"
    using reads_chosen [of ?bs h' t'] by (simp add: chosen.length_enc chosen_misread)
  from reads_seq [OF this reads_return, of time_point]
  show "reads (time_point_Deserialize (CreatePacker h' t')) ?bs (time_point (misread h t h' t' w))"
    by (simp add: time_point_Deserialize_def [abs_def])
qed

section \<open>The packers of the modes\<close>

lemma io_guard_Inr [simp]: "io_guard destroy m K h = Some (Inr x, h') \<longleftrightarrow> m K h = Some (Inr x, h')"
  by (auto simp: io_guard_def io_bind_run io_throw_run split: option.splits sum.splits prod.splits)

lemma created_producer:
  assumes "CreateProducer E a K h = Some (Inr p, h')"
  shows "\<exists>t cid. pa_connection a = Some (t, cid) \<and> pr_measurer_packer p = CreatePacker (env_host E) t \<and>
    pr_consumer_packer p = CreatePacker (env_host E) t"
  using assms
  by (auto simp: CreateProducer_steps io_bind_run io_of_result_run io_return_run Producer_MeasurerPackerParams_def
      Producer_ConsumerPackerParams_def Producer_MeasurerPacker_def rbind_Inr initialised_def split: option.splits)

lemma created_consumer:
  assumes "CreateConsumer E a K h = Some (Inr c, h')"
  shows "\<exists>t cid. ca_connection a = Some (t, cid) \<and> co_measurer_packer c = CreatePacker (env_host E) t \<and>
    co_producer_packer c = CreatePacker (env_host E) t"
  using assms
  by (auto simp: CreateConsumer_steps io_bind_run io_of_result_run io_return_run Consumer_MeasurerPackerParams_def
      Consumer_ProducerPackerParams_def Consumer_MeasurerPacker_def Consumer_ProducerPacker_def rbind_Inr initialised_def split: option.splits)

lemma created_analyzer:
  assumes "CreateAnalyzer E a K h = Some (Inr z, h')"
  shows "\<exists>t cid t' cid'. aa_measurer_consumer a = Some (t, cid) \<and> an_producer_packer z = CreatePacker (env_host E) t \<and>
    aa_measurer_producer a = Some (t', cid') \<and> an_consumer_packer z = CreatePacker (env_host E) t'"
  using assms
  by (auto simp: CreateAnalyzer_steps io_bind_run io_of_result_run io_return_run Analyzer_ConsumerPackerParams_def
      Analyzer_ProducerPackerParams_def Analyzer_ConsumerPacker_def Analyzer_ProducerPacker_def rbind_Inr initialised_def split: option.splits)

section \<open>Properties\<close>

text \<open>C35: the ticks of the producer are packed for the type of its connection to the consumer and unpacked for
  the type of the consumer's measurer connection, and the other way round for the consumer's ticks: so
  a tick arrives as it was sent when these agree on whether they are network sockets, on hosts of
  one byte order, and otherwise, on a little-endian host, with its eight bytes reversed.\<close>

theorem ticks_between_modes:
  assumes "CreateProducer Ep ap Kp hp = Some (Inr p, hp')"
    and "CreateConsumer Ec ac Kc hc = Some (Inr c, hc')"
    and "CreateAnalyzer Ea aa Ka ha = Some (Inr z, ha')"
  shows "\<exists>t1 i1 t2 i2 t3 i3 t4 i4.
    pa_connection ap = Some (t1, i1) \<and> ca_connection ac = Some (t2, i2) \<and>
    aa_measurer_consumer aa = Some (t3, i3) \<and> aa_measurer_producer aa = Some (t4, i4) \<and>
    tick_arrives (pr_measurer_packer p) (an_producer_packer z) (time_point w)
      (time_point (misread (env_host Ep) t1 (env_host Ea) t3 w)) \<and>
    tick_arrives (co_measurer_packer c) (an_consumer_packer z) (time_point w)
      (time_point (misread (env_host Ec) t2 (env_host Ea) t4 w))"
  using created_producer [OF assms(1)] created_consumer [OF assms(2)] created_analyzer [OF assms(3)]
    chosen_tick by fastforce

text \<open>The producer's ticks go over a network socket, everything else over pipes.\<close>

definition mixed_producer :: producer_args where
  "mixed_producer = \<lparr>pa_chunks_size = Some 20, pa_chunks_total_count = Some 2, pa_connection = Some (kPipe, ''d''),
     pa_connection_buffer_size = None, pa_measurer = Some (kNetSocket, ''p:8100''), pa_cpu = - 1\<rparr>"

definition mixed_consumer :: consumer_args where
  "mixed_consumer = \<lparr>ca_chunks_total_count = Some 2, ca_connection = Some (kPipe, ''d''),
     ca_connection_buffer_size = None, ca_measurer = Some (kPipe, ''c''), ca_cpu = - 1\<rparr>"

definition mixed_analyzer :: analyzer_args where
  "mixed_analyzer = \<lparr>aa_chunks_total_count = Some 2, aa_measurer_producer = Some (kNetSocket, '':8100''),
     aa_measurer_consumer = Some (kPipe, ''c'')\<rparr>"

lemmas run_simps = io_bind_def io_of_result_def io_return_def io_throw_def io_guard_def io_print_def io_sleep_def
  sys_run sys_or_throw_run

lemmas net_run = make_client_def client_Connect_def keeping_def NetSocketClient_def NetSocketClient_Connect_def
  NetSocketClient_SetNoDelay_def set_no_delay_def connected_def NetSocketServer_def NetSocketServer_Accept_def
  make_server_def FileDescriptor_assign_def connect_loop.simps connect_attempt_def

lemmas pipe_run = PipeClient_def PipeClient_Connect_def set_buffer_size_def report_size_def PipeClient_GetBufferSize_def
  PipeServer_def

lemma example_hosts:
  "ParseHostAndPort ''p:8100'' = Inr \<lparr>host = ''p'', port = 8100\<rparr>"
  "ParseHostAndPort '':8100'' = Inr \<lparr>host = [], port = 8100\<rparr>"
  by (simp_all add: ParseHostAndPort_def substr_def substr_from_def stoi_def Let_def
      is_space_def scan_int_def scan_digits_def is_digit_def char_digit_def in_int_def)

definition at_pipe :: "string \<Rightarrow> connection_params" where
  "at_pipe cid = \<lparr>params_type = kPipe, params_id = cid, params_buffer_size = None\<rparr>"

definition at_port :: "string \<Rightarrow> connection_params" where
  "at_port cid = \<lparr>params_type = kNetSocket, params_id = cid, params_buffer_size = None\<rparr>"

lemma obliging_clients:
  "\<exists>c h'. Producer_MeasurerClient E (at_port ''p:8100'') obliging_kernel h = Some (Inr c, h')"
  "\<exists>c h'. Producer_ConsumerClient E (at_pipe cid) obliging_kernel h = Some (Inr c, h')"
  "\<exists>c h'. Consumer_MeasurerClient E (at_pipe cid) obliging_kernel h = Some (Inr c, h')"
  by (simp_all add: at_port_def at_pipe_def example_hosts Producer_MeasurerClient_def Producer_ConsumerClient_def
      Consumer_MeasurerClient_def net_run pipe_run run_simps obliging_kernel_def Let_def)

lemma obliging_servers:
  "\<exists>s h'. Consumer_ProducerServer E (at_pipe cid) obliging_kernel h = Some (Inr s, h')"
  "\<exists>s h'. Analyzer_ProducerServer E (at_port '':8100'') obliging_kernel h = Some (Inr s, h')"
  "\<exists>s h'. Analyzer_ConsumerServer E (at_pipe cid) obliging_kernel h = Some (Inr s, h')"
  by (simp_all add: at_port_def at_pipe_def example_hosts Consumer_ProducerServer_def Analyzer_ConsumerServer_def Analyzer_ProducerServer_def
      net_run pipe_run run_simps obliging_kernel_def Let_def)

lemma mixed_params:
  "Producer_MeasurerPackerParams mixed_producer = Inr kPipe" "Producer_ConsumerPackerParams mixed_producer = Inr kPipe"
  "Producer_MeasurerClientParams mixed_producer = Inr (at_port ''p:8100'')"
  "Producer_ConsumerClientParams mixed_producer = Inr (at_pipe ''d'')"
  "Consumer_MeasurerPackerParams mixed_consumer = Inr kPipe" "Consumer_ProducerPackerParams mixed_consumer = Inr kPipe"
  "Consumer_MeasurerClientParams mixed_consumer = Inr (at_pipe ''c'')"
  "Consumer_ProducerServerParams mixed_consumer = Inr (at_pipe ''d'')"
  "Analyzer_ConsumerPackerParams mixed_analyzer = Inr kPipe" "Analyzer_ProducerPackerParams mixed_analyzer = Inr kNetSocket"
  "Analyzer_ConsumerServerParams mixed_analyzer = Inr (at_pipe ''c'')"
  "Analyzer_ProducerServerParams mixed_analyzer = Inr (at_port '':8100'')"
  by (simp_all add: mixed_producer_def mixed_consumer_def mixed_analyzer_def Producer_MeasurerPackerParams_def
      Producer_ConsumerPackerParams_def Producer_MeasurerClientParams_def Producer_ConsumerClientParams_def
      Consumer_MeasurerPackerParams_def Consumer_ProducerPackerParams_def Consumer_MeasurerClientParams_def
      Consumer_ProducerServerParams_def Analyzer_ConsumerPackerParams_def Analyzer_ProducerPackerParams_def
      Analyzer_ConsumerServerParams_def Analyzer_ProducerServerParams_def
      connection_of_def initialised_def optional_size_def at_pipe_def at_port_def)

lemma obliging_print: "\<exists>x h'. io_print s obliging_kernel h = Some (Inr x, h')"
  by (simp add: run_simps obliging_kernel_def)

lemma io_returns: "\<exists>y h'. io_return x K h = Some (Inr y, h')"
  by (simp add: io_return_def)

lemma io_guard_then: "\<exists>x h'. m K h = Some (Inr x, h') \<Longrightarrow> \<exists>x h'. io_guard destroy m K h = Some (Inr x, h')"
  by simp

lemma io_then:
  assumes "\<exists>x h1. m K h = Some (Inr x, h1)" and "\<And>x h1. \<exists>y h2. f x K h1 = Some (Inr y, h2)"
  shows "\<exists>y h2. io_bind m f K h = Some (Inr y, h2)"
  using assms by (fastforce simp: io_bind_run)

lemma io_then_result: "r = Inr x \<Longrightarrow> io_bind (io_of_result r) f = f x"
  by (intro ext) (simp add: io_bind_def io_of_result_def)

lemma example_vectors:
  "\<exists>g. SimpleRoundGenerator (env_impl example_environment) (env_string_max example_environment) 20 2 = Inr g"
  "\<exists>m. Measurer (env_impl example_environment) 2 = Inr m"
  using generator_run [of 2 20 "2 ^ 62" exact_vectors] Measurer_rel [of exact_vectors 2]
  by (auto simp: exact_vectors_def example_environment_def)

lemma mixed_created:
  "\<exists>p h. CreateProducer example_environment mixed_producer obliging_kernel [] = Some (Inr p, h)"
  "\<exists>c h. CreateConsumer example_environment mixed_consumer obliging_kernel [] = Some (Inr c, h)"
  "\<exists>z h. CreateAnalyzer example_environment mixed_analyzer obliging_kernel [] = Some (Inr z, h)"
proof -
  obtain g m where g: "SimpleRoundGenerator (env_impl example_environment) (env_string_max example_environment) 20 2 = Inr g"
    and m: "Measurer (env_impl example_environment) 2 = Inr m"
    using example_vectors by blast
  have n: "initialised (pa_chunks_size mixed_producer) = Inr 20"
    "initialised (pa_chunks_total_count mixed_producer) = Inr 2"
    "initialised (ca_chunks_total_count mixed_consumer) = Inr 2"
    "initialised (aa_chunks_total_count mixed_analyzer) = Inr 2"
    by (simp_all add: initialised_def mixed_producer_def mixed_consumer_def mixed_analyzer_def)
  note results = n [THEN io_then_result] mixed_params [THEN io_then_result] g [THEN io_then_result] m [THEN io_then_result]
  note runs = io_then io_guard_then obliging_print obliging_clients obliging_servers io_returns
  show "\<exists>p h. CreateProducer example_environment mixed_producer obliging_kernel [] = Some (Inr p, h)"
    unfolding CreateProducer_steps results by (intro runs)
  show "\<exists>c h. CreateConsumer example_environment mixed_consumer obliging_kernel [] = Some (Inr c, h)"
    unfolding CreateConsumer_steps results by (intro runs)
  show "\<exists>z h. CreateAnalyzer example_environment mixed_analyzer obliging_kernel [] = Some (Inr z, h)"
    unfolding CreateAnalyzer_steps results by (intro runs)
qed

text \<open>The tick 1 of the consumer arrives as \<open>2 ^ 56\<close>.\<close>

theorem ticks_between_modes_witness:
  "\<exists>c z hc ha. CreateConsumer example_environment mixed_consumer obliging_kernel [] = Some (Inr c, hc) \<and>
    CreateAnalyzer example_environment mixed_analyzer obliging_kernel [] = Some (Inr z, ha) \<and>
    tick_arrives (co_measurer_packer c) (an_consumer_packer z) (time_point 1) (time_point (2 ^ 56))"
proof -
  obtain p c z hp hc ha where created: "CreateProducer example_environment mixed_producer obliging_kernel [] = Some (Inr p, hp)"
    "CreateConsumer example_environment mixed_consumer obliging_kernel [] = Some (Inr c, hc)"
    "CreateAnalyzer example_environment mixed_analyzer obliging_kernel [] = Some (Inr z, ha)"
    using mixed_created by blast
  have "misread kLittle kPipe kLittle kNetSocket 1 = 2 ^ 56"
    by (simp add: misread_def swapped_def le_bytes_numeral)
  then show ?thesis
    using ticks_between_modes [OF created, of 1] created
    by (auto simp: mixed_consumer_def mixed_analyzer_def example_environment_def)
qed

section \<open>Waiting for the server\<close>

definition sleeps :: "history \<Rightarrow> nat" where
  "sleeps h = length (filter (\<lambda>(c, r). c = Sys_sleep 1) h)"

lemma sleeps_simps [simp]:
  "sleeps [] = 0" "sleeps ((c, r) # h) = (if c = Sys_sleep 1 then Suc (sleeps h) else sleeps h)"
  "sleeps (h @ h') = sleeps h + sleeps h'"
  by (simp_all add: sleeps_def)

text \<open>
  \<open>polled E K ok ready\<close>: for clients that satisfy \<open>ok\<close>, an attempt to connect is answered, without an
  exception, by whether the server is there after so many seconds slept, and printing and sleeping end.
\<close>

definition polled :: "environment \<Rightarrow> kernel \<Rightarrow> (client \<Rightarrow> bool) \<Rightarrow> (nat \<Rightarrow> bool) \<Rightarrow> bool" where
  "polled E K ok ready \<longleftrightarrow>
     (\<forall>c h. ok c \<longrightarrow> (\<exists>c' h'. client_Connect E c K h = Some (Inr (Inr (ready (sleeps h)), c'), h') \<and>
        ok c' \<and> sleeps h' = sleeps h)) \<and>
     (\<forall>h s. K h (Sys_print s) \<noteq> None) \<and> (\<forall>h. K h (Sys_sleep 1) \<noteq> None)"

lemma polled_attempt:
  assumes "polled E K ok ready" and "ok c"
  shows "\<exists>c' h'. connect_attempt E who c K h = Some (Inr (ready (sleeps h), c'), h') \<and> ok c' \<and>
    sleeps h' = (if ready (sleeps h) then sleeps h else Suc (sleeps h))"
proof -
  obtain c' h1 where 1: "client_Connect E c K h = Some (Inr (Inr (ready (sleeps h)), c'), h1)"
    "ok c'" "sleeps h1 = sleeps h"
    using assms unfolding polled_def by blast
  let ?text = "who @ ''Cannot connect to '' @ client_GetConnectionAddress c' @ endl"
  obtain r where r: "K h1 (Sys_print ?text) = Some r" using assms(1) unfolding polled_def by blast
  obtain q where q: "K (h1 @ [(Sys_print ?text, r)]) (Sys_sleep 1) = Some q" using assms(1) unfolding polled_def by blast
  show ?thesis
  proof (cases "ready (sleeps h)")
    case True
    then show ?thesis using 1 by (simp add: connect_attempt_def run_simps)
  next
    case False
    then have "connect_attempt E who c K h =
        Some (Inr (False, c'), h1 @ [(Sys_print ?text, r), (Sys_sleep 1, q)])"
      using 1(1) r q by (simp add: connect_attempt_def run_simps)
    then show ?thesis using False 1(2,3) by (simp add: sleeps_def)
  qed
qed

lemma connect_ends:
  assumes p: "polled E K ok ready" and "ok c" and "ready n" and "sleeps h \<le> n" and "\<forall>m. sleeps h \<le> m \<and> m < n \<longrightarrow> \<not> ready m"
  shows "\<exists>c' h'. connect_loop E who c K h = Some (Inr c', h') \<and> ok c' \<and> sleeps h' = n"
  using assms(2-)
proof (induction "n - sleeps h" arbitrary: c h)
  case 0
  then have "ready (sleeps h)" "sleeps h = n" by simp_all
  moreover obtain c' h1 where "connect_attempt E who c K h = Some (Inr (ready (sleeps h), c'), h1)" "ok c'"
    "sleeps h1 = (if ready (sleeps h) then sleeps h else Suc (sleeps h))"
    using polled_attempt [OF p 0(2), of who h] by blast
  ultimately show ?case by (simp add: connect_loop.simps [of E who c K h])
next
  case (Suc d)
  then have nr: "\<not> ready (sleeps h)" by simp
  with polled_attempt [OF p Suc(3), of who h] obtain c' h1 where
    1: "connect_attempt E who c K h = Some (Inr (False, c'), h1)" "ok c'" "sleeps h1 = Suc (sleeps h)" by auto
  have "\<exists>c'' h'. connect_loop E who c' K h1 = Some (Inr c'', h') \<and> ok c'' \<and> sleeps h' = n"
    using Suc 1 by (intro Suc(1)) simp_all
  with 1(1) show ?case by (simp add: connect_loop.simps [of E who c K h])
qed

lemma connect_never:
  assumes p: "polled E K ok ready" and "ok c" and "\<forall>m \<ge> sleeps h. \<not> ready m"
  shows "connect_loop E who c K h = None"
proof (rule ccontr)
  assume "connect_loop E who c K h \<noteq> None"
  then obtain y where run: "connect_loop E who c K h = Some y" by blast
  let ?P = "\<lambda>E' who c K' h y. E' = E \<longrightarrow> K' = K \<longrightarrow> ok c \<longrightarrow> (\<forall>m \<ge> sleeps h. \<not> ready m) \<longrightarrow> False"
  have "?P E who c K h y"
  proof (rule connect_loop.raw_induct [where P = ?P, OF _ run], intro impI)
    fix loop E' who c K' h y
    assume IH: "\<And>E' who c K' h y. loop E' who c K' h = Some y \<Longrightarrow> ?P E' who c K' h y"
      and body: "Option.bind (connect_attempt E' who c K' h) (\<lambda>(r, h1).
        case r of Inl e \<Rightarrow> Some (Inl e, h1)
        | Inr (b, c') \<Rightarrow> if b then Some (Inr c', h1) else loop E' who c' K' h1) = Some y"
      and E: "E' = E" "K' = K" and c: "ok c" and never: "\<forall>m \<ge> sleeps h. \<not> ready m"
    obtain c' h1 where 1: "connect_attempt E who c K h = Some (Inr (False, c'), h1)" "ok c'" "sleeps h1 = Suc (sleeps h)"
      using polled_attempt [OF p c, of who h] never by auto
    with body E have "loop E who c' K h1 = Some y" by simp
    then show False using IH 1(2,3) never by (metis Suc_leD)
  qed
  then show False using assms(2,3) by blast
qed

text \<open>C37: a client whose attempts are refused tries again every second and is connected at the first attempt
  after its server has come; if the server never comes, it waits for ever.\<close>

theorem client_waits:
  assumes "polled E K ok ready" and "ok c"
  shows "if \<exists>n \<ge> sleeps h. ready n
    then \<exists>c' h'. connect_loop E who c K h = Some (Inr c', h') \<and> ok c' \<and>
      sleeps h' = (LEAST n. sleeps h \<le> n \<and> ready n)
    else connect_loop E who c K h = None"
proof (cases "\<exists>n \<ge> sleeps h. ready n")
  case True
  let ?n = "LEAST n. sleeps h \<le> n \<and> ready n"
  have n: "sleeps h \<le> ?n \<and> ready ?n" using True by (metis (mono_tags, lifting) LeastI)
  have "\<not> ready m" if "sleeps h \<le> m" "m < ?n" for m using not_less_Least [OF that(2)] that(1) by blast
  then show ?thesis using connect_ends [OF assms] n True by simp
qed (use connect_never [OF assms] in auto)

text \<open>A pipe that is made after two seconds.\<close>

definition late_pipe :: kernel where
  "late_pipe h c = (case c of
     Sys_open _ \<Rightarrow> Some (if 2 \<le> sleeps h then Returns 3 else Fails ENOENT) | _ \<Rightarrow> Some (Returns 0))"

theorem client_waits_witness:
  "\<exists>c' h'. connect_loop example_environment ''[producer] '' (Pipe_Client (PipeClient ''d'')) late_pipe [] = Some (Inr c', h') \<and>
    sleeps h' = 2"
proof -
  let ?ok = "\<lambda>c. \<exists>p. c = Pipe_Client p"
  have "polled example_environment late_pipe ?ok (\<lambda>n. 2 \<le> n)"
    by (auto simp: polled_def client_Connect_def PipeClient_Connect_def late_pipe_def run_simps
        FileDescriptor_assign_def Let_def)
  from client_waits [OF this, of "Pipe_Client (PipeClient ''d'')" "[]" "''[producer] ''"]
  have "\<exists>c' h'. connect_loop example_environment ''[producer] '' (Pipe_Client (PipeClient ''d'')) late_pipe [] = Some (Inr c', h') \<and>
    sleeps h' = (LEAST n. sleeps [] \<le> n \<and> 2 \<le> n)"
    by (auto split: if_splits)
  moreover have "(LEAST n. sleeps [] \<le> n \<and> 2 \<le> n) = 2"
    by (rule Least_equality) simp_all
  ultimately show ?thesis by simp
qed

end
