(* ===== verification/Endings.thy ===== *)
theory Endings
  imports Pairing
begin

text \<open>
  How a mode ends: with exit status 0 after its actor has run, or with an exception that has been reported.
  And what is left open by attempts to connect that are refused.
\<close>

section \<open>The ends of a mode\<close>

lemma io_report_end:
  assumes "io_report what name m K h = Some (r, h')"
  shows "case r of Inr x \<Rightarrow> m K h = Some (Inr x, h')
    | Inl e \<Rightarrow> is_exception e \<longrightarrow> (\<exists>h1 q. h' = h1 @
        [(Sys_print (''['' @ name @ ''] An error occurred during work: '' @ what e @ endl), q)])"
proof (cases "m K h")
  case (Some s)
  then show ?thesis
    using assms
    by (cases s; cases "fst s")
      (auto simp: io_report_def io_print_def io_simps split: if_splits)
qed (use assms in \<open>simp add: io_report_def\<close>)

lemma io_scope_Inr:
  assumes "io_scope destroy m K h = Some (Inr x, h')"
  obtains h1 where "m K h = Some (Inr x, h1)" and "destroy K h1 = Some (Inr (), h')"
  using assms by (auto simp: io_scope_def io_guard_def io_simps split: option.splits sum.splits prod.splits if_split_asm)

lemma io_print_Some: "io_print s K h = Some (r, h') \<longleftrightarrow> (\<exists>q. K h (Sys_print s) = Some q \<and> r = Inr () \<and> h' = h @ [(Sys_print s, q)])"
  by (auto simp: io_print_def io_simps)

lemma io_sleep_Some: "io_sleep n K h = Some (r, h') \<longleftrightarrow> (\<exists>q. K h (Sys_sleep n) = Some q \<and> r = Inr () \<and> h' = h @ [(Sys_sleep n, q)])"
  by (auto simp: io_sleep_def io_simps)

text \<open>How a mode has ended: with 0, as \<open>finished\<close> says, or with an exception whose text is the last thing printed.\<close>

definition mode_ended :: "string \<Rightarrow> (cxx_error \<Rightarrow> string) \<Rightarrow> bool \<Rightarrow> int result \<Rightarrow> history \<Rightarrow> bool" where
  "mode_ended name what finished r h \<longleftrightarrow>
     (case r of
        Inr status \<Rightarrow> status = 0 \<and> finished
      | Inl e \<Rightarrow> is_exception e \<longrightarrow>
          fst (last h) = Sys_print (''['' @ name @ ''] An error occurred during work: '' @ what e @ endl))"

text \<open>
  A complete execution from history \<open>h\<close> to \<open>h'\<close>: \<open>create\<close> has made the actor, the \<open>calls\<close> have been made, \<open>run\<close> has
  returned, the end of the work has been announced, and the actor has been destroyed.
\<close>

definition mode_ran :: "string \<Rightarrow> syscall list \<Rightarrow> 'x io \<Rightarrow> ('x \<Rightarrow> unit io) \<Rightarrow> ('x \<Rightarrow> unit io) \<Rightarrow> kernel \<Rightarrow> history \<Rightarrow> history \<Rightarrow> bool" where
  "mode_ran name calls create run destroy K h h' \<longleftrightarrow>
     (\<exists>x h1 rs h2 r. create K h = Some (Inr x, h1) \<and> length rs = length calls \<and>
        run x K (h1 @ zip calls rs) = Some (Inr (), h2) \<and>
        destroy x K (h2 @ [(Sys_print (''['' @ name @ ''] Finished work'' @ endl), r)]) = Some (Inr (), h'))"

lemma mode_ranI:
  assumes "create K h = Some (Inr x, h1)" and "run x K (h1 @ zip calls rs) = Some (Inr (), h2)" and "length rs = length calls"
    and "destroy x K (h2 @ [(Sys_print (''['' @ name @ ''] Finished work'' @ endl), r)]) = Some (Inr (), h')"
  shows "mode_ran name calls create run destroy K h h'"
  using assms unfolding mode_ran_def by blast

lemma producer_ran:
  assumes "runAsProducer E a K h = Some (Inr status, h')"
  shows "status = 0 \<and> SchedSetAffinity (env_affinity E) (pa_cpu a) = Inr () \<and>
    mode_ran ''producer'' [Sys_print (''[producer] Waiting 3s for syncronization with consumer...'' @ endl), Sys_sleep 3,
        Sys_print (''[producer] Ready to work. Working...'' @ endl)]
      (CreateProducer E a) (run_producer E) producer_destroy K h h'"
proof -
  from io_report_end [OF assms [unfolded runAsProducer_def]] obtain p h1 where
    1: "SchedSetAffinity (env_affinity E) (pa_cpu a) = Inr ()" "CreateProducer E a K h = Some (Inr p, h1)"
    and 2: "io_scope (producer_destroy p)
          (io_bind (io_print (''[producer] Waiting 3s for syncronization with consumer...'' @ endl)) (\<lambda>_.
           io_bind (io_sleep 3) (\<lambda>_.
           io_bind (io_print (''[producer] Ready to work. Working...'' @ endl)) (\<lambda>_.
           io_bind (run_producer E p) (\<lambda>_.
           io_bind (io_print (''[producer] Finished work'' @ endl)) (\<lambda>_.
           io_return 0)))))) K h1 = Some (Inr status, h')"
    by (auto simp: io_bind_run io_of_result_run)
  obtain h2 where 3: "io_bind (io_print (''[producer] Waiting 3s for syncronization with consumer...'' @ endl)) (\<lambda>_.
           io_bind (io_sleep 3) (\<lambda>_.
           io_bind (io_print (''[producer] Ready to work. Working...'' @ endl)) (\<lambda>_.
           io_bind (run_producer E p) (\<lambda>_.
           io_bind (io_print (''[producer] Finished work'' @ endl)) (\<lambda>_.
           io_return 0))))) K h1 = Some (Inr status, h2)" "producer_destroy p K h2 = Some (Inr (), h')"
    by (rule io_scope_Inr [OF 2])
  then obtain q1 q2 q3 h3 q4 where "run_producer E p K (h1 @ zip [Sys_print (''[producer] Waiting 3s for syncronization with consumer...'' @ endl),
      Sys_sleep 3, Sys_print (''[producer] Ready to work. Working...'' @ endl)] [q1, q2, q3]) = Some (Inr (), h3)"
    "h2 = h3 @ [(Sys_print (''[producer] Finished work'' @ endl), q4)]" "status = 0"
    by (auto simp: io_bind_run io_return_run io_print_Some io_sleep_Some)
  with 1 3(2) show ?thesis
    by (intro conjI, simp, simp) (rule mode_ranI, assumption, assumption, simp, simp)
qed

lemma consumer_ran:
  assumes "runAsConsumer E a K h = Some (Inr status, h')"
  shows "status = 0 \<and> SchedSetAffinity (env_affinity E) (ca_cpu a) = Inr () \<and>
    mode_ran ''consumer'' [Sys_print (''[consumer] Ready to work. Working...'' @ endl)]
      (CreateConsumer E a) (run_consumer E) consumer_destroy K h h'"
proof -
  from io_report_end [OF assms [unfolded runAsConsumer_def]] obtain c h1 where
    1: "SchedSetAffinity (env_affinity E) (ca_cpu a) = Inr ()" "CreateConsumer E a K h = Some (Inr c, h1)"
    and 2: "io_scope (consumer_destroy c)
          (io_bind (io_print (''[consumer] Ready to work. Working...'' @ endl)) (\<lambda>_.
           io_bind (run_consumer E c) (\<lambda>_.
           io_bind (io_print (''[consumer] Finished work'' @ endl)) (\<lambda>_.
           io_return 0)))) K h1 = Some (Inr status, h')"
    by (auto simp: io_bind_run io_of_result_run)
  obtain h2 where 3: "io_bind (io_print (''[consumer] Ready to work. Working...'' @ endl)) (\<lambda>_.
           io_bind (run_consumer E c) (\<lambda>_.
           io_bind (io_print (''[consumer] Finished work'' @ endl)) (\<lambda>_.
           io_return 0))) K h1 = Some (Inr status, h2)" "consumer_destroy c K h2 = Some (Inr (), h')"
    by (rule io_scope_Inr [OF 2])
  then obtain q1 h3 q2 where "run_consumer E c K (h1 @ zip [Sys_print (''[consumer] Ready to work. Working...'' @ endl)] [q1]) =
      Some (Inr (), h3)" "h2 = h3 @ [(Sys_print (''[consumer] Finished work'' @ endl), q2)]" "status = 0"
    by (auto simp: io_bind_run io_return_run io_print_Some)
  with 1 3(2) show ?thesis
    by (intro conjI, simp, simp) (rule mode_ranI, assumption, assumption, simp, simp)
qed

lemma analyzer_ran:
  assumes "runAsAnalyzer E a K h = Some (Inr status, h')"
  shows "status = 0 \<and>
    mode_ran ''analyzer'' [Sys_print (''[analyzer] Ready to work. Working...'' @ endl)]
      (CreateAnalyzer E a) (run_analyzer E) analyzer_destroy K h h'"
proof -
  from io_report_end [OF assms [unfolded runAsAnalyzer_def]] obtain z h1 where
    1: "CreateAnalyzer E a K h = Some (Inr z, h1)"
    and 2: "io_scope (analyzer_destroy z)
          (io_bind (io_print (''[analyzer] Ready to work. Working...'' @ endl)) (\<lambda>_.
           io_bind (run_analyzer E z) (\<lambda>_.
           io_bind (io_print (''[analyzer] Finished work'' @ endl)) (\<lambda>_.
           io_return 0)))) K h1 = Some (Inr status, h')"
    by (auto simp: io_bind_run)
  obtain h2 where 3: "io_bind (io_print (''[analyzer] Ready to work. Working...'' @ endl)) (\<lambda>_.
           io_bind (run_analyzer E z) (\<lambda>_.
           io_bind (io_print (''[analyzer] Finished work'' @ endl)) (\<lambda>_.
           io_return 0))) K h1 = Some (Inr status, h2)" "analyzer_destroy z K h2 = Some (Inr (), h')"
    by (rule io_scope_Inr [OF 2])
  then obtain q1 h3 q2 where "run_analyzer E z K (h1 @ zip [Sys_print (''[analyzer] Ready to work. Working...'' @ endl)] [q1]) =
      Some (Inr (), h3)" "h2 = h3 @ [(Sys_print (''[analyzer] Finished work'' @ endl), q2)]" "status = 0"
    by (auto simp: io_bind_run io_return_run io_print_Some)
  with 1 3(2) show ?thesis
    by (intro conjI, simp) (rule mode_ranI, assumption, assumption, simp, simp)
qed

text \<open>C38: a mode that ends with a status ends with 0, and its execution from its first system call to its last is:
  its actor is made, the mode says that it works (the producer after three seconds), \<open>Run\<close> returns, the mode says that
  it has finished, and the actor is destroyed; producer and consumer have set their affinity before.  When an
  exception ends it instead, the last thing it did was to print the exception's text under the
  mode's name.\<close>

theorem modes_end:
  assumes "runAsProducer E ap K h = Some (rp, hp)" and "runAsConsumer E ac K h = Some (rc, hc)"
    and "runAsAnalyzer E aa K h = Some (ra, ha)"
  shows "mode_ended ''producer'' (env_what E) (SchedSetAffinity (env_affinity E) (pa_cpu ap) = Inr () \<and>
      mode_ran ''producer'' [Sys_print (''[producer] Waiting 3s for syncronization with consumer...'' @ endl), Sys_sleep 3,
          Sys_print (''[producer] Ready to work. Working...'' @ endl)]
        (CreateProducer E ap) (run_producer E) producer_destroy K h hp) rp hp \<and>
    mode_ended ''consumer'' (env_what E) (SchedSetAffinity (env_affinity E) (ca_cpu ac) = Inr () \<and>
      mode_ran ''consumer'' [Sys_print (''[consumer] Ready to work. Working...'' @ endl)]
        (CreateConsumer E ac) (run_consumer E) consumer_destroy K h hc) rc hc \<and>
    mode_ended ''analyzer'' (env_what E)
      (mode_ran ''analyzer'' [Sys_print (''[analyzer] Ready to work. Working...'' @ endl)]
        (CreateAnalyzer E aa) (run_analyzer E) analyzer_destroy K h ha) ra ha"
  using producer_ran [of E ap K h _ hp] consumer_ran [of E ac K h _ hc] analyzer_ran [of E aa K h _ ha] assms
    io_report_end [OF assms(1) [unfolded runAsProducer_def]] io_report_end [OF assms(2) [unfolded runAsConsumer_def]]
    io_report_end [OF assms(3) [unfolded runAsAnalyzer_def]]
  by (cases rp; cases rc; cases ra) (auto simp: mode_ended_def)

text \<open>A host on which no affinity can be set, and a consumer that sets none and expects no message: its mode returns.\<close>

definition one_affinity :: environment where
  "one_affinity = example_environment\<lparr>env_affinity := (\<lambda>_. - 1)\<rparr>"

definition empty_consumer :: consumer_args where
  "empty_consumer = mixed_consumer\<lparr>ca_chunks_total_count := Some 0\<rparr>"

lemma empty_measurer: "Measurer exact_vectors 0 = Inr \<lparr>elems = [], vcap = 0, iter = None\<rparr>"
  by (simp add: Measurer_def exact_vectors_def vec_reserve_def)

lemma empty_params: "Consumer_MeasurerPackerParams empty_consumer = Inr kPipe" "Consumer_ProducerPackerParams empty_consumer = Inr kPipe"
  "Consumer_MeasurerClientParams empty_consumer = Inr (at_pipe ''c'')"
  "Consumer_ProducerServerParams empty_consumer = Inr (at_pipe ''d'')"
  "initialised (ca_chunks_total_count empty_consumer) = Inr 0" "ca_cpu empty_consumer = - 1"
  by (simp_all add: empty_consumer_def mixed_consumer_def Consumer_MeasurerPackerParams_def Consumer_ProducerPackerParams_def
      Consumer_MeasurerClientParams_def Consumer_ProducerServerParams_def
      connection_of_def initialised_def optional_size_def at_pipe_def)

lemma empty_created: "\<exists>c h. CreateConsumer one_affinity empty_consumer obliging_kernel [] = Some (Inr c, h) \<and>
   co_measurer c = \<lparr>elems = [], vcap = 0, iter = None\<rparr>"
  by (simp add: CreateConsumer_steps empty_params io_then_result net_run pipe_run run_simps obliging_kernel_def Let_def at_pipe_def
     Consumer_MeasurerClient_def Consumer_ProducerServer_def one_affinity_def example_environment_def empty_measurer)

lemma empty_run: "co_measurer c = \<lparr>elems = [], vcap = 0, iter = None\<rparr> \<Longrightarrow> run_consumer E c K h = Some (Inr (), h)"
  by (simp add: run_consumer_def io_of_outcome_def Consumer_Run_def while_loop.simps IsFull_def report_ticks_def
    Measurer_ToFirst_def vec_to_first_def Measurer_HasNext_def vec_has_next_def)


lemma empty_returns: "\<exists>x h. runAsConsumer one_affinity empty_consumer obliging_kernel [] = Some (Inr x, h)"
proof -
  obtain c h where c: "CreateConsumer one_affinity empty_consumer obliging_kernel [] = Some (Inr c, h)"
    "co_measurer c = \<lparr>elems = [], vcap = 0, iter = None\<rparr>" using empty_created by blast
  have close: "\<exists>u h'. client_Close x obliging_kernel h = Some (Inr u, h')" "\<exists>u h'. server_Close y obliging_kernel h = Some (Inr u, h')" for x y h
    by (cases x; cases y; simp add: run_simps obliging_kernel_def NetSocketClient_Close_def PipeClient_Close_def SharedMemoryClient_Close_def UnixSocketClient_Close_def
      NetSocketServer_Close_def PipeServer_Close_def SharedMemoryServer_Close_def UnixSocketServer_Close_def)+
  have step: "io_bind (io_of_result (SchedSetAffinity (env_affinity one_affinity) (ca_cpu empty_consumer)))
      (\<lambda>_. io_bind (CreateConsumer one_affinity empty_consumer) f) obliging_kernel [] = f c obliging_kernel h" for f :: "consumer \<Rightarrow> int io"
    by (simp add: io_bind_def io_of_result_def SchedSetAffinity_def empty_params c(1))
  have runs: "\<exists>u h'. run_consumer one_affinity c obliging_kernel h = Some (Inr u, h')" for h using empty_run [OF c(2)] by blast
  have "\<exists>x h'. io_scope (consumer_destroy c)
         (io_bind (io_print (''[consumer] Ready to work. Working...'' @ endl)) (\<lambda>_.
          io_bind (run_consumer one_affinity c) (\<lambda>_.
          io_bind (io_print (''[consumer] Finished work'' @ endl)) (\<lambda>_.
          io_return (0 :: int))))) obliging_kernel h = Some (Inr x, h')"
    unfolding io_scope_def consumer_destroy_def
    by (rule io_then, rule io_guard_then, rule io_then, rule obliging_print, rule io_then, rule runs, rule io_then,
      rule obliging_print, rule io_returns, rule io_then, rule io_then, rule close, rule close, rule io_returns)
  then obtain x h' where e: "io_scope (consumer_destroy c)
         (io_bind (io_print (''[consumer] Ready to work. Working...'' @ endl)) (\<lambda>_.
          io_bind (run_consumer one_affinity c) (\<lambda>_.
          io_bind (io_print (''[consumer] Finished work'' @ endl)) (\<lambda>_.
          io_return (0 :: int))))) obliging_kernel h = Some (Inr x, h')" by (elim exE)
  show ?thesis unfolding runAsConsumer_def io_report_def step e by simp
qed

theorem modes_end_witness:
  "\<exists>h h'. runAsProducer one_affinity (mixed_producer\<lparr>pa_cpu := 1\<rparr>) obliging_kernel [] =
      Some (Inl (Runtime_Error ''sched_setaffinity() failed''), h) \<and>
    fst (last h) = Sys_print (''[producer] An error occurred during work: what'' @ endl) \<and>
    runAsConsumer one_affinity empty_consumer obliging_kernel [] = Some (Inr 0, h') \<and>
    mode_ran ''consumer'' [Sys_print (''[consumer] Ready to work. Working...'' @ endl)]
      (CreateConsumer one_affinity empty_consumer) (run_consumer one_affinity) consumer_destroy obliging_kernel [] h'"
proof -
  have end_report: "\<exists>h. io_report (env_what one_affinity) name (io_throw e) obliging_kernel [] = Some (Inl e, h)"
    if "is_exception e" for name and e
    using that by (simp add: io_report_def run_simps obliging_kernel_def)
  have fails: "io_bind (io_of_result (SchedSetAffinity (env_affinity one_affinity) 1)) f =
      io_throw (Runtime_Error ''sched_setaffinity() failed'')" for f :: "unit \<Rightarrow> int io"
    by (intro ext) (simp add: SchedSetAffinity_def one_affinity_def run_simps)
  obtain hp where p: "runAsProducer one_affinity (mixed_producer\<lparr>pa_cpu := 1\<rparr>) obliging_kernel [] =
      Some (Inl (Runtime_Error ''sched_setaffinity() failed''), hp)"
    using end_report [of "Runtime_Error ''sched_setaffinity() failed''" "''producer''"]
    by (auto simp: runAsProducer_def fails)
  obtain status hc where c: "runAsConsumer one_affinity empty_consumer obliging_kernel [] = Some (Inr status, hc)"
    using empty_returns by blast
  have "CreateAnalyzer one_affinity (mixed_analyzer\<lparr>aa_chunks_total_count := None\<rparr>) =
      io_throw (Undefined_Behaviour ''uninitialised field'')"
    by (intro ext) (simp add: CreateAnalyzer_steps initialised_def run_simps)
  then have a: "runAsAnalyzer one_affinity (mixed_analyzer\<lparr>aa_chunks_total_count := None\<rparr>)
      obliging_kernel [] = Some (Inl (Undefined_Behaviour ''uninitialised field''), [])"
    by (simp add: runAsAnalyzer_def io_report_def run_simps)
  have "env_what one_affinity = (\<lambda>_. ''what'')" by (simp add: one_affinity_def example_environment_def)
  then show ?thesis
    using modes_end [OF p c a] p c by (intro exI [of _ hp] exI [of _ hc]) (auto simp: mode_ended_def)
qed

section \<open>Refused attempts\<close>

text \<open>An attempt after which one more descriptor is open.\<close>

definition opens_one :: "environment \<Rightarrow> kernel \<Rightarrow> (client \<Rightarrow> bool) \<Rightarrow> bool" where
  "opens_one E K ok \<longleftrightarrow> (\<forall>c h b c' h'. ok c \<and> client_Connect E c K h = Some (Inr (Inr b, c'), h') \<longrightarrow>
     ok c' \<and> length (opened h') = Suc (length (opened h)) \<and> closed_fds h' = closed_fds h \<and> sleeps h' = sleeps h)"

lemma attempt_opens:
  assumes "opens_one E K ok" and "ok c" and "connect_attempt E who c K h = Some (Inr (b, c'), h')"
  shows "ok c' \<and> length (opened h') = Suc (length (opened h)) \<and> closed_fds h' = closed_fds h \<and>
    sleeps h' = (if b then sleeps h else Suc (sleeps h))"
proof -
  obtain q c1 h1 where 1: "client_Connect E c K h = Some (Inr (q, c1), h1)"
    and 2: "(case q of
      Inl e \<Rightarrow> io_guard (client_Close c1) (io_throw e)
    | Inr b \<Rightarrow> if b then io_return (True, c1)
        else io_bind (io_print (who @ ''Cannot connect to '' @ client_GetConnectionAddress c1 @ endl)) (\<lambda>_.
          io_bind (io_sleep 1) (\<lambda>_. io_return (False, c1)))) K h1 = Some (Inr (b, c'), h')"
    using assms(3) unfolding connect_attempt_def io_bind_run by fastforce
  show ?thesis
  proof (cases q)
    case (Inl e)
    then show ?thesis using 2 by (simp add: io_throw_run)
  next
    case (Inr b')
    have "ok c1 \<and> length (opened h1) = Suc (length (opened h)) \<and> closed_fds h1 = closed_fds h \<and> sleeps h1 = sleeps h"
      using assms(1,2) 1 Inr unfolding opens_one_def by blast
    with 2 Inr show ?thesis
      by (auto simp: io_print_def io_sleep_def io_simps split: if_splits)
  qed
qed

lemma loop_opens:
  assumes one: "opens_one E K ok" and "ok c" and run: "connect_loop E who c K h = Some (Inr c', h')"
  shows "length (opened h') + sleeps h = length (opened h) + 1 + sleeps h' \<and> closed_fds h' = closed_fds h"
proof -
  let ?P = "\<lambda>E' who c K' h (y :: client result \<times> history). E' = E \<longrightarrow> K' = K \<longrightarrow> ok c \<longrightarrow> (\<forall>c' h'. y = (Inr c', h') \<longrightarrow>
    length (opened h') + sleeps h = length (opened h) + 1 + sleeps h' \<and> closed_fds h' = closed_fds h)"
  have "?P E who c K h (Inr c', h')"
  proof (rule connect_loop.raw_induct [where P = ?P, OF _ run], intro impI allI)
    fix loop E' who c K' h y c' h'
    assume IH: "\<And>E' who c K' h y. loop E' who c K' h = Some y \<Longrightarrow> ?P E' who c K' h y"
      and body: "Option.bind (connect_attempt E' who c K' h) (\<lambda>(r, h1).
        case r of Inl e \<Rightarrow> Some (Inl e, h1)
        | Inr (b, c') \<Rightarrow> if b then Some (Inr c', h1) else loop E' who c' K' h1) = Some y"
      and E: "E' = E" "K' = K" and c: "ok c" and y: "y = (Inr c', h')"
    obtain b c1 h1 where 1: "connect_attempt E who c K h = Some (Inr (b, c1), h1)"
      using body E y
      by (cases "connect_attempt E who c K h"; cases "fst (the (connect_attempt E who c K h))") auto
    note 2 = attempt_opens [OF one c 1]
    show "length (opened h') + sleeps h = length (opened h) + 1 + sleeps h' \<and> closed_fds h' = closed_fds h"
    proof (cases b)
      case False
      then have "loop E who c1 K h1 = Some (Inr c', h')" using body 1 E y by simp
      from IH [OF this] 2 False show ?thesis by auto
    qed (use body 1 2 E y in simp)
  qed
  with assms(2) show ?thesis by simp
qed

text \<open>C39: clients of Unix sockets and of shared memory leak while they wait: where the path of the socket can be
  opened as a file, every attempt to connect opens a descriptor that is never closed, and where the
  shared-memory object exists without a size, every attempt but the last, whose descriptor the
  client keeps, leaves one open.\<close>

theorem waiting_leaks:
  assumes "\<forall>h. \<exists>fd. K h (Sys_open (ux_socket_name u)) = Some (Returns fd) \<and> fd \<noteq> - 1"
    and "connect_loop E who (Unix_Client u) K h = Some (Inr c, h')"
    and "\<forall>h. \<exists>fd. L h (Sys_shm_open (smc_name s)) = Some (Returns fd) \<and> fd \<noteq> - 1"
    and "connect_loop E who (Shmem_Client s) L g = Some (Inr d, g')"
  shows "length (opened h') + sleeps h = length (opened h) + 1 + sleeps h' \<and> closed_fds h' = closed_fds h \<and>
    length (opened g') + sleeps g = length (opened g) + 1 + sleeps g' \<and> closed_fds g' = closed_fds g"
proof -
  have "opens_one E K (\<lambda>c. c = Unix_Client u)"
    unfolding opens_one_def
  proof (intro allI impI)
    fix c h b c' h'
    assume "c = Unix_Client u \<and> client_Connect E c K h = Some (Inr (Inr b, c'), h')"
    moreover obtain fd where "K h (Sys_open (ux_socket_name u)) = Some (Returns fd)" "fd \<noteq> - 1" using assms(1) by blast
    ultimately show "c' = Unix_Client u \<and> length (opened h') = Suc (length (opened h)) \<and>
        closed_fds h' = closed_fds h \<and> sleeps h' = sleeps h"
      by (auto simp: client_Connect_def keeping_def UnixSocketClient_Connect_def io_simps split: if_splits)
  qed
  moreover have "opens_one E L (\<lambda>c. \<exists>t. c = Shmem_Client t \<and> smc_name t = smc_name s)"
    unfolding opens_one_def
  proof (intro allI impI)
    fix c h b c' h'
    assume "(\<exists>t. c = Shmem_Client t \<and> smc_name t = smc_name s) \<and> client_Connect E c L h = Some (Inr (Inr b, c'), h')"
    moreover obtain fd where "L h (Sys_shm_open (smc_name s)) = Some (Returns fd)" "fd \<noteq> - 1" using assms(3) by blast
    ultimately show "(\<exists>t. c' = Shmem_Client t \<and> smc_name t = smc_name s) \<and> length (opened h') = Suc (length (opened h)) \<and>
        closed_fds h' = closed_fds h \<and> sleeps h' = sleeps h"
      by (auto simp: client_Connect_def SharedMemoryClient_Connect_def Let_def io_simps attach_run FileDescriptor_assign_def
          split: if_splits)
  qed
  ultimately show ?thesis
    using loop_opens [OF _ _ assms(2)] loop_opens [OF _ _ assms(4)] by blast
qed

text \<open>Two refused attempts leave two descriptors behind, or three with the one of the attempt that succeeds.\<close>

definition late_server :: kernel where
  "late_server h c = Some (case c of
     Sys_open _ \<Rightarrow> Returns 7
   | Sys_shm_open _ \<Rightarrow> Returns 8
   | Sys_connect _ _ \<Rightarrow> if 2 \<le> sleeps h then Returns 0 else Fails (Other_Errno 111)
   | Sys_fstat _ \<Rightarrow> if 2 \<le> sleeps h then Returns 4288 else Returns 0
   | _ \<Rightarrow> Returns 0)"

theorem waiting_leaks_witness:
  "\<exists>c h d g. connect_loop example_environment ''[consumer] '' (Unix_Client \<lparr>ux_socket_fd = 3, ux_socket_name = ''/tmp/c''\<rparr>)
      late_server [] = Some (Inr c, h) \<and> length (opened h) = 3 \<and> closed_fds h = [] \<and>
    connect_loop example_environment ''[consumer] '' (Shmem_Client (SharedMemoryClient ''c'')) late_server [] = Some (Inr d, g) \<and>
    length (opened g) = 3 \<and> closed_fds g = []"
proof -
  let ?u = "\<lparr>ux_socket_fd = 3, ux_socket_name = ''/tmp/c''\<rparr>" and ?s = "SharedMemoryClient ''c''"
  have w: "WaitInitialized (\<lambda>_. True) 0 = Some 0" by (simp add: WaitInitialized.simps)
  have "polled example_environment late_server (\<lambda>c. c = Unix_Client ?u) (\<lambda>n. 2 \<le> n)"
    by (auto simp: polled_def client_Connect_def keeping_def UnixSocketClient_Connect_def late_server_def run_simps)
  from connect_ends [OF this, of "Unix_Client ?u" 2 "[]" "''[consumer] ''"] obtain c h where
    u: "connect_loop example_environment ''[consumer] '' (Unix_Client ?u) late_server [] = Some (Inr c, h)" "sleeps h = 2"
    by auto
  have "polled example_environment late_server (\<lambda>c. \<exists>t. c = Shmem_Client t) (\<lambda>n. 2 \<le> n)"
    by (auto simp: polled_def client_Connect_def SharedMemoryClient_Connect_def SharedMemoryClient_attach_def
        late_server_def run_simps Let_def FileDescriptor_assign_def example_environment_def w)
  from connect_ends [OF this, of "Shmem_Client ?s" 2 "[]" "''[consumer] ''"] obtain d g where
    s: "connect_loop example_environment ''[consumer] '' (Shmem_Client ?s) late_server [] = Some (Inr d, g)" "sleeps g = 2"
    by auto
  have "\<forall>h. \<exists>fd. late_server h (Sys_open (ux_socket_name ?u)) = Some (Returns fd) \<and> fd \<noteq> - 1"
    "\<forall>h. \<exists>fd. late_server h (Sys_shm_open (smc_name ?s)) = Some (Returns fd) \<and> fd \<noteq> - 1"
    by (simp_all add: late_server_def)
  from waiting_leaks [OF this(1) u(1) this(2) s(1)] u s show ?thesis by simp
qed

end
