(* ===== verification/Startup.thy ===== *)
theory Startup
  imports Pairing
begin

text \<open>
  How the three processes of a test come together: the order in which each of them serves and joins its
  connections, read off the calls it makes, and the composition of the three, in which no process can get stuck.
\<close>

section \<open>The meetings of a process\<close>

text \<open>A port served with \<open>bind\<close>, and a port joined with \<open>connect\<close>; what failed is no meeting.\<close>

datatype meeting = Serves "16 word" | Joins "16 word"

fun meeting_of :: "syscall \<Rightarrow> meeting list" where
  "meeting_of (Sys_bind _ (Inet_Any p)) = [Serves p]"
| "meeting_of (Sys_connect _ (Inet_Host _ p)) = [Joins p]"
| "meeting_of _ = []"

definition meetings :: "history \<Rightarrow> meeting list" where
  "meetings h = concat (map (\<lambda>(c, r). if reply_value r = - 1 then [] else meeting_of c) h)"

lemma meetings_simps [simp]:
  "meetings [] = []" "meetings ((c, r) # h) = (if reply_value r = - 1 then [] else meeting_of c) @ meetings h"
  "meetings (h @ h') = meetings h @ meetings h'"
  by (simp_all add: meetings_def)

text \<open>When \<open>m\<close> returns, it has had the meetings \<open>ms\<close>.\<close>

definition meets :: "'a io \<Rightarrow> meeting list \<Rightarrow> bool" where
  "meets m ms \<longleftrightarrow> (\<forall>K h x h'. m K h = Some (Inr x, h') \<longrightarrow> meetings h' = meetings h @ ms)"

lemma meets_bind:
  assumes "meets m ms" and "\<And>x K h h'. m K h = Some (Inr x, h') \<Longrightarrow> meets (f x) ns"
  shows "meets (io_bind m f) (ms @ ns)"
  unfolding meets_def io_bind_run
proof (intro allI impI)
  fix K h x h'
  assume "(\<exists>e. m K h = Some (Inl e, h') \<and> Inr x = Inl e) \<or> (\<exists>y h''. m K h = Some (Inr y, h'') \<and> f y K h'' = Some (Inr x, h'))"
  then obtain y h'' where 1: "m K h = Some (Inr y, h'')" "f y K h'' = Some (Inr x, h')" by auto
  from assms(2) [OF 1(1)] 1(2) have "meetings h' = meetings h'' @ ns" unfolding meets_def by blast
  moreover from assms(1) 1(1) have "meetings h'' = meetings h @ ms" unfolding meets_def by blast
  ultimately show "meetings h' = meetings h @ ms @ ns" by simp
qed

lemma meets_skip:
  "meets m [] \<Longrightarrow> (\<And>x K h h'. m K h = Some (Inr x, h') \<Longrightarrow> meets (f x) ns) \<Longrightarrow> meets (io_bind m f) ns"
  using meets_bind [of m "[]" f ns] by simp

lemma meets_last:
  "meets m ms \<Longrightarrow> (\<And>x. meets (f x) []) \<Longrightarrow> meets (io_bind m f) ms"
  using meets_bind [of m ms f "[]"] by simp

lemma meets_guard: "meets m ms \<Longrightarrow> meets (io_guard destroy m) ms"
  by (simp add: meets_def)

lemma meets_trivial [simp]: "meets (io_return x) []" "meets (io_of_result r) []" "meets (io_print s) []" "meets (io_sleep n) []"
  by (auto simp: meets_def io_print_def io_sleep_def io_simps)

section \<open>Servers and clients on the network\<close>

lemma meets_server: "meets (io_bind (NetSocketServer p) (\<lambda>s. io_bind (io_guard (NetSocketServer_Close s) (NetSocketServer_Accept s)) f))
    (Serves (sin_port p) # ms)" if "\<And>s. meets (f s) ms"
proof -
  have "meets (NetSocketServer p) [Serves (sin_port p)]"
    by (auto simp: meets_def NetSocketServer_def io_simps split: if_splits)
  moreover have "meets (NetSocketServer_Accept s) []" for s
    by (auto simp: meets_def NetSocketServer_Accept_def io_simps split: if_splits)
  then have "meets (io_bind (io_guard (NetSocketServer_Close s) (NetSocketServer_Accept s)) f) ms" for s
    by (intro meets_skip meets_guard that)
  ultimately have "meets (io_bind (NetSocketServer p) (\<lambda>s. io_bind (io_guard (NetSocketServer_Close s) (NetSocketServer_Accept s)) f))
      ([Serves (sin_port p)] @ ms)"
    by (rule meets_bind)
  then show ?thesis by simp
qed

lemma meets_attempt:
  assumes "connect_attempt E who (Net_Client n) K h = Some (Inr (b, c), h')"
  shows "c = Net_Client n \<and> meetings h' = meetings h @ (if b then [Joins (sin_port (nc_port n))] else [])"
proof -
  obtain q c1 h1 where 1: "client_Connect E (Net_Client n) K h = Some (Inr (q, c1), h1)"
    and 2: "(case q of
      Inl e \<Rightarrow> io_guard (client_Close c1) (io_throw e)
    | Inr b \<Rightarrow> if b then io_return (True, c1)
        else io_bind (io_print (who @ ''Cannot connect to '' @ client_GetConnectionAddress c1 @ endl)) (\<lambda>_.
          io_bind (io_sleep 1) (\<lambda>_. io_return (False, c1)))) K h1 = Some (Inr (b, c), h')"
    using assms unfolding connect_attempt_def io_bind_run by fastforce
  show ?thesis
  proof (cases q)
    case (Inr b')
    have "c1 = Net_Client n \<and> meetings h1 = meetings h @ (if b' then [Joins (sin_port (nc_port n))] else [])"
      using 1 Inr by (auto simp: client_Connect_def keeping_def NetSocketClient_Connect_def io_simps split: if_splits)
    with 2 Inr show ?thesis
      by (auto simp: io_print_def io_sleep_def io_simps split: if_splits)
  qed (use 2 in \<open>simp add: io_throw_run\<close>)
qed

lemma meets_loop: "meets (connect_loop E who (Net_Client n)) [Joins (sin_port (nc_port n))]"
  unfolding meets_def
proof (intro allI impI)
  fix K h c' h'
  assume run: "connect_loop E who (Net_Client n) K h = Some (Inr c', h')"
  let ?P = "\<lambda>E who c K h (y :: client result \<times> history). c = Net_Client n \<longrightarrow> (\<forall>c' h'. y = (Inr c', h') \<longrightarrow>
    meetings h' = meetings h @ [Joins (sin_port (nc_port n))])"
  have "?P E who (Net_Client n) K h (Inr c', h')"
  proof (rule connect_loop.raw_induct [where P = ?P, OF _ run], intro impI allI)
    fix loop E who c K h y c' h'
    assume IH: "\<And>E who c K h y. loop E who c K h = Some y \<Longrightarrow> ?P E who c K h y"
      and body: "Option.bind (connect_attempt E who c K h) (\<lambda>(r, h1).
        case r of Inl e \<Rightarrow> Some (Inl e, h1)
        | Inr (b, c') \<Rightarrow> if b then Some (Inr c', h1) else loop E who c' K h1) = Some y"
      and c: "c = Net_Client n" and y: "y = (Inr c', h')"
    obtain b c1 h1 where 1: "connect_attempt E who (Net_Client n) K h = Some (Inr (b, c1), h1)"
      using body c y
      by (cases "connect_attempt E who c K h"; cases "fst (the (connect_attempt E who c K h))") auto
    note 2 = meets_attempt [OF 1]
    show "meetings h' = meetings h @ [Joins (sin_port (nc_port n))]"
    proof (cases b)
      case False
      then have "loop E who c1 K h1 = Some (Inr c', h')" using body 1 c y by simp
      from IH [OF this] 2 False show ?thesis by auto
    qed (use body 1 2 c y in simp)
  qed
  then show "meetings h' = meetings h @ [Joins (sin_port (nc_port n))]" by simp
qed

text \<open>A client of the modes, made for a port, connected and tuned.\<close>

lemma meets_client:
  assumes "ParseHostAndPort cid = Inr hp" and "\<And>c. meets (tune c) []"
  shows "meets (io_bind (make_client kNetSocket cid) (\<lambda>c. io_bind (connect_loop E who c) (\<lambda>c.
    io_guard (client_Close c) (io_bind (tune c) (\<lambda>_. io_return c))))) [Joins (sin_port (port hp))]"
proof (rule meets_skip)
  show "meets (make_client kNetSocket cid) []"
    by (auto simp: meets_def make_client_def NetSocketClient_def io_simps split: if_splits)
  fix c K h h' assume "make_client kNetSocket cid K h = Some (Inr c, h')"
  then obtain n where n: "c = Net_Client n" "nc_port n = port hp"
    using assms(1) by (auto simp: make_client_def NetSocketClient_def io_simps split: if_splits)
  show "meets (io_bind (connect_loop E who c) (\<lambda>c. io_guard (client_Close c) (io_bind (tune c) (\<lambda>_. io_return c))))
      [Joins (sin_port (port hp))]"
    using meets_loop [of E who n] unfolding n
    by (rule meets_last) (intro meets_guard meets_skip assms(2) meets_trivial)
qed

lemma meets_tune [simp]:
  "meets (connected who) []" "meets (set_no_delay c (io_print s)) []" "meets (set_no_delay c (io_return ())) []"
  "meets (set_buffer_size c who n) []"
proof -
  have d: "meets m []" if "client_SetNoDelay c = Some m" for m
    using that by (cases c) (auto simp: meets_def NetSocketClient_SetNoDelay_def io_simps split: if_splits)
  show "meets (set_no_delay c (io_print s)) []" "meets (set_no_delay c (io_return ())) []"
    by (cases "client_SetNoDelay c"; simp add: set_no_delay_def d meets_skip)+
  have z: "meets (set_size k) []" "meets get_size []" if "sized_client c = Some (set_size, get_size)" for set_size get_size k
    using that
    by (cases c; auto simp: meets_def io_simps NetSocketClient_SetBufferSize_def NetSocketClient_GetBufferSize_def
        PipeClient_SetBufferSize_def PipeClient_GetBufferSize_def UnixSocketClient_SetBufferSize_def
        UnixSocketClient_GetBufferSize_def split: if_splits)+
  show "meets (set_buffer_size c who n) []"
    by (cases "sized_client c") (auto simp: set_buffer_size_def report_size_def z meets_skip split: option.split)
  show "meets (connected who) []" by (simp add: connected_def)
qed

lemma meets_mode_clients:
  assumes "params_type p = kNetSocket" and "ParseHostAndPort (params_id p) = Inr hp"
  shows "meets (Producer_MeasurerClient E p) [Joins (sin_port (port hp))]"
    and "meets (Producer_ConsumerClient E p) [Joins (sin_port (port hp))]"
    and "meets (Consumer_MeasurerClient E p) [Joins (sin_port (port hp))]"
  unfolding Producer_MeasurerClient_def Producer_ConsumerClient_def Consumer_MeasurerClient_def Let_def assms(1)
  using meets_client [OF assms(2), of "\<lambda>c. io_bind (connected who) (\<lambda>_. set_no_delay c (io_return ()))" for who]
    meets_client [OF assms(2), of "\<lambda>c. io_bind (connected who) (\<lambda>_. io_bind (set_buffer_size c who (params_buffer_size p))
      (\<lambda>_. set_no_delay c (io_print s)))" for who s]
  by (simp_all add: io_bind_assoc meets_skip)

lemma meets_mode_servers:
  assumes "params_type p = kNetSocket" and "ParseHostAndPort (params_id p) = Inr hp"
  shows "meets (Analyzer_ConsumerServer E p) [Serves (sin_port (port hp))]"
    and "meets (Analyzer_ProducerServer E p) [Serves (sin_port (port hp))]"
    and "meets (Consumer_ProducerServer E p) [Serves (sin_port (port hp))]"
proof -
  have size: "meets (NetSocketServer_SetBufferSize n s) []" "meets (NetSocketServer_GetBufferSize s) []" for n s
    by (auto simp: meets_def NetSocketServer_SetBufferSize_def NetSocketServer_GetBufferSize_def io_simps split: if_splits)
  have make: "meets (make_server E kNetSocket (params_id p) n) [Serves (sin_port (port hp))]" for n
    unfolding make_server_def ConnectionType.case assms(2) io_of_Inr io_bind_return
    by (rule meets_server) (cases n; simp add: meets_guard meets_skip size)
  then show "meets (Analyzer_ConsumerServer E p) [Serves (sin_port (port hp))]"
    "meets (Analyzer_ProducerServer E p) [Serves (sin_port (port hp))]"
    by (simp_all add: Analyzer_ConsumerServer_def Analyzer_ProducerServer_def assms(1))
  have g: "meets get_size []" if "server_GetBufferSize s = Some get_size" for s get_size
    using that size by (cases s) auto
  show "meets (Consumer_ProducerServer E p) [Serves (sin_port (port hp))]"
    unfolding Consumer_ProducerServer_def assms(1)
    by (rule meets_last [OF make])
      (auto simp: report_size_def g meets_guard meets_skip split: option.split)
qed

section \<open>Three processes\<close>

text \<open>
  The meetings the processes still have to come to, the ports that are listened at and the ports that have been
  joined.  A server first listens and goes on once it has been joined, which is when \<open>accept\<close> returns; a client
  can only join a port that is listened at.
\<close>

record gathering =
  ahead :: "meeting list list"
  listening :: "16 word set"
  joined :: "16 word set"

inductive gather :: "gathering \<Rightarrow> gathering \<Rightarrow> bool" where
  listens: "i < length (ahead s) \<Longrightarrow> ahead s ! i = Serves p # ms \<Longrightarrow> p \<notin> listening s \<Longrightarrow>
    gather s (s\<lparr>listening := insert p (listening s)\<rparr>)"
| accepts: "i < length (ahead s) \<Longrightarrow> ahead s ! i = Serves p # ms \<Longrightarrow> p \<in> joined s \<Longrightarrow>
    gather s (s\<lparr>ahead := (ahead s)[i := ms]\<rparr>)"
| joins: "i < length (ahead s) \<Longrightarrow> ahead s ! i = Joins p # ms \<Longrightarrow> p \<in> listening s \<Longrightarrow>
    gather s (s\<lparr>ahead := (ahead s)[i := ms], joined := insert p (joined s)\<rparr>)"

inductive gathers :: "meeting list list \<Rightarrow> gathering \<Rightarrow> bool" for mss where
  gathers_start: "gathers mss \<lparr>ahead = mss, listening = {}, joined = {}\<rparr>"
| gathers_step: "gathers mss s \<Longrightarrow> gather s s' \<Longrightarrow> gathers mss s'"

definition gathered :: "gathering \<Rightarrow> bool" where
  "gathered s \<longleftrightarrow> (\<forall>ms \<in> set (ahead s). ms = [])"

text \<open>What is still to be done: every meeting ahead, and listening for every server ahead.\<close>

definition remaining :: "gathering \<Rightarrow> nat" where
  "remaining s = (\<Sum>ms \<leftarrow> ahead s. length ms) + card ({p. \<exists>ms \<in> set (ahead s). Serves p \<in> set ms} - listening s)"

text \<open>How far the three have come, in a test over the network.\<close>

definition analyzer_meetings :: "meeting list" where
  "analyzer_meetings = [Serves 8200, Serves 8100]"

definition consumer_meetings :: "meeting list" where
  "consumer_meetings = [Joins 8200, Serves 8000]"

definition producer_meetings :: "meeting list" where
  "producer_meetings = [Joins 8100, Joins 8000]"

definition gather_inv :: "gathering \<Rightarrow> bool" where
  "gather_inv s \<longleftrightarrow> (\<exists>a c p.
     ahead s = [drop a analyzer_meetings, drop c consumer_meetings, drop p producer_meetings] \<and>
     a \<le> 2 \<and> c \<le> 2 \<and> p \<le> 2 \<and>
     (8200 \<in> joined s \<longleftrightarrow> 1 \<le> c) \<and> (8100 \<in> joined s \<longleftrightarrow> 1 \<le> p) \<and> (8000 \<in> joined s \<longleftrightarrow> 2 \<le> p) \<and>
     (1 \<le> a \<longrightarrow> 8200 \<in> joined s) \<and> (2 \<le> a \<longrightarrow> 8100 \<in> joined s) \<and> (2 \<le> c \<longrightarrow> 8000 \<in> joined s) \<and>
     joined s \<subseteq> listening s)"

lemma meeting_lists:
  "drop 0 xs = xs" "drop (Suc 0) analyzer_meetings = [Serves 8100]" "drop 2 analyzer_meetings = []"
  "drop (Suc 0) consumer_meetings = [Serves 8000]" "drop 2 consumer_meetings = []"
  "drop (Suc 0) producer_meetings = [Joins 8000]" "drop 2 producer_meetings = []"
  by (simp_all add: analyzer_meetings_def consumer_meetings_def producer_meetings_def)

lemma le_2_cases: "(n :: nat) \<le> 2 \<longleftrightarrow> n = 0 \<or> n = Suc 0 \<or> n = 2"
  by auto

lemma gather_inv_start: "gather_inv \<lparr>ahead = [analyzer_meetings, consumer_meetings, producer_meetings], listening = {}, joined = {}\<rparr>"
  unfolding gather_inv_def
  by (rule exI [of _ 0], rule exI [of _ 0], rule exI [of _ 0]) simp

lemma gather_inv_step:
  assumes "gather_inv s" and "gather s s'"
  shows "gather_inv s'"
proof -
  obtain a c p where ahead: "ahead s = [drop a analyzer_meetings, drop c consumer_meetings, drop p producer_meetings]"
    and n: "a \<le> 2" "c \<le> 2" "p \<le> 2"
    and j: "8200 \<in> joined s \<longleftrightarrow> 1 \<le> c" "8100 \<in> joined s \<longleftrightarrow> 1 \<le> p" "8000 \<in> joined s \<longleftrightarrow> 2 \<le> p"
    and l: "1 \<le> a \<longrightarrow> 8200 \<in> joined s" "2 \<le> a \<longrightarrow> 8100 \<in> joined s" "2 \<le> c \<longrightarrow> 8000 \<in> joined s"
      "joined s \<subseteq> listening s"
    using assms(1) unfolding gather_inv_def by blast
  have i3: "i < 3 \<longleftrightarrow> i = 0 \<or> i = Suc 0 \<or> i = 2" for i :: nat by auto
  note lists = meeting_lists analyzer_meetings_def consumer_meetings_def producer_meetings_def
  have inv: "gather_inv s'" if "ahead s' = [drop a' analyzer_meetings, drop c' consumer_meetings, drop p' producer_meetings]"
    "a' \<le> 2" "c' \<le> 2" "p' \<le> 2"
    "8200 \<in> joined s' \<longleftrightarrow> 1 \<le> c'" "8100 \<in> joined s' \<longleftrightarrow> 1 \<le> p'" "8000 \<in> joined s' \<longleftrightarrow> 2 \<le> p'"
    "1 \<le> a' \<longrightarrow> 8200 \<in> joined s'" "2 \<le> a' \<longrightarrow> 8100 \<in> joined s'" "2 \<le> c' \<longrightarrow> 8000 \<in> joined s'"
    "joined s' \<subseteq> listening s'" for a' c' p'
    unfolding gather_inv_def using that by blast
  from assms(2) show ?thesis
  proof cases
    case (listens i q ms)
    show ?thesis by (rule inv [of a c p]) (use listens(1) ahead n j l in auto)
  next
    case (accepts i q ms)
    have "i < 3" using accepts(2) ahead by simp
    then consider "i = 0" "a = 0" "q = 8200" "ms = [Serves 8100]" | "i = 0" "a = 1" "q = 8100" "ms = []"
      | "i = Suc 0" "c = 1" "q = 8000" "ms = []"
      using accepts(3) n unfolding i3 le_2_cases ahead by (elim disjE) (simp_all add: lists)
    then show ?thesis
    proof cases
      case 1
      show ?thesis by (rule inv [of 1 c p]) (use 1 accepts(1,4) ahead n j l in \<open>simp_all add: lists\<close>)
    next
      case 2
      show ?thesis by (rule inv [of 2 c p]) (use 2 accepts(1,4) ahead n j l in \<open>simp_all add: lists\<close>)
    next
      case 3
      show ?thesis by (rule inv [of a 2 p]) (use 3 accepts(1,4) ahead n j l in \<open>simp_all add: lists\<close>)
    qed
  next
    case (joins i q ms)
    have "i < 3" using joins(2) ahead by simp
    then consider "i = Suc 0" "c = 0" "q = 8200" "ms = [Serves 8000]" | "i = 2" "p = 0" "q = 8100" "ms = [Joins 8000]"
      | "i = 2" "p = 1" "q = 8000" "ms = []"
      using joins(3) n unfolding i3 le_2_cases ahead by (elim disjE) (simp_all add: lists)
    then show ?thesis
    proof cases
      case 1
      show ?thesis by (rule inv [of a 1 p]) (use 1 joins(1,4) ahead n j l in \<open>auto simp: lists\<close>)
    next
      case 2
      show ?thesis by (rule inv [of a c 1]) (use 2 joins(1,4) ahead n j l in \<open>auto simp: lists\<close>)
    next
      case 3
      show ?thesis by (rule inv [of a c 2]) (use 3 joins(1,4) ahead n j l in \<open>auto simp: lists\<close>)
    qed
  qed
qed

lemma gather_goes_on:
  assumes "gather_inv s" and "\<not> gathered s"
  shows "\<exists>s'. gather s s'"
proof -
  obtain a c p where ahead: "ahead s = [drop a analyzer_meetings, drop c consumer_meetings, drop p producer_meetings]"
    and n: "a \<le> 2" "c \<le> 2" "p \<le> 2"
    and j: "8200 \<in> joined s \<longleftrightarrow> 1 \<le> c" "8100 \<in> joined s \<longleftrightarrow> 1 \<le> p" "8000 \<in> joined s \<longleftrightarrow> 2 \<le> p"
    and l: "1 \<le> a \<longrightarrow> 8200 \<in> joined s" "2 \<le> a \<longrightarrow> 8100 \<in> joined s" "2 \<le> c \<longrightarrow> 8000 \<in> joined s"
      "joined s \<subseteq> listening s"
    using assms(1) unfolding gather_inv_def by blast
  note lists = meeting_lists analyzer_meetings_def consumer_meetings_def producer_meetings_def
  have serve: "\<exists>s'. gather s s'" if "i < 3" "ahead s ! i = Serves q # ms" "q \<notin> listening s \<or> q \<in> joined s" for i q ms
    using listens [of i s q ms] accepts [of i s q ms] that ahead by auto
  have join: "\<exists>s'. gather s s'" if "i < 3" "ahead s ! i = Joins q # ms" "q \<in> listening s" for i q ms
    using joins [of i s q ms] that ahead by auto
  consider "c = 0" "a = 0" | "1 \<le> c" "a = 0" | "1 \<le> c" "a = 1" | "a = 2" "p = 1" "c = 1" | "a = 2" "p = 1" "c = 2"
    | "a = 2" "p = 2" "c = 1" | "a = 2" "p = 2" "c = 2"
  proof -
    have "1 \<le> c" if "1 \<le> a" using that j(1) l(1) by blast
    moreover have "1 \<le> p" if "2 \<le> a" using that j(2) l(2) by blast
    moreover have "c = 0 \<or> c = 1 \<or> c = 2" "a = 0 \<or> a = 1 \<or> a = 2" "p = 0 \<or> p = 1 \<or> p = 2" using n by linarith+
    ultimately show ?thesis by (elim disjE) (use that in simp_all)
  qed
  then show ?thesis
  proof cases
    case 1
    then show ?thesis using serve [of 0 8200] join [of 1 8200] ahead by (cases "8200 \<in> listening s") (simp_all add: lists)
  next
    case 2
    then show ?thesis using serve [of 0 8200] ahead j by (simp add: lists)
  next
    case 3
    show ?thesis
    proof (cases "8100 \<in> listening s \<and> p = 0")
      case True
      then show ?thesis using join [of 2 8100] ahead by (simp add: lists)
    next
      case False
      then have "8100 \<notin> listening s \<or> 8100 \<in> joined s" using j(2) by auto
      from serve [OF _ _ this, of 0 "[]"] show ?thesis using ahead 3 by (simp add: lists)
    qed
  next
    case 4
    then show ?thesis using serve [of 1 8000] join [of 2 8000] ahead by (cases "8000 \<in> listening s") (simp_all add: lists)
  next
    case 5
    then show ?thesis using j l by simp
  next
    case 6
    then show ?thesis using serve [of 1 8000] ahead j by (simp add: lists)
  next
    case 7
    then show ?thesis using assms(2) ahead by (simp add: gathered_def lists)
  qed
qed

text \<open>Every step brings the end nearer, whatever the meetings.\<close>

definition to_serve :: "meeting list list \<Rightarrow> 16 word set" where
  "to_serve mss = {p. \<exists>ms \<in> set mss. Serves p \<in> set ms}"

lemma finite_to_serve: "finite (to_serve mss)"
proof (rule finite_subset)
  show "to_serve mss \<subseteq> (\<Union>ms \<in> set mss. {p. Serves p \<in> set ms})" by (auto simp: to_serve_def)
  have "{p. Serves p \<in> set ms} \<subseteq> (\<lambda>m. case m of Serves p \<Rightarrow> p | Joins p \<Rightarrow> p) ` set ms" for ms
    by (force split: meeting.splits)
  then have "finite {p. Serves p \<in> set ms}" for ms
    by (rule finite_subset) simp
  then show "finite (\<Union>ms \<in> set mss. {p. Serves p \<in> set ms})" by simp
qed

lemma fewer_ahead:
  assumes "i < length mss" and "mss ! i = m # ms"
  shows "(\<Sum>ms \<leftarrow> mss[i := ms]. length ms) < (\<Sum>ms \<leftarrow> mss. length ms)"
    and "to_serve (mss[i := ms]) \<subseteq> to_serve mss"
proof -
  have "length (m # ms) \<le> (\<Sum>ms \<leftarrow> mss. length ms)"
    using nth_mem [OF assms(1)] assms(2) by (intro member_le_sum_list) (simp_all add: rev_image_eqI)
  then show "(\<Sum>ms \<leftarrow> mss[i := ms]. length ms) < (\<Sum>ms \<leftarrow> mss. length ms)"
    using assms by (simp add: map_update sum_list_update)
  show "to_serve (mss[i := ms]) \<subseteq> to_serve mss"
  proof
    fix p assume "p \<in> to_serve (mss[i := ms])"
    then obtain ns where ns: "ns \<in> set (mss[i := ms])" "Serves p \<in> set ns" unfolding to_serve_def by blast
    have "m # ms \<in> set mss" using nth_mem [OF assms(1)] assms(2) by simp
    moreover have "ns = ms \<or> ns \<in> set mss" using ns(1) set_update_subset_insert [of mss i ms] by blast
    ultimately show "p \<in> to_serve mss" using ns(2) unfolding to_serve_def by (metis (mono_tags) list.set_intros(2) mem_Collect_eq)
  qed
qed

lemma gather_nearer: "gather s s' \<Longrightarrow> remaining s' < remaining s"
proof (induction rule: gather.induct)
  case (listens i s p ms)
  have "Serves p # ms \<in> set (ahead s)" using listens(2) nth_mem [OF listens(1)] by simp
  then have "p \<in> to_serve (ahead s) - listening s"
    using listens(3) unfolding to_serve_def by force
  then have "card (to_serve (ahead s) - insert p (listening s)) < card (to_serve (ahead s) - listening s)"
    by (intro psubset_card_mono) (auto simp: finite_to_serve)
  then show ?case by (simp add: remaining_def to_serve_def)
next
  case (accepts i s p ms)
  have "card (to_serve ((ahead s)[i := ms]) - listening s) \<le> card (to_serve (ahead s) - listening s)"
    using fewer_ahead(2) [OF accepts(1,2)] by (intro card_mono) (auto simp: finite_to_serve)
  then show ?case using fewer_ahead(1) [OF accepts(1,2)] by (simp add: remaining_def to_serve_def)
next
  case (joins i s p ms)
  have "card (to_serve ((ahead s)[i := ms]) - listening s) \<le> card (to_serve (ahead s) - listening s)"
    using fewer_ahead(2) [OF joins(1,2)] by (intro card_mono) (auto simp: finite_to_serve)
  then show ?case using fewer_ahead(1) [OF joins(1,2)] by (simp add: remaining_def to_serve_def)
qed

section \<open>The meetings of the modes\<close>

lemma connection_of_Inr:
  "connection_of c n = Inr p \<Longrightarrow> c = Some (t, cid) \<Longrightarrow> params_type p = t \<and> params_id p = cid"
  by (auto simp: connection_of_def initialised_def rbind_Inr)

lemma network_hosts:
  "ParseHostAndPort '':8000'' = Inr \<lparr>host = [], port = 8000\<rparr>"
  "ParseHostAndPort '':8100'' = Inr \<lparr>host = [], port = 8100\<rparr>"
  "ParseHostAndPort '':8200'' = Inr \<lparr>host = [], port = 8200\<rparr>"
  "ParseHostAndPort ''localhost:8000'' = Inr \<lparr>host = ''localhost'', port = 8000\<rparr>"
  "ParseHostAndPort ''localhost:8100'' = Inr \<lparr>host = ''localhost'', port = 8100\<rparr>"
  "ParseHostAndPort ''localhost:8200'' = Inr \<lparr>host = ''localhost'', port = 8200\<rparr>"
  by (simp_all add: ParseHostAndPort_def substr_def substr_from_def stoi_def Let_def
      is_space_def scan_int_def scan_digits_def is_digit_def char_digit_def in_int_def)

lemma meets_result: "meets (io_bind (io_of_result r) f) ms" if "\<And>x. r = Inr x \<Longrightarrow> meets (f x) ms"
  by (rule meets_skip) (auto simp: io_of_result_run intro: that)

lemma meets_print: "meets (io_bind (io_print s) f) ms" if "\<And>x. meets (f x) ms"
  by (rule meets_skip) (auto intro: that)

lemma meets_two:
  "meets m [x] \<Longrightarrow> (\<And>c. meets (f c) [y]) \<Longrightarrow> (\<And>c d. g c d = io_return (k c d)) \<Longrightarrow>
   meets (io_bind m (\<lambda>c. io_guard (destroy c) (io_bind (f c) (\<lambda>d. g c d)))) [x, y]"
  using meets_bind [of m "[x]" "\<lambda>c. io_guard (destroy c) (io_bind (f c) (\<lambda>d. g c d))" "[y]"]
  by (simp add: meets_guard meets_last)

lemma analyzer_meets:
  assumes "aa_measurer_consumer a = Some (kNetSocket, connection_id kMeasurerConsumerServer kNetSocket)"
    and "aa_measurer_producer a = Some (kNetSocket, connection_id kMeasurerProducerServer kNetSocket)"
  shows "meets (CreateAnalyzer E a) analyzer_meetings"
proof -
  have "meets (Analyzer_ConsumerServer E p) [Serves 8200]" if "Analyzer_ConsumerServerParams a = Inr p" for p
    using meets_mode_servers(1) [of p _ E] connection_of_Inr [OF that [unfolded Analyzer_ConsumerServerParams_def] assms(1)]
    by (simp add: connection_ids network_hosts sin_port_def)
  moreover have "meets (Analyzer_ProducerServer E p) [Serves 8100]" if "Analyzer_ProducerServerParams a = Inr p" for p
    using meets_mode_servers(2) [of p _ E] connection_of_Inr [OF that [unfolded Analyzer_ProducerServerParams_def] assms(2)]
    by (simp add: connection_ids network_hosts sin_port_def)
  ultimately show ?thesis
    unfolding CreateAnalyzer_steps analyzer_meetings_def by (intro meets_result meets_two) simp_all
qed

lemma consumer_meets:
  assumes "ca_measurer a = Some (kNetSocket, connection_id kMeasurerConsumerClient kNetSocket)"
    and "ca_connection a = Some (kNetSocket, connection_id kConsumerProducerServer kNetSocket)"
  shows "meets (CreateConsumer E a) consumer_meetings"
proof -
  have "meets (Consumer_MeasurerClient E p) [Joins 8200]" if "Consumer_MeasurerClientParams a = Inr p" for p
    using meets_mode_clients(3) [of p _ E] connection_of_Inr [OF that [unfolded Consumer_MeasurerClientParams_def] assms(1)]
    by (simp add: connection_ids network_hosts sin_port_def)
  moreover have "meets (Consumer_ProducerServer E p) [Serves 8000]" if "Consumer_ProducerServerParams a = Inr p" for p
    using meets_mode_servers(3) [of p _ E] connection_of_Inr [OF that [unfolded Consumer_ProducerServerParams_def] assms(2)]
    by (simp add: connection_ids network_hosts sin_port_def)
  ultimately show ?thesis
    unfolding CreateConsumer_steps consumer_meetings_def by (intro meets_result meets_print meets_two) simp_all
qed

lemma producer_meets:
  assumes "pa_measurer a = Some (kNetSocket, connection_id kMeasurerProducerClient kNetSocket)"
    and "pa_connection a = Some (kNetSocket, connection_id kConsumerProducerClient kNetSocket)"
  shows "meets (CreateProducer E a) producer_meetings"
proof -
  have "meets (Producer_MeasurerClient E p) [Joins 8100]" if "Producer_MeasurerClientParams a = Inr p" for p
    using meets_mode_clients(1) [of p _ E] connection_of_Inr [OF that [unfolded Producer_MeasurerClientParams_def] assms(1)]
    by (simp add: connection_ids network_hosts sin_port_def)
  moreover have "meets (Producer_ConsumerClient E p) [Joins 8000]" if "Producer_ConsumerClientParams a = Inr p" for p
    using meets_mode_clients(2) [of p _ E] connection_of_Inr [OF that [unfolded Producer_ConsumerClientParams_def] assms(2)]
    by (simp add: connection_ids network_hosts sin_port_def)
  ultimately show ?thesis
    unfolding CreateProducer_steps producer_meetings_def by (intro meets_result meets_print meets_two) simp_all
qed

section \<open>Property\<close>

text \<open>The arguments \<open>run_test\<close> gives its children for network sockets, as they parse them.\<close>

definition over_network :: "analyzer_args \<Rightarrow> consumer_args \<Rightarrow> producer_args \<Rightarrow> bool" where
  "over_network aa ca pa \<longleftrightarrow>
     aa_measurer_consumer aa = Some (kNetSocket, connection_id kMeasurerConsumerServer kNetSocket) \<and>
     aa_measurer_producer aa = Some (kNetSocket, connection_id kMeasurerProducerServer kNetSocket) \<and>
     ca_measurer ca = Some (kNetSocket, connection_id kMeasurerConsumerClient kNetSocket) \<and>
     ca_connection ca = Some (kNetSocket, connection_id kConsumerProducerServer kNetSocket) \<and>
     pa_measurer pa = Some (kNetSocket, connection_id kMeasurerProducerClient kNetSocket) \<and>
     pa_connection pa = Some (kNetSocket, connection_id kConsumerProducerClient kNetSocket)"

lemma over_network_meetings:
  assumes "over_network aa ca pa"
    and "CreateAnalyzer Ea aa Ka [] = Some (Inr z, ha)" and "CreateConsumer Ec ca Kc [] = Some (Inr c, hc)"
    and "CreateProducer Ep pa Kp [] = Some (Inr p, hp)"
  shows "meetings ha = analyzer_meetings" "meetings hc = consumer_meetings" "meetings hp = producer_meetings"
  using assms analyzer_meets [of aa Ea] consumer_meets [of ca Ec] producer_meets [of pa Ep]
  by (auto simp: over_network_def meets_def)

lemma gathers_inv:
  assumes "gathers [analyzer_meetings, consumer_meetings, producer_meetings] s"
  shows "gather_inv s"
  using assms by induction (auto intro: gather_inv_start gather_inv_step)

text \<open>C36: the processes of a test over the network serve and join their connections in orders that fit: however
  the three are interleaved, as long as one of them has a connection left, one of them can go on, and
  every step leaves less to do.  So all three get to work, whoever starts first.\<close>

theorem all_gather:
  assumes "over_network aa ca pa"
    and "CreateAnalyzer Ea aa Ka [] = Some (Inr z, ha)" and "CreateConsumer Ec ca Kc [] = Some (Inr c, hc)"
    and "CreateProducer Ep pa Kp [] = Some (Inr p, hp)"
    and "gathers [meetings ha, meetings hc, meetings hp] s"
  shows "(gathered s \<or> (\<exists>s'. gather s s')) \<and> (\<forall>s'. gather s s' \<longrightarrow> remaining s' < remaining s)"
  using assms(5) gathers_inv gather_goes_on gather_nearer
  unfolding over_network_meetings [OF assms(1-4)] by blast

definition network_analyzer :: analyzer_args where
  "network_analyzer = \<lparr>aa_chunks_total_count = Some 2,
     aa_measurer_producer = Some (kNetSocket, connection_id kMeasurerProducerServer kNetSocket),
     aa_measurer_consumer = Some (kNetSocket, connection_id kMeasurerConsumerServer kNetSocket)\<rparr>"

definition network_consumer :: consumer_args where
  "network_consumer = \<lparr>ca_chunks_total_count = Some 2,
     ca_connection = Some (kNetSocket, connection_id kConsumerProducerServer kNetSocket),
     ca_connection_buffer_size = None,
     ca_measurer = Some (kNetSocket, connection_id kMeasurerConsumerClient kNetSocket), ca_cpu = - 1\<rparr>"

definition network_producer :: producer_args where
  "network_producer = \<lparr>pa_chunks_size = Some 20, pa_chunks_total_count = Some 2,
     pa_connection = Some (kNetSocket, connection_id kConsumerProducerClient kNetSocket),
     pa_connection_buffer_size = None,
     pa_measurer = Some (kNetSocket, connection_id kMeasurerProducerClient kNetSocket), pa_cpu = - 1\<rparr>"

lemma network_params:
  "Producer_MeasurerPackerParams network_producer = Inr kNetSocket"
  "Producer_ConsumerPackerParams network_producer = Inr kNetSocket"
  "Producer_MeasurerClientParams network_producer = Inr (at_port ''localhost:8100'')"
  "Producer_ConsumerClientParams network_producer = Inr (at_port ''localhost:8000'')"
  "Consumer_MeasurerPackerParams network_consumer = Inr kNetSocket"
  "Consumer_ProducerPackerParams network_consumer = Inr kNetSocket"
  "Consumer_MeasurerClientParams network_consumer = Inr (at_port ''localhost:8200'')"
  "Consumer_ProducerServerParams network_consumer = Inr (at_port '':8000'')"
  "Analyzer_ConsumerPackerParams network_analyzer = Inr kNetSocket"
  "Analyzer_ProducerPackerParams network_analyzer = Inr kNetSocket"
  "Analyzer_ConsumerServerParams network_analyzer = Inr (at_port '':8200'')"
  "Analyzer_ProducerServerParams network_analyzer = Inr (at_port '':8100'')"
  by (simp_all add: network_producer_def network_consumer_def network_analyzer_def Producer_MeasurerPackerParams_def
      Producer_ConsumerPackerParams_def Producer_MeasurerClientParams_def Producer_ConsumerClientParams_def
      Consumer_MeasurerPackerParams_def Consumer_ProducerPackerParams_def Consumer_MeasurerClientParams_def
      Consumer_ProducerServerParams_def Analyzer_ConsumerPackerParams_def Analyzer_ProducerPackerParams_def
      Analyzer_ConsumerServerParams_def Analyzer_ProducerServerParams_def connection_ids
      connection_of_def initialised_def optional_size_def at_port_def)

lemma obliging_network:
  "\<exists>c h'. Producer_MeasurerClient E (at_port ''localhost:8100'') obliging_kernel h = Some (Inr c, h')"
  "\<exists>c h'. Producer_ConsumerClient E (at_port ''localhost:8000'') obliging_kernel h = Some (Inr c, h')"
  "\<exists>c h'. Consumer_MeasurerClient E (at_port ''localhost:8200'') obliging_kernel h = Some (Inr c, h')"
  "\<exists>s h'. Consumer_ProducerServer E (at_port '':8000'') obliging_kernel h = Some (Inr s, h')"
  "\<exists>s h'. Analyzer_ConsumerServer E (at_port '':8200'') obliging_kernel h = Some (Inr s, h')"
  "\<exists>s h'. Analyzer_ProducerServer E (at_port '':8100'') obliging_kernel h = Some (Inr s, h')"
  by (simp_all add: at_port_def network_hosts Producer_MeasurerClient_def Producer_ConsumerClient_def
      Consumer_MeasurerClient_def Consumer_ProducerServer_def Analyzer_ConsumerServer_def Analyzer_ProducerServer_def
      NetSocketClient_GetBufferSize_def NetSocketServer_GetBufferSize_def set_buffer_size_def report_size_def
      net_run run_simps obliging_kernel_def Let_def)

lemma network_created:
  "\<exists>z h. CreateAnalyzer example_environment network_analyzer obliging_kernel [] = Some (Inr z, h)"
  "\<exists>c h. CreateConsumer example_environment network_consumer obliging_kernel [] = Some (Inr c, h)"
  "\<exists>p h. CreateProducer example_environment network_producer obliging_kernel [] = Some (Inr p, h)"
proof -
  obtain g m where g: "SimpleRoundGenerator (env_impl example_environment) (env_string_max example_environment) 20 2 = Inr g"
    and m: "Measurer (env_impl example_environment) 2 = Inr m"
    using example_vectors by blast
  have n: "initialised (pa_chunks_size network_producer) = Inr 20"
    "initialised (pa_chunks_total_count network_producer) = Inr 2"
    "initialised (ca_chunks_total_count network_consumer) = Inr 2"
    "initialised (aa_chunks_total_count network_analyzer) = Inr 2"
    by (simp_all add: initialised_def network_producer_def network_consumer_def network_analyzer_def)
  note results = n [THEN io_then_result] network_params [THEN io_then_result] g [THEN io_then_result] m [THEN io_then_result]
  note runs = io_then io_guard_then obliging_print obliging_network io_returns
  show "\<exists>z h. CreateAnalyzer example_environment network_analyzer obliging_kernel [] = Some (Inr z, h)"
    unfolding CreateAnalyzer_steps results by (intro runs)
  show "\<exists>c h. CreateConsumer example_environment network_consumer obliging_kernel [] = Some (Inr c, h)"
    unfolding CreateConsumer_steps results by (intro runs)
  show "\<exists>p h. CreateProducer example_environment network_producer obliging_kernel [] = Some (Inr p, h)"
    unfolding CreateProducer_steps results by (intro runs)
qed

text \<open>With every process still to come, one of them can go on.\<close>

theorem all_gather_witness:
  "\<exists>z c p ha hc hp. CreateAnalyzer example_environment network_analyzer obliging_kernel [] = Some (Inr z, ha) \<and>
    CreateConsumer example_environment network_consumer obliging_kernel [] = Some (Inr c, hc) \<and>
    CreateProducer example_environment network_producer obliging_kernel [] = Some (Inr p, hp) \<and>
    (\<exists>s'. gather \<lparr>ahead = [meetings ha, meetings hc, meetings hp], listening = {}, joined = {}\<rparr> s')"
proof -
  obtain z c p ha hc hp where created:
    "CreateAnalyzer example_environment network_analyzer obliging_kernel [] = Some (Inr z, ha)"
    "CreateConsumer example_environment network_consumer obliging_kernel [] = Some (Inr c, hc)"
    "CreateProducer example_environment network_producer obliging_kernel [] = Some (Inr p, hp)"
    using network_created by blast
  have net: "over_network network_analyzer network_consumer network_producer"
    by (simp add: over_network_def network_analyzer_def network_consumer_def network_producer_def)
  let ?s = "\<lparr>ahead = [meetings ha, meetings hc, meetings hp], listening = {}, joined = {}\<rparr>"
  have "\<not> gathered ?s"
    by (simp add: gathered_def over_network_meetings [OF net created] analyzer_meetings_def)
  then have "\<exists>s'. gather ?s s'"
    using all_gather [OF net created gathers_start] by blast
  with created show ?thesis by blast
qed

end
