(* ===== verification/Shared_Test.thy ===== *)
theory Shared_Test
  imports Ring_Progress Pairing
begin

text \<open>
  A test over shared memory: the loops of producer and consumer at the two ends of one ring, interleaved at every
  access of shared memory, with the messages packed by the one and unpacked by the other.
\<close>

section \<open>The two loops\<close>

text \<open>
  The ring with the program counters inside \<open>Push\<close> and \<open>Pop\<close>, the producer's generator, measurer and buffer, and the
  consumer's measurer and buffer.  \<open>st_received\<close> records the messages the consumer has unpacked.
\<close>

record shm_test =
  st_ring :: ring_conf
  st_generator :: "byte list vec"
  st_producer :: measurer
  st_out :: buffer
  st_consumer :: measurer
  st_in :: buffer
  st_received :: "byte list list"

text \<open>
  Outside of \<open>Push\<close> a turn of the producer's loop is one step: \<open>Tick\<close>, \<open>Reset\<close>, \<open>Next\<close>, \<open>Pack\<close> and the call of \<open>Push\<close>
  with the bytes written.  A turn of the consumer's is two: \<open>Reset\<close> and the call of \<open>Pop\<close> on the buffer's memory,
  and after its return \<open>Unpack\<close> and \<open>Tick\<close>.  The clocks may show anything.
\<close>

inductive shm_step :: "vector_impl \<Rightarrow> string_impl \<Rightarrow> packer \<Rightarrow> u32 \<Rightarrow> shm_test \<Rightarrow> shm_test \<Rightarrow> bool"
  for impl :: vector_impl and si :: string_impl and pk :: packer and c :: u32 where
  shm_sends: "p_pc (st_ring s) = P_Idle \<Longrightarrow> Generator_HasNext (st_generator s) = Inr True \<Longrightarrow>
    Generator_Next (st_generator s) = Inr (msg, g) \<Longrightarrow>
    string_Serialize pk msg (Reset (st_out s)) = Inr b \<Longrightarrow> buffer_content b = Inr bs \<Longrightarrow>
    shm_step impl si pk c s (s\<lparr>st_ring := push_call c bs (st_ring s), st_generator := g,
      st_producer := Tick impl t (st_producer s), st_out := b\<rparr>)"
| shm_pushes: "p_pc (st_ring s) \<noteq> P_Idle \<Longrightarrow> p_step c (st_ring s) r \<Longrightarrow>
    shm_step impl si pk c s (s\<lparr>st_ring := r\<rparr>)"
| shm_asks: "c_pc (st_ring s) = C_Idle \<Longrightarrow> \<not> IsFull (st_consumer s) \<Longrightarrow> b = Reset (st_in s) \<Longrightarrow>
    shm_step impl si pk c s (s\<lparr>st_ring := pop_call (buffer_bytes b) (Capacity b) (st_ring s), st_in := b\<rparr>)"
| shm_pops: "c_pc (st_ring s) \<noteq> C_Idle \<Longrightarrow> c_step c (st_ring s) r \<Longrightarrow> c_pc r \<noteq> C_Idle \<Longrightarrow>
    shm_step impl si pk c s (s\<lparr>st_ring := r\<rparr>)"
| shm_receives: "c_pc (st_ring s) = C_Store bs ps i' ff fit ov \<Longrightarrow>
    r = pop_store c bs ps i' ff fit ov (st_ring s) \<Longrightarrow> c_pc r = C_Idle \<Longrightarrow>
    string_Deserialize si pk (st_in s\<lparr>buffer_bytes := bs\<rparr>) = Inr (msg, b) \<Longrightarrow>
    shm_step impl si pk c s (s\<lparr>st_ring := r, st_consumer := Tick impl t (st_consumer s), st_in := b,
      st_received := st_received s @ [msg]\<rparr>)"

definition shm_start :: "byte list \<Rightarrow> byte list vec \<Rightarrow> measurer \<Rightarrow> buffer \<Rightarrow> buffer \<Rightarrow> shm_test" where
  "shm_start mem g m bp bc = \<lparr>st_ring = ring_start mem, st_generator = Generator_ToFirst g, st_producer = m, st_out = bp,
     st_consumer = m, st_in = bc, st_received = []\<rparr>"

text \<open>Everything has been sent, received and unpacked.\<close>

definition shm_over :: "shm_test \<Rightarrow> bool" where
  "shm_over s \<longleftrightarrow> p_pc (st_ring s) = P_Idle \<and> c_pc (st_ring s) = C_Idle \<and>
     Generator_HasNext (st_generator s) = Inr False \<and> IsFull (st_consumer s)"

section \<open>The steps are the turns of the loops\<close>

text \<open>\<open>Send\<close> as the call that hands the bytes of the buffer to \<open>Push\<close>, and \<open>Receive\<close> as the return of \<open>Pop\<close> with the bytes
  \<open>bs\<close> in the buffer's memory: with these, a turn of the producer's loop and one of the consumer's are the steps.\<close>

definition hand_over :: "buffer \<Rightarrow> byte list list \<Rightarrow> (byte list list, byte list list) outcome" where
  "hand_over b ws = obind (in_world ws (buffer_content b)) (\<lambda>bs. Some (Inr (ws @ [bs])))"

lemma shm_sends_message:
  assumes "p_pc (st_ring s) = P_Idle" and "Generator_HasNext (st_generator s) = Inr True"
    and "Producer_message impl clock pk hand_over (st_generator s, st_producer s, st_out s, ws) = Some (Inr (g, m, b, ws'))"
  shows "\<exists>bs. ws' = ws @ [bs] \<and> shm_step impl si pk c s
    (s\<lparr>st_ring := push_call c bs (st_ring s), st_generator := g, st_producer := m, st_out := b\<rparr>)"
proof -
  obtain msg bs where "Generator_Next (st_generator s) = Inr (msg, g)" "string_Serialize pk msg (Reset (st_out s)) = Inr b"
    "buffer_content b = Inr bs" "ws' = ws @ [bs]" "m = Tick impl (clock (Count (st_producer s))) (st_producer s)"
    using assms(3)
    by (cases "Generator_Next (st_generator s)"; cases "string_Serialize pk (fst (projr (Generator_Next (st_generator s)))) (Reset (st_out s))";
        cases "buffer_content (projr (string_Serialize pk (fst (projr (Generator_Next (st_generator s)))) (Reset (st_out s))))")
      (auto simp: Producer_message_def hand_over_def Let_def)
  then show ?thesis using shm_sends [OF assms(1,2)] by auto
qed

lemma shm_receives_message:
  assumes "c_pc (st_ring s) = C_Store bs ps i' ff fit ov" and "r = pop_store c bs ps i' ff fit ov (st_ring s)" and "c_pc r = C_Idle"
    and "st_in s = Reset b0"
    and "Consumer_message impl si clock pk (\<lambda>b w. Some (Inr (b\<lparr>buffer_bytes := bs\<rparr>, w))) (st_consumer s, b0, w) = Some (Inr (m, b, w'))"
  shows "\<exists>msg. shm_step impl si pk c s
    (s\<lparr>st_ring := r, st_consumer := m, st_in := b, st_received := st_received s @ [msg]\<rparr>)"
proof -
  obtain msg where "string_Deserialize si pk (st_in s\<lparr>buffer_bytes := bs\<rparr>) = Inr (msg, b)"
    "m = Tick impl (clock (Count (st_consumer s))) (st_consumer s)"
    using assms(4,5) by (cases "string_Deserialize si pk (st_in s\<lparr>buffer_bytes := bs\<rparr>)") (auto simp: Consumer_message_def)
  then show ?thesis
    using shm_receives [OF assms(1-3), of si pk msg b impl "clock (Count (st_consumer s))"] by (intro exI [of _ msg]) simp
qed

section \<open>Invariant\<close>

definition in_push :: "shm_test \<Rightarrow> nat" where
  "in_push s = (if p_pc (st_ring s) = P_Idle then 0 else 1)"

text \<open>\<open>enc\<close> is how the packer writes a word and \<open>msgs\<close> are the messages of the generator.\<close>

definition shm_inv :: "(u64 \<Rightarrow> byte list) \<Rightarrow> byte list list \<Rightarrow> nat \<Rightarrow> shm_test \<Rightarrow> bool" where
  "shm_inv enc msgs c s \<longleftrightarrow>
     (let r = st_ring s; N = length (pushed r); n = length (popped r); wire = map (string_bytes enc) msgs in
      ring_inv c r \<and> buffer_inv (st_out s) \<and> buffer_inv (st_in s) \<and>
      elems (st_generator s) = msgs \<and> iter (st_generator s) = Some (N + in_push s) \<and> N + in_push s \<le> length msgs \<and>
      pushed r = take N wire \<and> (p_pc r \<noteq> P_Idle \<longrightarrow> p_payload (p_pc r) = Some (wire ! N)) \<and>
      vcap (st_consumer s) = length msgs \<and> length (elems (st_consumer s)) = n \<and>
      vcap (st_producer s) = length msgs \<and> length (elems (st_producer s)) = N + in_push s \<and>
      st_received s = take n msgs \<and>
      c_room kBufferCapacityInBytes (c_pc r) \<and> (c_pc r \<noteq> C_Idle \<longrightarrow> rd (st_in s) = 0 \<and> n < length msgs))"


lemma shm_inv_start:
  assumes "length mem = c" and "0 < c" and "c < 2 ^ 32" and "4 dvd c"
    and "elems g = msgs" and "measurer_rel (length msgs) m []" and "buffer_inv bp" and "buffer_inv bc"
  shows "shm_inv enc msgs c (shm_start mem g m bp bc)"
  using ring_inv_start [OF assms(1-4)] assms(5-)
  by (simp add: shm_inv_def shm_start_def in_push_def Let_def measurer_rel_def Generator_ToFirst_def vec_to_first_def)
    (simp add: ring_start_def)

text \<open>What a test needs of its ring, packer and messages.\<close>

definition shm_fits :: "string_impl \<Rightarrow> packer \<Rightarrow> (u64 \<Rightarrow> byte list) \<Rightarrow> (byte list \<Rightarrow> u64) \<Rightarrow> byte list list \<Rightarrow> nat \<Rightarrow> bool" where
  "shm_fits si pk enc dec msgs c \<longleftrightarrow> word_packer pk enc dec \<and> strings_fit si \<and>
     (\<forall>x \<in> set msgs. 8 + length x \<le> kBufferCapacityInBytes \<and> RecordHeader_size + 8 + length x \<le> c)"

lemma shm_wire:
  assumes "shm_fits si pk enc dec msgs c" and "w \<in> set (map (string_bytes enc) msgs)"
  shows "length w \<le> kBufferCapacityInBytes" "RecordHeader_size + length w \<le> c"
  using assms by (auto simp: shm_fits_def string_bytes_def word_packer.length_enc)

lemma shm_pushed:
  assumes "shm_inv enc msgs c s" and "shm_fits si pk enc dec msgs c"
  shows "\<forall>w \<in> set (pushed (st_ring s)). length w \<le> kBufferCapacityInBytes"
proof -
  have "pushed (st_ring s) = take (length (pushed (st_ring s))) (map (string_bytes enc) msgs)"
    using assms(1) by (simp add: shm_inv_def Let_def)
  then have "set (pushed (st_ring s)) \<subseteq> set (map (string_bytes enc) msgs)" by (metis set_take_subset)
  with shm_wire(1) [OF assms(2)] show ?thesis by blast
qed

text \<open>The producer's turn: the next message, packed.\<close>

lemma shm_packs:
  assumes "shm_inv enc msgs c s" and "shm_fits si pk enc dec msgs c" and "p_pc (st_ring s) = P_Idle"
  defines "N \<equiv> length (pushed (st_ring s))"
  shows "Generator_HasNext (st_generator s) = Inr (N < length msgs)"
    and "N < length msgs \<Longrightarrow> Generator_Next (st_generator s) = Inr (msgs ! N, st_generator s\<lparr>iter := Some (Suc N)\<rparr>)"
    and "N < length msgs \<Longrightarrow> \<exists>b. string_Serialize pk (msgs ! N) (Reset (st_out s)) = Inr b \<and> buffer_inv b \<and>
      buffer_content b = Inr (map (string_bytes enc) msgs ! N)"
proof -
  have g: "elems (st_generator s) = msgs" "iter (st_generator s) = Some N" "N \<le> length msgs" and b: "buffer_inv (st_out s)"
    using assms(1,3) by (simp_all add: shm_inv_def Let_def in_push_def N_def)
  then show "Generator_HasNext (st_generator s) = Inr (N < length msgs)"
    "N < length msgs \<Longrightarrow> Generator_Next (st_generator s) = Inr (msgs ! N, st_generator s\<lparr>iter := Some (Suc N)\<rparr>)"
    by (auto simp: Generator_HasNext_def Generator_Next_def vec_has_next_def vec_next_def)
  assume N: "N < length msgs"
  have pk: "word_packer pk enc dec" using assms(2) by (simp add: shm_fits_def)
  have "length (string_bytes enc (msgs ! N)) \<le> kBufferCapacityInBytes"
    using shm_wire(1) [OF assms(2), of "string_bytes enc (msgs ! N)"] N by simp
  from writes_reset [OF word_packer.writes_string [OF pk] b this]
  obtain b' where "string_Serialize pk (msgs ! N) (Reset (st_out s)) = Inr b'" "buffer_inv b'"
    "written b' = string_bytes enc (msgs ! N)" by blast
  then show "\<exists>b. string_Serialize pk (msgs ! N) (Reset (st_out s)) = Inr b \<and> buffer_inv b \<and>
      buffer_content b = Inr (map (string_bytes enc) msgs ! N)"
    using N by (intro exI [of _ b']) (simp add: buffer_content_written)
qed

text \<open>The call of \<open>Push\<close>: the message fits, so it gets to the waiting loop.\<close>

lemma push_call_waits:
  assumes "RecordHeader_size + length m \<le> c" and "c < 2 ^ 32"
  shows "\<exists>i rs. p_pc (push_call (of_nat c) m r) = P_Wait m i rs"
  using Push_record_size_ok [OF assms] by (simp add: push_call_def)

lemma push_call_sel [simp]:
  "pushed (push_call c m r) = pushed r" "popped (push_call c m r) = popped r" "c_pc (push_call c m r) = c_pc r"
  by (simp_all add: push_call_def)

lemma pop_call_sel [simp]:
  "pushed (pop_call bs cap r) = pushed r" "popped (pop_call bs cap r) = popped r" "p_pc (pop_call bs cap r) = p_pc r"
  "c_pc (pop_call bs cap r) = C_Wait bs cap (index_of_u64 (last (c_hist r)))"
  by (simp_all add: pop_call_def)

lemma Tick_sel: "length (elems m) < vcap m \<Longrightarrow> vcap (Tick impl t m) = vcap m"
  "length (elems (Tick impl t m)) = Suc (length (elems m))"
  by (simp_all add: Tick_def vec_emplace_back_def)

text \<open>What has been popped is the next message, packed; in the buffer it unpacks to the message.\<close>

lemma shm_unpacks:
  assumes inv: "shm_inv enc msgs c s" and fits: "shm_fits si pk enc dec msgs c"
    and pc: "c_pc (st_ring s) = C_Store bs ps i' ff fit ov"
  defines "n \<equiv> length (popped (st_ring s))"
  shows "n < length msgs" and "\<exists>b. string_Deserialize si pk (st_in s\<lparr>buffer_bytes := bs\<rparr>) = Inr (msgs ! n, b) \<and> buffer_inv b"
proof -
  let ?r = "st_ring s"
  have r: "ring_inv c ?r" "buffer_inv (st_in s)" "length bs = kBufferCapacityInBytes" "rd (st_in s) = 0"
    and w: "pushed ?r = take (length (pushed ?r)) (map (string_bytes enc) msgs)" "length (pushed ?r) \<le> length msgs"
    using inv pc by (simp_all add: shm_inv_def Let_def)
  note g = pop_store_gives [OF pc r(1), folded n_def]
  show n: "n < length msgs" using g(1) w(2) by simp
  have m: "pushed ?r ! n = string_bytes enc (msgs ! n)" using g(1) n by (subst w(1)) simp
  have "received (string_bytes enc (msgs ! n)) (st_in s\<lparr>buffer_bytes := bs\<rparr>)"
    using r g(2) unfolding m
    by (simp add: received_def buffer_inv_def unread_def rd_def wr_def buffer_offset_def)
  then show "\<exists>b. string_Deserialize si pk (st_in s\<lparr>buffer_bytes := bs\<rparr>) = Inr (msgs ! n, b) \<and> buffer_inv b"
    using received_reads [OF word_packer.reads_string] fits by (auto simp: shm_fits_def)
qed

lemma shm_inv_step:
  assumes "shm_step impl si pk (of_nat c) s s'" and inv: "shm_inv enc msgs c s"
    and fits: "shm_fits si pk enc dec msgs c" and c: "c < 2 ^ 32"
  shows "shm_inv enc msgs c s'"
  using assms(1)
proof cases
  case (shm_sends msg g b bs t)
  let ?r = "st_ring s" and ?N = "length (pushed (st_ring s))"
  note pk = shm_packs [OF inv fits shm_sends(2)]
  have N: "?N < length msgs" using pk(1) shm_sends(3) by simp
  have b: "msg = msgs ! ?N" "g = st_generator s\<lparr>iter := Some (Suc ?N)\<rparr>" "buffer_inv b"
    "bs = map (string_bytes enc) msgs ! ?N"
    using pk(2,3) [OF N] shm_sends(4,5,6) by auto
  have w: "RecordHeader_size + length bs \<le> c" using shm_wire(2) [OF fits, of bs] N b(4) by simp
  obtain i rs where pc: "p_pc (push_call (of_nat c) bs ?r) = P_Wait bs i rs" using push_call_waits [OF w c] by blast
  have "ring_inv c (push_call (of_nat c) bs ?r)"
    using push_call_inv inv w c by (simp add: shm_inv_def Let_def)
  then show ?thesis
    using inv N b pc shm_sends(2) unfolding shm_sends(1)
    by (simp add: shm_inv_def Let_def in_push_def Tick_sel)
next
  case (shm_pushes r)
  let ?r = "st_ring s"
  have r: "ring_inv c ?r" "p_payload (p_pc ?r) = Some (map (string_bytes enc) msgs ! length (pushed ?r))"
    and N: "length (pushed ?r) < length msgs"
    using inv shm_pushes(2) by (simp_all add: shm_inv_def Let_def in_push_def)
  note e = p_step_effect [OF shm_pushes(3) r(2,1)]
  have "ring_inv c r" using ring_inv_p_step [OF shm_pushes(3) r(1)] .
  moreover have "p_pc r \<noteq> P_Idle \<longleftrightarrow> pushed r = pushed ?r" using e by auto
  ultimately show ?thesis
    using inv shm_pushes(2) e N unfolding shm_pushes(1)
    by (auto simp: shm_inv_def Let_def in_push_def take_Suc_conv_app_nth)
next
  case (shm_asks b)
  have l: "length (buffer_bytes b) = kBufferCapacityInBytes" "unat (Capacity b) = kBufferCapacityInBytes"
    using inv shm_asks(4) by (simp_all add: shm_inv_def Let_def buffer_inv_def Capacity_def kBufferCapacityInBytes_def)
  have "ring_inv c (pop_call (buffer_bytes b) (Capacity b) (st_ring s))"
    using inv by (intro pop_call_inv) (simp_all add: shm_inv_def Let_def l)
  moreover have "length (popped (st_ring s)) \<noteq> length msgs" "length (popped (st_ring s)) \<le> length msgs"
    using inv shm_asks(3) by (auto simp: shm_inv_def Let_def IsFull_def ring_inv_def)
  ultimately show ?thesis
    using inv l unfolding shm_asks(1) by (simp add: shm_inv_def Let_def in_push_def shm_asks(4))
next
  case (shm_pops r)
  let ?r = "st_ring s"
  have r: "ring_inv c ?r" "c_room kBufferCapacityInBytes (c_pc ?r)" using inv by (simp_all add: shm_inv_def Let_def)
  note e = c_step_effect [OF shm_pops(3,2) r shm_pushed [OF inv fits] buffer_capacity_less]
  then show ?thesis
    using inv ring_inv_c_step [OF shm_pops(3) r(1)] shm_pops(2,4) unfolding shm_pops(1)
    by (simp add: shm_inv_def Let_def in_push_def)
next
  case (shm_receives bs ps i' ff fit ov r msg b t)
  let ?r = "st_ring s" and ?n = "length (popped (st_ring s))"
  note u = shm_unpacks [OF inv fits shm_receives(2)]
  have ri: "ring_inv c ?r" using inv by (simp add: shm_inv_def Let_def)
  note g = pop_store_gives [OF shm_receives(2) ri, folded shm_receives(3)]
  have b: "msg = msgs ! ?n" "buffer_inv b" using u(2) shm_receives(5) by auto
  have "ring_inv c r" using pop_store_inv [OF ri shm_receives(2)] shm_receives(3) by simp
  then show ?thesis
    using inv u(1) b g unfolding shm_receives(1)
    by (simp add: shm_inv_def Let_def in_push_def Tick_sel take_Suc_conv_app_nth)
qed


section \<open>Getting to the end\<close>

text \<open>The steps that are left at most, apart from loads that find nothing new.\<close>

definition shm_left :: "byte list list \<Rightarrow> shm_test \<Rightarrow> nat" where
  "shm_left msgs s = 6 * (length msgs - (length (pushed (st_ring s)) + in_push s)) + p_left (p_pc (st_ring s)) +
     (6 * (length msgs - length (popped (st_ring s))) - c_done (c_pc (st_ring s)))"

inductive shm_run :: "vector_impl \<Rightarrow> string_impl \<Rightarrow> packer \<Rightarrow> u32 \<Rightarrow> shm_test \<Rightarrow> shm_test \<Rightarrow> bool" for impl si pk c s where
  shm_none: "shm_run impl si pk c s s"
| shm_more: "shm_run impl si pk c s s' \<Longrightarrow> shm_step impl si pk c s' s'' \<Longrightarrow> shm_run impl si pk c s s''"

lemma shm_run_first:
  "shm_step impl si pk c s s' \<Longrightarrow> shm_run impl si pk c s' s'' \<Longrightarrow> shm_run impl si pk c s s''"
  by (rotate_tac 1, induction rule: shm_run.induct) (auto intro: shm_none shm_more)

lemma shm_inv_run:
  assumes "shm_run impl si pk (of_nat c) s s'" and "shm_inv enc msgs c s"
    and "shm_fits si pk enc dec msgs c" and "c < 2 ^ 32"
  shows "shm_inv enc msgs c s'"
  using assms(1) by induction (auto intro: assms(2) shm_inv_step [OF _ _ assms(3,4)])

lemma c_done_le: "c_done pc \<le> 5"
  by (cases pc) simp_all

lemma turnI:
  "shm_step impl si pk c s s' \<Longrightarrow> shm_left msgs s' < shm_left msgs s \<Longrightarrow>
   \<exists>s'. shm_step impl si pk c s s' \<and> shm_left msgs s' < shm_left msgs s"
  by blast

text \<open>A producer that is not waiting for the ring takes a step towards the end.\<close>

lemma producer_turn:
  assumes inv: "shm_inv enc msgs c s" and fits: "shm_fits si pk enc dec msgs c" and c: "c < 2 ^ 32"
    and N: "p_pc (st_ring s) = P_Idle \<longrightarrow> length (pushed (st_ring s)) < length msgs"
    and nw: "\<And>m i rs. p_pc (st_ring s) \<noteq> P_Wait m i rs"
  shows "\<exists>s'. shm_step impl si pk (of_nat c) s s' \<and> shm_left msgs s' < shm_left msgs s"
proof (cases "p_pc (st_ring s) = P_Idle")
  case True
  note pk = shm_packs [OF inv fits True]
  obtain b where b: "string_Serialize pk (msgs ! length (pushed (st_ring s))) (Reset (st_out s)) = Inr b"
    "buffer_content b = Inr (map (string_bytes enc) msgs ! length (pushed (st_ring s)))"
    using pk(3) N True by blast
  have "Generator_HasNext (st_generator s) = Inr True" using pk(1) N True by simp
  note st = shm_sends [OF True this pk(2) b, of impl si "of_nat c"]
  obtain i rs where "p_pc (push_call (of_nat c) (map (string_bytes enc) msgs ! length (pushed (st_ring s))) (st_ring s)) =
      P_Wait (map (string_bytes enc) msgs ! length (pushed (st_ring s))) i rs"
    using push_call_waits [OF shm_wire(2) [OF fits] c] N True by (metis length_map nth_mem)
  moreover have le: "length (pushed (st_ring s)) < length msgs" using N True by simp
  ultimately show ?thesis
    by (intro turnI [OF st [OF le]]) (use True le in \<open>simp add: shm_left_def in_push_def\<close>)
next
  case False
  let ?r = "st_ring s"
  have r: "ring_inv c ?r" "p_payload (p_pc ?r) = Some (map (string_bytes enc) msgs ! length (pushed ?r))"
    and le: "length (pushed ?r) < length msgs"
    using inv False by (simp_all add: shm_inv_def Let_def in_push_def)
  obtain r' where st: "p_step (of_nat c) ?r r'" "p_left (p_pc r') < p_left (p_pc ?r)"
    using p_step_next [OF r(2) nw r(1)] by blast
  have "shm_left msgs (s\<lparr>st_ring := r'\<rparr>) < shm_left msgs s"
    using p_step_effect [OF st(1) r(2,1)] st(2) False le by (auto simp: shm_left_def in_push_def)
  with shm_pushes [OF False st(1), of impl si pk] show ?thesis by blast
qed

text \<open>So does a consumer that wants a message, unless it waits at an empty ring.\<close>

lemma consumer_turn:
  assumes inv: "shm_inv enc msgs c s" and fits: "shm_fits si pk enc dec msgs c" and c: "c < 2 ^ 32"
    and n: "length (popped (st_ring s)) < length msgs"
    and nw: "\<And>bs cap i. c_pc (st_ring s) = C_Wait bs cap i \<Longrightarrow>
      length (popped (st_ring s)) < length (pushed (st_ring s))"
  shows "\<exists>s'. shm_step impl si pk (of_nat c) s s' \<and> shm_left msgs s' < shm_left msgs s"
proof -
  let ?r = "st_ring s"
  have r: "ring_inv c ?r" "c_room kBufferCapacityInBytes (c_pc ?r)" using inv by (simp_all add: shm_inv_def Let_def)
  note small = shm_pushed [OF inv fits] buffer_capacity_less
  have pops: ?thesis if pc: "c_pc ?r \<noteq> C_Idle" "c_pc r' \<noteq> C_Idle" "c_done (c_pc ?r) < c_done (c_pc r')"
    and st: "c_step (of_nat c) ?r r'" for r'
  proof -
    have "shm_left msgs (s\<lparr>st_ring := r'\<rparr>) < shm_left msgs s"
      using c_step_effect [OF st pc(1) r small] pc c_done_le [of "c_pc r'"] n
      by (auto simp: shm_left_def in_push_def)
    with shm_pops [OF pc(1) st pc(2), of impl si pk] show ?thesis by blast
  qed
  show ?thesis
  proof (cases "c_pc ?r")
    case C_Idle
    have "\<not> IsFull (st_consumer s)" using inv n by (simp add: shm_inv_def Let_def IsFull_def)
    note st = shm_asks [OF C_Idle this refl, of impl si pk "of_nat c"]
    then show ?thesis using n C_Idle by (intro turnI [OF st]) (simp add: shm_left_def in_push_def)
  next
    case (C_Wait bs cap i)
    with consumer_sees [OF r(1) C_Wait nw [OF C_Wait]] show ?thesis by (intro pops [rotated 3]) auto
  next
    case (C_Store bs ps i' ff fit ov)
    let ?r' = "pop_store (of_nat c) bs ps i' ff fit ov ?r"
    note g = pop_store_gives [OF C_Store r(1)] and u = shm_unpacks [OF inv fits C_Store]
    obtain b where "string_Deserialize si pk (st_in s\<lparr>buffer_bytes := bs\<rparr>) = Inr (msgs ! length (popped ?r), b)"
      using u(2) by blast
    note st = shm_receives [OF C_Store refl g(4) this, of impl]
    show ?thesis by (rule turnI [OF st]) (use g C_Store n in \<open>simp add: shm_left_def in_push_def\<close>)
  next
    case (C_Error e)
    with r(2) show ?thesis by simp
  next
    case (C_Header bs cap i)
    with c_step_next [OF _ _ _ r small] show ?thesis by (metis consumer_pc.distinct pops)
  next
    case (C_Fit bs ps i i' ff fit ov)
    with c_step_next [OF _ _ _ r small] show ?thesis by (metis consumer_pc.distinct pops)
  next
    case (C_Overflowed bs ps i' ff fit ov)
    with c_step_next [OF _ _ _ r small] show ?thesis by (metis consumer_pc.distinct pops)
  qed
qed

lemma shm_goes_on:
  assumes inv: "shm_inv enc msgs c s" and fits: "shm_fits si pk enc dec msgs c" and c: "c < 2 ^ 32"
    and "\<not> shm_over s"
  shows "\<exists>s'. shm_step impl si pk (of_nat c) s s' \<and> shm_left msgs s' < shm_left msgs s"
proof -
  let ?r = "st_ring s"
  let ?N = "length (pushed ?r)" and ?n = "length (popped ?r)"
  have r: "ring_inv c ?r" and n: "?n \<le> ?N" "?N \<le> length msgs" and i: "c_pc ?r \<noteq> C_Idle \<Longrightarrow> ?n < length msgs"
    and w: "p_pc ?r \<noteq> P_Idle \<Longrightarrow> ?N < length msgs"
    using inv by (auto simp: shm_inv_def Let_def in_push_def ring_inv_def split: if_splits)
  note producer = producer_turn [OF inv fits c] and consumer = consumer_turn [OF inv fits c]
  show ?thesis
  proof (cases "\<exists>m i rs. p_pc ?r = P_Wait m i rs")
    case True
    then obtain m i rs where pc: "p_pc ?r = P_Wait m i rs" by blast
    have N: "?n < length msgs" using n w pc by simp
    show ?thesis
    proof (cases "?n < ?N")
      case True
      show ?thesis using consumer [OF N True] .
    next
      case False
      with n have "length (popped ?r) = length (pushed ?r)" by simp
      note st = producer_sees [OF r c pc this]
      let ?r' = "push_load (of_nat c) (length (popped ?r)) m i rs ?r"
      have ne: "p_pc ?r \<noteq> P_Idle" using pc by simp
      show ?thesis
        by (rule turnI [OF shm_pushes [OF ne conjunct1 [OF st]]])
          (use st pc in \<open>simp add: shm_left_def in_push_def push_load_def\<close>)
    qed
  next
    case False
    show ?thesis
    proof (cases "p_pc ?r = P_Idle \<and> ?N = length msgs")
      case False
      with \<open>\<nexists>m i rs. p_pc ?r = P_Wait m i rs\<close> n w show ?thesis by (intro producer) auto
    next
      case True
      have "?n < length msgs"
      proof (rule ccontr)
        assume "\<not> ?n < length msgs"
        with i n have "c_pc ?r = C_Idle" "?n = length msgs" by auto
        with True inv assms(4) show False
          by (simp add: shm_over_def shm_inv_def Let_def in_push_def IsFull_def Generator_HasNext_def vec_has_next_def)
      qed
      with True show ?thesis by (intro consumer) simp_all
    qed
  qed
qed

lemma shm_ends:
  assumes "shm_inv enc msgs c s" and fits: "shm_fits si pk enc dec msgs c" and c: "c < 2 ^ 32"
  shows "\<exists>s'. shm_run impl si pk (of_nat c) s s' \<and> shm_over s' \<and> shm_inv enc msgs c s'"
  using assms(1)
proof (induction "shm_left msgs s" arbitrary: s rule: less_induct)
  case less
  show ?case
  proof (cases "shm_over s")
    case True
    with less.prems show ?thesis by (blast intro: shm_none)
  next
    case False
    obtain s1 where s1: "shm_step impl si pk (of_nat c) s s1" "shm_left msgs s1 < shm_left msgs s"
      using shm_goes_on [OF less.prems fits c False] by blast
    from less.hyps [OF s1(2) shm_inv_step [OF s1(1) less.prems fits c]]
    show ?thesis using shm_run_first [OF s1(1)] by blast
  qed
qed

section \<open>Property\<close>

text \<open>C3: over shared memory, however the accesses of the two processes interleave and however old the indices they
  see: the consumer has unpacked a prefix of the generator's messages, with one tick each, and neither side has
  failed; and from every state that is reached, both loops can still be completed, with all messages
  received.\<close>

theorem shared_memory_test:
  assumes "unat n * unat cs < 2 ^ 64" and "cs \<le> string_max_size si" and "n \<le> vi_max_size impl"
    and "vi_reserve impl n = unat n" and "strings_fit si"
    and "SimpleRoundGenerator impl (string_max_size si) cs n = Inr g" and "Measurer impl n = Inr m"
    and "buffer_inv bp" and "buffer_inv bc" and "length mem = c" and "c < 2 ^ 32" and "4 dvd c"
    and "8 + unat cs \<le> kBufferCapacityInBytes" and "RecordHeader_size + 8 + unat cs \<le> c"
    and "shm_run impl si (CreatePacker hst kSharedMemory) (of_nat c) (shm_start mem g m bp bc) s"
  shows "st_received s = take (length (st_received s)) (elems g) \<and>
    length (elems (st_consumer s)) = length (st_received s) \<and>
    (\<forall>e. p_pc (st_ring s) \<noteq> P_Error e \<and> c_pc (st_ring s) \<noteq> C_Error e) \<and>
    (\<exists>s'. shm_run impl si (CreatePacker hst kSharedMemory) (of_nat c) s s' \<and> shm_over s' \<and>
      st_received s' = elems g \<and> IsFull (st_producer s'))"
proof -
  let ?pk = "CreatePacker hst kSharedMemory" and ?enc = "chosen_bytes hst kSharedMemory"
  have g: "elems g = map (\<lambda>i. alphabet_run (unat (alphabet_size cs)) (i * unat cs) (unat cs)) [0..<unat n]"
    using generator_run [OF assms(1-3)] assms(6) by auto
  then have len: "length (elems g) = unat n" by simp
  have fits: "shm_fits si ?pk ?enc (chosen_word hst kSharedMemory) (elems g) c"
    using g assms(5,13,14) chosen.word_packer_axioms by (auto simp: shm_fits_def)
  have c: "0 < c" using assms(14) by (simp add: RecordHeader_size_def)
  have m: "measurer_rel (length (elems g)) m []"
    using Measurer_rel [OF assms(4,3)] assms(7) len by auto
  have inv: "shm_inv ?enc (elems g) c s"
    by (rule shm_inv_run [OF assms(15) shm_inv_start [OF assms(10) c assms(11,12) refl m assms(8,9)] fits assms(11)])
  then have now: "st_received s = take (length (popped (st_ring s))) (elems g)"
    "length (elems (st_consumer s)) = length (popped (st_ring s))" "length (popped (st_ring s)) \<le> length (elems g)"
    by (auto simp: shm_inv_def Let_def ring_inv_def)
  have ok: "p_pc (st_ring s) \<noteq> P_Error e \<and> c_pc (st_ring s) \<noteq> C_Error e" for e
    using inv by (auto simp: shm_inv_def Let_def)
  obtain s' where s': "shm_run impl si ?pk (of_nat c) s s'" "shm_over s'" "shm_inv ?enc (elems g) c s'"
    using shm_ends [OF inv fits assms(11)] by blast
  then have "st_received s' = elems g \<and> IsFull (st_producer s')"
    by (auto simp: shm_over_def shm_inv_def Let_def IsFull_def in_push_def Generator_HasNext_def vec_has_next_def)
  with now ok s' show ?thesis by auto
qed

text \<open>Two messages of 20 bytes in a ring of 32, which has room for one record.\<close>

theorem shared_memory_test_witness:
  "\<exists>g m s. SimpleRoundGenerator exact_vectors (string_max_size ample_strings) 20 2 = Inr g \<and> Measurer exact_vectors 2 = Inr m \<and>
    shm_run exact_vectors ample_strings (CreatePacker kLittle kSharedMemory) 32
      (shm_start (replicate 32 0) g m start_buffer start_buffer) s \<and>
    shm_over s \<and> st_received s = elems g"
proof -
  obtain g where g: "SimpleRoundGenerator exact_vectors (string_max_size ample_strings) 20 2 = Inr g"
    using generator_run [of 2 20 "2 ^ 62" exact_vectors] by (auto simp: exact_vectors_def ample_strings_def)
  obtain m where m: "Measurer exact_vectors 2 = Inr m"
    using Measurer_rel [of exact_vectors 2] by (auto simp: exact_vectors_def)
  have "unat (2 :: u64) * unat (20 :: u64) < 2 ^ 64" "(20 :: u64) \<le> string_max_size ample_strings"
    "2 \<le> vi_max_size exact_vectors" "vi_reserve exact_vectors 2 = unat (2 :: u64)"
    "strings_fit ample_strings"
    by (simp_all add: exact_vectors_def ample_strings(1)) (simp add: ample_strings_def)
  note a = this
  have "length (replicate 32 (0 :: byte)) = 32" "(32 :: nat) < 2 ^ 32" "4 dvd (32 :: nat)"
    "8 + unat (20 :: u64) \<le> kBufferCapacityInBytes" "RecordHeader_size + 8 + unat (20 :: u64) \<le> 32"
    by (simp_all add: kBufferCapacityInBytes_def RecordHeader_size_def)
  from shared_memory_test [OF a g m start_buffer_inv(1) start_buffer_inv(1) this shm_none, of kLittle] g m
  show ?thesis by auto
qed

end
