(* ===== verification/Traffic.thy ===== *)
theory Traffic
  imports Pairing
begin

text \<open>
  What the three \<open>Run\<close> functions do with connections over descriptors that take and deliver messages whole
  and in order: the sequence of their writes and reads, and the measurers they end with.
\<close>

section \<open>Writing and reading\<close>

text \<open>A kernel that takes each of the messages \<open>ms\<close> whole when it is written to \<open>fd\<close>, as a \<open>write\<close> that may block does.\<close>

definition takes_whole :: "kernel \<Rightarrow> FileDescriptor \<Rightarrow> byte list list \<Rightarrow> bool" where
  "takes_whole K fd ms \<longleftrightarrow> (\<forall>h. \<forall>bs \<in> set ms. K h (Sys_write fd bs) = Some (Returns (int (length bs))))"

definition writes_of :: "FileDescriptor \<Rightarrow> byte list list \<Rightarrow> history" where
  "writes_of fd ms = map (\<lambda>bs. (Sys_write fd bs, Returns (int (length bs)))) ms"

lemma puts_all:
  assumes "takes_whole K fd ms"
  shows "ofold (fd_put K fd) ms h = Some (Inr (h @ writes_of fd ms))"
  using assms
proof (induction ms arbitrary: h)
  case (Cons bs ms)
  then have "fd_put K fd bs h = Some (Inr (h @ [(Sys_write fd bs, Returns (int (length bs)))]))"
    by (simp add: fd_put_def takes_whole_def)
  with Cons show ?case by (simp add: writes_of_def takes_whole_def)
qed (simp add: writes_of_def)

text \<open>The messages and the ticks of a test as they are on the wire, between processes on one host.\<close>

definition message_wire :: "Endianness \<Rightarrow> ConnectionType \<Rightarrow> byte list vec \<Rightarrow> byte list list" where
  "message_wire h t g = map (string_bytes (chosen_bytes h t)) (elems g)"

definition tick_wire :: "Endianness \<Rightarrow> ConnectionType \<Rightarrow> time_point list \<Rightarrow> byte list list" where
  "tick_wire h t ts = map (tick_bytes (chosen_bytes h t)) ts"

text \<open>The first \<open>n\<close> readings of a process's clock.\<close>

definition readings :: "(nat \<Rightarrow> time_point) \<Rightarrow> nat \<Rightarrow> time_point list" where
  "readings clock n = map clock [0..<n]"

lemma producer_traffic:
  assumes K: "takes_whole K f1 (message_wire hst t g)" "takes_whole K f2 (tick_wire hst t (readings clock (length (elems g))))"
    and b: "buffer_inv b" and m: "measurer_rel (length (elems g)) m []"
    and fits: "\<forall>x \<in> set (elems g). 8 + length x \<le> kBufferCapacityInBytes"
  shows "\<exists>m' b'. Producer_Run impl clock (CreatePacker hst t) (fd_send K f1) (CreatePacker hst t) (fd_send K f2) g m b h =
    Some (Inr (m', b', h @ writes_of f1 (message_wire hst t g) @
      writes_of f2 (tick_wire hst t (readings clock (length (elems g))))))"
proof -
  let ?m = "fold (\<lambda>_ m. Tick impl (clock (Count m)) m) (elems g) m"
  obtain g1 b1 where 1: "buffer_inv b1" "while_loop (\<lambda>(generator, _, _, w). at_world w (Generator_HasNext generator))
      (Producer_message impl clock (CreatePacker hst t) (fd_send K f1)) (Generator_ToFirst g, m, b, h) =
      obind (ofold (fd_put K f1) (message_wire hst t g) h) (\<lambda>h'. Some (Inr (g1, ?m, b1, h')))"
    using fd_client.message_loop [OF chosen.word_packer_axioms b fits] unfolding message_wire_def by blast
  have "measurer_rel (length (elems g)) ?m (readings clock (length (elems g)))"
    using clock_ticks [OF m, of "elems g" impl clock] by (simp add: readings_def)
  then have ticks: "elems ?m = readings clock (length (elems g))" by (simp add: measurer_rel_def)
  obtain m2 b2 where 2: "report_ticks (CreatePacker hst t) (fd_send K f2) (?m, b1, h @ writes_of f1 (message_wire hst t g)) =
      obind (ofold (fd_put K f2) (tick_wire hst t (readings clock (length (elems g)))) (h @ writes_of f1 (message_wire hst t g)))
        (\<lambda>h'. Some (Inr (m2, b2, h')))"
    using fd_client.report_loop [OF chosen.word_packer_axioms [of hst t] 1(1), where K = K and fd = f2 and m = ?m
        and w = "h @ writes_of f1 (message_wire hst t g)"] unfolding ticks tick_wire_def by blast
  show ?thesis
    by (intro exI [of _ m2] exI [of _ b2])
      (simp add: Producer_Run_def 1(2) puts_all [OF K(1)] 2 puts_all [OF K(2)])
qed

lemma consumer_traffic:
  assumes K: "takes_whole K f2 (tick_wire hst t (readings clock (length (elems g))))" and b: "buffer_inv b" and m: "measurer_rel (length (elems g)) m []"
    and fits: "\<forall>x \<in> set (elems g). 8 + length x \<le> kBufferCapacityInBytes"
    and max: "strings_fit si"
    and t: "pending K f1 h (message_wire hst t g)"
  shows "\<exists>m' b'. Consumer_Run impl si clock (CreatePacker hst t) (fd_receive K f1)
      (CreatePacker hst t) (fd_send K f2) m b h =
    Some (Inr (m', b', h @ reads_from f1 (message_wire hst t g) @
      writes_of f2 (tick_wire hst t (readings clock (length (elems g))))))"
proof -
  let ?h = "h @ reads_from f1 (message_wire hst t g)"
  obtain m1 b1 where 1: "while_loop (\<lambda>s. Inr (\<not> IsFull (fst s)))
      (Consumer_message impl si clock (CreatePacker hst t) (fd_receive K f1)) (m, b, h) = Some (Inr (m1, b1, ?h))"
    "elems m1 = readings clock (length (elems g))" "buffer_inv b1"
    using fd_server.consumer_loop [OF chosen.word_packer_axioms max m _ b fits, of K f1 h hst t ?h impl clock]
      pending_takes [OF t] by (auto simp: message_wire_def readings_def)
  obtain m2 b2 where "report_ticks (CreatePacker hst t) (fd_send K f2) (m1, b1, ?h) =
      obind (ofold (fd_put K f2) (tick_wire hst t (readings clock (length (elems g)))) ?h) (\<lambda>h'. Some (Inr (m2, b2, h')))"
    using fd_client.report_loop [OF chosen.word_packer_axioms [of hst t] 1(3), where K = K and fd = f2 and m = m1 and w = ?h]
    unfolding 1(2) tick_wire_def by blast
  then show ?thesis
    by (intro exI [of _ m2] exI [of _ b2]) (simp add: Consumer_Run_def 1(1) puts_all [OF K])
qed

section \<open>What a process says\<close>

text \<open>The texts it prints and the messages it writes, in order.\<close>

fun says :: "syscall \<Rightarrow> bool" where
  "says (Sys_print _) = True"
| "says (Sys_write _ _) = True"
| "says _ = False"

definition said :: "history \<Rightarrow> syscall list" where
  "said h = filter says (map fst h)"

lemma said_simps [simp]:
  "said [] = []" "said ((c, r) # h) = (if says c then [c] else []) @ said h" "said (h @ h') = said h @ said h'"
  by (simp_all add: said_def)

lemma said_writes [simp]: "said (writes_of fd ms) = map (Sys_write fd) ms"
  by (simp add: said_def writes_of_def comp_def filter_map)

lemma said_reads [simp]: "said (reads_from fd ms) = []"
  by (simp add: said_def reads_from_def comp_def filter_empty_conv)

lemma analyzer_traffic:
  assumes "buffer_inv b1" and "buffer_inv b2" and "measurer_rel n m1 []" and "measurer_rel n m2 []"
    and "length ts1 = n" and "length ts2 = n" and "f1 \<noteq> f2"
    and "pending K f1 h (tick_wire hst t ts1)" and "pending K f2 h (tick_wire hst t ts2)"
  shows "\<exists>mc mp g. elems mc = ts1 \<and> elems mp = ts2 \<and> said g = [] \<and>
    Analyzer_Run fl impl schedule (CreatePacker hst t) (fd_receive K f1) (CreatePacker hst t) (fd_receive K f2)
      (m1, b1) (m2, b2) h =
    Option.bind (Process fl mp mc) (\<lambda>r. obind (in_world (h @ g) r) (\<lambda>text. Some (Inr (text, h @ g))))"
proof -
  let ?P = "\<lambda>h'. \<exists>g. h' = h @ g \<and> said g = []"
  have P: "?P w'" if "?P w" "fd_take K f1 w = Some (Inr (m, w')) \<or> fd_take K f2 w = Some (Inr (m, w'))" for w m w'
    using that by (auto simp: fd_take_def Let_def split: if_splits)
  have "\<exists>k' mc ba mp bb h'. Analyzer_threads impl schedule (CreatePacker hst t) (fd_receive K f1) (CreatePacker hst t)
      (fd_receive K f2) (0, (m1, b1), (m2, b2), h) = Some (Inr (k', (mc, ba), (mp, bb), h')) \<and>
    elems mc = [] @ ts1 \<and> elems mp = [] @ ts2 \<and> ?P h'"
  proof (rule fd_servers.threads_loop [where P = ?P and K = K and ?f1.0 = f1 and ?f2.0 = f2,
        OF chosen.word_packer_axioms [of hst t] chosen.word_packer_axioms [of hst t] P assms(3,4) _ _ assms(1,2)])
  qed (use assms(5-9) in \<open>auto simp: tick_wire_def\<close>)
  then obtain k' mc ba mp bb h' where "Analyzer_threads impl schedule (CreatePacker hst t) (fd_receive K f1)
      (CreatePacker hst t) (fd_receive K f2) (0, (m1, b1), (m2, b2), h) = Some (Inr (k', (mc, ba), (mp, bb), h'))"
    "elems mc = ts1" "elems mp = ts2" "?P h'" unfolding append_Nil by blast
  then show ?thesis
    by (intro exI [of _ mc] exI [of _ mp]) (auto simp: Analyzer_Run_def)
qed

end
