(* ===== verification/Main_Program.thy ===== *)
theory Main_Program
  imports Modes
begin

text \<open>
  The program from its command line on: \<open>main\<close> and what each mode does with \<open>argv\<close>.  The three children
  of a test are this program with the arguments \<open>run_test\<close> gives them.
\<close>

section \<open>The modes from their command lines on\<close>

text \<open>How a process ends that does not die of an exception: with a status, or as another program.\<close>

datatype process_end = Exited int | Became "string list"

text \<open>
  What follows \<open>argp_parse\<close>.  When the parser fails or does not know an option, \<open>argp\<close> itself prints a message and
  ends the process with the status \<open>EX_USAGE\<close>; no handler runs.
\<close>

definition EX_USAGE :: int where
  "EX_USAGE = 64"

definition after_argp :: "environment \<Rightarrow> string \<Rightarrow> ('s arguments \<times> 's) argp_answer \<Rightarrow> ('s \<Rightarrow> process_end io) \<Rightarrow> process_end io" where
  "after_argp E name r rest =
     (case r of
        Argp_Ok (_, a) \<Rightarrow> rest a
      | Argp_Throws e \<Rightarrow> io_report (env_what E) name (io_throw e)
      | _ \<Rightarrow> io_return (Exited EX_USAGE))"

definition exits :: "int io \<Rightarrow> process_end io" where
  "exits m = io_bind m (\<lambda>status. io_return (Exited status))"

type_synonym argp_split = "(string \<times> int) list \<Rightarrow> string \<Rightarrow> argp_event"

definition producer_main :: "argp_split \<Rightarrow> environment \<Rightarrow> string list \<Rightarrow> process_end io" where
  "producer_main split E argv =
     after_argp E ''producer''
       (drive producer_parser (argp_events split producer_options argv) (Arguments producer_items, ProducerArguments_fields))
       (\<lambda>a. exits (runAsProducer E a))"

definition consumer_main :: "argp_split \<Rightarrow> environment \<Rightarrow> string list \<Rightarrow> process_end io" where
  "consumer_main split E argv =
     after_argp E ''consumer''
       (drive consumer_parser (argp_events split consumer_options argv) (Arguments consumer_items, ConsumerArguments_fields))
       (\<lambda>a. exits (runAsConsumer E a))"

definition analyzer_main :: "argp_split \<Rightarrow> environment \<Rightarrow> string list \<Rightarrow> process_end io" where
  "analyzer_main split E argv =
     after_argp E ''analyzer''
       (drive analyzer_parser (argp_events split analyzer_options argv) (Arguments analyzer_items, AnalizerArguments_fields))
       (\<lambda>a. exits (runAsAnalyzer E a))"

text \<open>The system calls of \<open>run_test\<close>, in the process that is followed.\<close>

record processes =
  sys_fork :: "nat \<Rightarrow> int"
  sys_execv :: "string option list \<Rightarrow> bool"
  sys_wait :: "nat \<Rightarrow> int"

definition run_test_main :: "argp_split \<Rightarrow> environment \<Rightarrow> processes \<Rightarrow> string list \<Rightarrow> process_end io" where
  "run_test_main split E S argv =
     after_argp E ''run_test''
       (drive run_test_parser (argp_events split run_test_options argv) (Arguments run_test_items, RunTestArguments_fields))
       (\<lambda>a. case runAsRunTest (sys_fork S) (sys_execv S) (sys_wait S) (env_what E) (hd argv) a of
          (out, r) \<Rightarrow> io_bind (io_print out) (\<lambda>_.
            case r of
              Exit status _ \<Rightarrow> io_return (Exited status)
            | Image argv' \<Rightarrow> io_return (Became argv')
            | Throws e \<Rightarrow> io_throw e
            | Waits \<Rightarrow> (\<lambda>K h. None)))"

section \<open>The program\<close>

text \<open>
  \<open>main\<close>: the first argument selects the mode, unless it is one of \<open>argp\<close>'s own options, with which \<open>argp\<close> ends the
  process; \<open>own\<close> is its status then.
\<close>

definition main_program ::
  "argp_split \<Rightarrow> (string \<Rightarrow> int) \<Rightarrow> environment \<Rightarrow> processes \<Rightarrow> string list \<Rightarrow> process_end io" where
  "main_program split own E S argv =
     (case argv of
        program # mode # _ \<Rightarrow>
          if take 1 mode = ''-'' \<and> mode \<noteq> ''-'' then io_return (Exited (own mode))
          else (case main_parser (KEY_ARG mode) of
                  Main_Mode m \<Rightarrow> main_dispatch (producer_main split E argv) (consumer_main split E argv)
                    (analyzer_main split E argv) (run_test_main split E S argv) m
                | Main_Throws e \<Rightarrow> io_throw e
                | _ \<Rightarrow> io_return (Exited EX_USAGE))
      | _ \<Rightarrow> io_return (Exited EX_USAGE))"

section \<open>The children of a test\<close>

text \<open>The arguments as the children parse them.\<close>

definition producer_settings :: "u64 \<Rightarrow> u64 \<Rightarrow> ConnectionType \<Rightarrow> u64 \<Rightarrow> int \<Rightarrow> producer_args" where
  "producer_settings chunk_size chunks t n cpu = \<lparr>pa_chunks_size = Some chunk_size, pa_chunks_total_count = Some chunks,
     pa_connection = Some (t, connection_id kConsumerProducerClient t),
     pa_connection_buffer_size = Some (Some n),
     pa_measurer = Some (t, connection_id kMeasurerProducerClient t), pa_cpu = cpu\<rparr>"

definition consumer_settings :: "u64 \<Rightarrow> ConnectionType \<Rightarrow> u64 \<Rightarrow> int \<Rightarrow> consumer_args" where
  "consumer_settings chunks t n cpu = \<lparr>ca_chunks_total_count = Some chunks,
     ca_connection = Some (t, connection_id kConsumerProducerServer t), ca_connection_buffer_size = Some (Some n),
     ca_measurer = Some (t, connection_id kMeasurerConsumerClient t), ca_cpu = cpu\<rparr>"

definition analyzer_settings :: "u64 \<Rightarrow> ConnectionType \<Rightarrow> analyzer_args" where
  "analyzer_settings chunks t = \<lparr>aa_chunks_total_count = Some chunks,
     aa_measurer_producer = Some (t, connection_id kMeasurerProducerServer t),
     aa_measurer_consumer = Some (t, connection_id kMeasurerConsumerServer t)\<rparr>"

lemma child_runs:
  assumes "argp_long_options split" and "in_int cpu"
  shows "main_program split own E S (program # producer_arguments chunk_size chunks t n cpu) =
      exits (runAsProducer E (producer_settings chunk_size chunks t n cpu))"
    and "main_program split own E S (program # consumer_arguments chunks t n cpu) =
      exits (runAsConsumer E (consumer_settings chunks t n cpu))"
    and "main_program split own E S (program # analyzer_arguments chunks t) =
      exits (runAsAnalyzer E (analyzer_settings chunks t))"
proof -
  have mode: "main_parser (KEY_ARG ''producer'') = Main_Mode Mode_Producer"
    "main_parser (KEY_ARG ''consumer'') = Main_Mode Mode_Consumer"
    "main_parser (KEY_ARG ''analyzer'') = Main_Mode Mode_Analyzer"
    by (simp_all add: main_parser_def Convert_mode_def)
  show "main_program split own E S (program # producer_arguments chunk_size chunks t n cpu) =
      exits (runAsProducer E (producer_settings chunk_size chunks t n cpu))"
    using parse_producer [OF assms, of program chunk_size chunks t n]
    by (auto simp: main_program_def main_dispatch_def producer_main_def after_argp_def producer_settings_def
        producer_arguments_def mode)
  show "main_program split own E S (program # consumer_arguments chunks t n cpu) =
      exits (runAsConsumer E (consumer_settings chunks t n cpu))"
    using parse_consumer [OF assms, of program chunks t n]
    by (auto simp: main_program_def main_dispatch_def consumer_main_def after_argp_def consumer_settings_def
        consumer_arguments_def mode)
  show "main_program split own E S (program # analyzer_arguments chunks t) =
      exits (runAsAnalyzer E (analyzer_settings chunks t))"
    using parse_analyzer [OF assms(1), of program chunks t]
    by (auto simp: main_program_def main_dispatch_def analyzer_main_def after_argp_def analyzer_settings_def
        analyzer_arguments_def mode)
qed

end
