(* ===== verification/Whole_Test.thy ===== *)
theory Whole_Test
  imports Traffic Main_Program
begin

text \<open>
  A whole test over descriptors: the three modes from their arguments on, the producer's run, the consumer's
  run on what the producer wrote, and the analyzer's run on the ticks both wrote, down to the text of the report and
  the exit status of each.
\<close>

section \<open>The parts of the actors\<close>

lemma make_client_kind:
  "make_client t cid K h = Some (Inr c, h') \<Longrightarrow> client_in_memory c \<longleftrightarrow> t = kSharedMemory"
  by (cases t) (auto simp: make_client_def io_simps)

lemma Connect_kind:
  "client_Connect E c K h = Some (Inr (r, c'), h') \<Longrightarrow> client_in_memory c' \<longleftrightarrow> client_in_memory c"
  by (cases c) (auto simp: client_Connect_def keeping_def io_simps split: prod.splits)

lemma connect_kind:
  assumes run: "connect_loop E who c K h = Some (Inr c', h')"
  shows "client_in_memory c' \<longleftrightarrow> client_in_memory c"
proof -
  let ?P = "\<lambda>E who c K h (y :: client result \<times> history). \<forall>c'. fst y = Inr c' \<longrightarrow> client_in_memory c' = client_in_memory c"
  have "?P E who c K h (Inr c', h')"
  proof (rule connect_loop.raw_induct [where P = ?P, OF _ run], intro allI impI)
    fix loop E who c K h y c''
    assume IH: "\<And>E who c K h y. loop E who c K h = Some y \<Longrightarrow> ?P E who c K h y"
      and body: "Option.bind (connect_attempt E who c K h) (\<lambda>(r, h1).
        case r of Inl e \<Rightarrow> Some (Inl e, h1)
        | Inr (b, c') \<Rightarrow> if b then Some (Inr c', h1) else loop E who c' K h1) = Some y"
      and y: "fst y = Inr c''"
    from body obtain r h1 where 1: "connect_attempt E who c K h = Some (r, h1)"
      "(case r of Inl e \<Rightarrow> Some (Inl e, h1)
        | Inr (b, c') \<Rightarrow> if b then Some (Inr c', h1) else loop E who c' K h1) = Some y"
      by (auto simp: bind_eq_Some_conv)
    with y obtain b c1 where r: "r = Inr (b, c1)" by (cases r) auto
    then obtain q c2 h2 where 2: "client_Connect E c K h = Some (Inr (q, c2), h2)"
      and 3: "(case q of
        Inl e \<Rightarrow> io_guard (client_Close c2) (io_throw e)
      | Inr b \<Rightarrow> if b then io_return (True, c2)
          else io_bind (io_print (who @ ''Cannot connect to '' @ client_GetConnectionAddress c2 @ endl)) (\<lambda>_.
            io_bind (io_sleep 1) (\<lambda>_. io_return (False, c2)))) K h2 = Some (Inr (b, c1), h1)"
      using 1(1) unfolding r connect_attempt_def io_bind_run by fastforce
    then have "c1 = c2"
      by (cases q) (auto simp: io_simps split: if_splits)
    then have "client_in_memory c1 = client_in_memory c" using Connect_kind [OF 2] by simp
    then show "client_in_memory c'' = client_in_memory c"
      using 1(2) y IH by (auto simp: r split: if_splits)
  qed
  then show ?thesis by simp
qed

lemma make_server_kind:
  "make_server E t cid n K h = Some (Inr s, h') \<Longrightarrow> server_in_memory s \<longleftrightarrow> t = kSharedMemory"
  by (cases t) (auto simp: make_server_def io_simps)

lemma producer_parts:
  assumes "CreateProducer E a K h = Some (Inr p, h')"
    and "pa_chunks_size a = Some cs" and "pa_chunks_total_count a = Some n"
    and "pa_connection a = Some (t, i)" and "pa_measurer a = Some (t, j)"
  shows "SimpleRoundGenerator (env_impl E) (env_string_max E) cs n = Inr (pr_generator p)"
    and "Measurer (env_impl E) n = Inr (pr_measurer p)"
    and "pr_consumer_packer p = CreatePacker (env_host E) t" and "pr_measurer_packer p = CreatePacker (env_host E) t"
    and "client_in_memory (pr_consumer_client p) \<longleftrightarrow> t = kSharedMemory"
    and "client_in_memory (pr_measurer_client p) \<longleftrightarrow> t = kSharedMemory"
  using assms
  by (auto simp: CreateProducer_steps io_simps initialised_def Producer_MeasurerPackerParams_def
      Producer_ConsumerPackerParams_def Producer_MeasurerClientParams_def Producer_ConsumerClientParams_def
      connection_of_def optional_size_def rbind_Inr Producer_MeasurerPacker_def Producer_MeasurerClient_def
      Producer_ConsumerClient_def Let_def dest!: make_client_kind connect_kind split: option.splits)

lemma consumer_parts:
  assumes "CreateConsumer E a K h = Some (Inr c, h')" and "ca_chunks_total_count a = Some n"
    and "ca_connection a = Some (t, i)" and "ca_measurer a = Some (t, j)"
  shows "Measurer (env_impl E) n = Inr (co_measurer c)"
    and "co_producer_packer c = CreatePacker (env_host E) t" and "co_measurer_packer c = CreatePacker (env_host E) t"
    and "server_in_memory (co_producer_server c) \<longleftrightarrow> t = kSharedMemory"
    and "client_in_memory (co_measurer_client c) \<longleftrightarrow> t = kSharedMemory"
  using assms
  by (auto simp: CreateConsumer_steps io_simps initialised_def Consumer_MeasurerPackerParams_def
      Consumer_ProducerPackerParams_def Consumer_MeasurerClientParams_def Consumer_ProducerServerParams_def
      connection_of_def optional_size_def rbind_Inr Consumer_MeasurerPacker_def Consumer_ProducerPacker_def
      Consumer_MeasurerClient_def Consumer_ProducerServer_def Let_def
      dest!: make_client_kind connect_kind make_server_kind split: option.splits)

lemma analyzer_parts:
  assumes "CreateAnalyzer E a K h = Some (Inr z, h')" and "aa_chunks_total_count a = Some n"
    and "aa_measurer_producer a = Some (t, i)" and "aa_measurer_consumer a = Some (t, j)"
  shows "Measurer (env_impl E) n = Inr (an_consumer_measurer z)" and "Measurer (env_impl E) n = Inr (an_producer_measurer z)"
    and "an_consumer_packer z = CreatePacker (env_host E) t" and "an_producer_packer z = CreatePacker (env_host E) t"
    and "server_in_memory (an_consumer_server z) \<longleftrightarrow> t = kSharedMemory"
    and "server_in_memory (an_producer_server z) \<longleftrightarrow> t = kSharedMemory"
  using assms
  by (auto simp: CreateAnalyzer_steps io_simps initialised_def Analyzer_ConsumerPackerParams_def
      Analyzer_ProducerPackerParams_def Analyzer_ConsumerServerParams_def Analyzer_ProducerServerParams_def
      connection_of_def optional_size_def rbind_Inr Analyzer_ConsumerPacker_def Analyzer_ProducerPacker_def
      Analyzer_ConsumerServer_def Analyzer_ProducerServer_def dest!: make_server_kind split: option.splits)

section \<open>The modes around \<open>Run\<close>\<close>

fun idle :: "syscall \<Rightarrow> bool" where
  "idle (Sys_print _) = True"
| "idle (Sys_sleep _) = True"
| "idle (Sys_close _) = True"
| "idle (Sys_unlink _) = True"
| "idle (Sys_shm_unlink _) = True"
| "idle _ = False"

text \<open>A kernel in which printing, sleeping and closing come to an end.\<close>

definition attentive :: "kernel \<Rightarrow> bool" where
  "attentive K \<longleftrightarrow> (\<forall>h c. idle c \<longrightarrow> K h c \<noteq> None)"

text \<open>\<open>m\<close> returns \<open>x\<close> and says \<open>cs\<close>.\<close>

definition returns_saying :: "'a io \<Rightarrow> kernel \<Rightarrow> history \<Rightarrow> 'a \<Rightarrow> syscall list \<Rightarrow> bool" where
  "returns_saying m K h x cs \<longleftrightarrow> (\<exists>g. m K h = Some (Inr x, h @ g) \<and> said g = cs)"

lemma saying_bind:
  assumes "returns_saying m K h x cs" and "\<And>g. said g = cs \<Longrightarrow> returns_saying (f x) K (h @ g) y ds"
  shows "returns_saying (io_bind m f) K h y (cs @ ds)"
proof -
  obtain g where g: "m K h = Some (Inr x, h @ g)" "said g = cs" using assms(1) by (auto simp: returns_saying_def)
  obtain g' where "f x K (h @ g) = Some (Inr y, (h @ g) @ g')" "said g' = ds"
    using assms(2) [OF g(2)] by (auto simp: returns_saying_def)
  with g show ?thesis by (intro exI [of _ "g @ g'"] iffD2 [OF returns_saying_def] conjI) (auto simp: io_bind_def)
qed

lemma saying_return: "returns_saying (io_return x) K h x []"
  by (simp add: returns_saying_def io_return_def)

lemma saying_sys:
  assumes K: "attentive K" "idle c" and k: "\<And>r. returns_saying (k r) K (h @ [(c, r)]) x cs"
  shows "returns_saying (io_bind (sys c) k) K h x ((if says c then [c] else []) @ cs)"
proof -
  obtain r where r: "K h c = Some r" using K unfolding attentive_def by blast
  obtain g where "k r K (h @ [(c, r)]) = Some (Inr x, (h @ [(c, r)]) @ g)" "said g = cs"
    using k [of r] unfolding returns_saying_def by blast
  with r show ?thesis
    unfolding returns_saying_def by (intro exI [of _ "(c, r) # g"]) (simp add: io_bind_def sys_run)
qed

lemma saying_close:
  assumes "attentive K"
  shows "returns_saying (client_Close c) K h () []" and "returns_saying (server_Close s) K h () []"
proof -
  have one: "returns_saying (io_bind (sys c) (\<lambda>_. io_return ())) K h () []" if "idle c" "\<not> says c" for c h
    using saying_sys [where k = "\<lambda>_. io_return ()", OF assms that(1) saying_return] that(2) by simp
  have two: "returns_saying (io_bind (sys (Sys_close fd)) (\<lambda>_. io_bind (sys c) (\<lambda>_. io_return ()))) K h () []"
    if "idle c" "\<not> says c" for fd c
    using saying_sys [where k = "\<lambda>_. io_bind (sys c) (\<lambda>_. io_return ())" and c = "Sys_close fd", OF assms _ one [OF that]] by simp
  show "returns_saying (client_Close c) K h () []"
    by (cases c) (simp_all add: one NetSocketClient_Close_def PipeClient_Close_def SharedMemoryClient_Close_def UnixSocketClient_Close_def)
  show "returns_saying (server_Close s) K h () []"
    by (cases s) (simp_all add: one two NetSocketServer_Close_def PipeServer_Close_def SharedMemoryServer_Close_def UnixSocketServer_Close_def)
qed

lemma saying_destroy:
  assumes "attentive K"
  shows "returns_saying (producer_destroy p) K h () []" and "returns_saying (consumer_destroy c) K h () []"
    and "returns_saying (analyzer_destroy z) K h () []"
  using saying_bind [OF saying_close(1) [OF assms] saying_close(1) [OF assms]]
    saying_bind [OF saying_close(2) [OF assms] saying_close(1) [OF assms]]
    saying_bind [OF saying_close(2) [OF assms] saying_close(2) [OF assms]]
  unfolding producer_destroy_def consumer_destroy_def analyzer_destroy_def by simp_all

lemma saying_print:
  assumes "attentive K" and "\<And>r. returns_saying (k ()) K (h @ [(Sys_print s, r)]) x cs"
  shows "returns_saying (io_bind (io_print s) k) K h x (Sys_print s # cs)"
  using saying_sys [where k = "\<lambda>_. k ()" and c = "Sys_print s", OF assms(1) _ assms(2)]
  by (simp add: io_print_def io_bind_assoc)

lemma saying_sleep:
  assumes "attentive K" and "\<And>r. returns_saying (k ()) K (h @ [(Sys_sleep n, r)]) x cs"
  shows "returns_saying (io_bind (io_sleep n) k) K h x cs"
  using saying_sys [where k = "\<lambda>_. k ()" and c = "Sys_sleep n", OF assms(1) _ assms(2)]
  by (simp add: io_sleep_def io_bind_assoc)

lemma saying_then:
  assumes "returns_saying m K h x [c]" and "\<And>g. returns_saying (f x) K (h @ g) y ds"
  shows "returns_saying (io_bind m f) K h y (c # ds)"
  using saying_bind [where f = f, OF assms(1), of y ds] assms(2) by simp

lemma saying_scope:
  assumes "returns_saying m K h x cs" and "\<And>h. returns_saying destroy K h () []"
  shows "returns_saying (io_scope destroy m) K h x cs"
proof -
  have "returns_saying (io_guard destroy m) K h x cs" using assms(1) by (auto simp: returns_saying_def)
  have "returns_saying (io_bind destroy (\<lambda>_. io_return x)) K h' x []" for h'
    using saying_bind [OF assms(2) saying_return] by simp
  from saying_bind [where f = "\<lambda>x. io_bind destroy (\<lambda>_. io_return x)", OF \<open>returns_saying (io_guard destroy m) K h x cs\<close> this]
  show ?thesis by (simp add: io_scope_def)
qed

text \<open>A mode that has made its actor, with a \<open>Run\<close> that returns.\<close>

lemma mode_returns:
  assumes "affinity = Inr ()" and "create K h = Some (Inr x, h')" and "returns_saying (rest x) K h' y cs"
  shows "\<exists>g. io_report what name (io_bind (io_of_result affinity) (\<lambda>_. io_bind create rest)) K h = Some (Inr y, h' @ g) \<and>
    said g = cs"
  using assms by (auto simp: returns_saying_def io_report_def io_bind_def io_of_result_def)

text \<open>An environment in which messages of \<open>cs\<close> bytes and \<open>n\<close> ticks have room.\<close>

definition suits :: "environment \<Rightarrow> u64 \<Rightarrow> u64 \<Rightarrow> bool" where
  "suits E cs n \<longleftrightarrow> cs \<le> env_string_max E \<and> strings_fit (env_strings E) \<and>
     n \<le> vi_max_size (env_impl E) \<and> vi_reserve (env_impl E) n = unat n \<and>
     (\<forall>k < 2. buffer_inv (actor_buffer E k))"

lemma suits_measurer: "suits E cs n \<Longrightarrow> Measurer (env_impl E) n = Inr m \<Longrightarrow> measurer_rel (unat n) m []"
  using Measurer_rel [of "env_impl E" n] by (auto simp: suits_def)

lemma suits_buffer: "suits E cs n \<Longrightarrow> k < 2 \<Longrightarrow> buffer_inv (actor_buffer E k)"
  by (simp add: suits_def)

text \<open>The three processes of a test of \<open>n\<close> chunks of size \<open>cs\<close>, once their actors have been made.\<close>

lemma producer_mode:
  assumes "CreateProducer E a K [] = Some (Inr p, h)" and "suits E cs n" and "attentive K"
    and "pa_chunks_size a = Some cs" and "pa_chunks_total_count a = Some n"
    and "pa_connection a = Some (t, i)" and "pa_measurer a = Some (t, j)" and "t \<noteq> kSharedMemory"
    and "SchedSetAffinity (env_affinity E) (pa_cpu a) = Inr ()"
    and "length (elems (pr_generator p)) = unat n"
    and "\<forall>x \<in> set (elems (pr_generator p)). 8 + length x \<le> kBufferCapacityInBytes"
    and "takes_whole K (client_fd (pr_consumer_client p)) (message_wire (env_host E) t (pr_generator p))"
    and "takes_whole K (client_fd (pr_measurer_client p)) (tick_wire (env_host E) t (readings (env_clock E) (unat n)))"
  shows "\<exists>g. runAsProducer E a K [] = Some (Inr 0, h @ g) \<and>
    said g = [Sys_print (''[producer] Waiting 3s for syncronization with consumer...'' @ endl),
        Sys_print (''[producer] Ready to work. Working...'' @ endl)] @
      map (Sys_write (client_fd (pr_consumer_client p))) (message_wire (env_host E) t (pr_generator p)) @
      map (Sys_write (client_fd (pr_measurer_client p))) (tick_wire (env_host E) t (readings (env_clock E) (unat n))) @
      [Sys_print (''[producer] Finished work'' @ endl)]"
proof -
  note parts = producer_parts [OF assms(1,4-7)]
  have m: "measurer_rel (length (elems (pr_generator p))) (pr_measurer p) []"
    using suits_measurer [OF assms(2) parts(2)] assms(10) by simp
  have run: "returns_saying (run_producer E p) K h' ()
      (map (Sys_write (client_fd (pr_consumer_client p))) (message_wire (env_host E) t (pr_generator p)) @
       map (Sys_write (client_fd (pr_measurer_client p))) (tick_wire (env_host E) t (readings (env_clock E) (unat n))))" for h'
  proof -
    obtain m' b' where "Producer_Run (env_impl E) (env_clock E)
        (pr_consumer_packer p) (sending (client_Send E (pr_consumer_client p)) K)
        (pr_measurer_packer p) (sending (client_Send E (pr_measurer_client p)) K)
        (pr_generator p) (pr_measurer p) (actor_buffer E 0) h' = Some (Inr (m', b', h' @
          writes_of (client_fd (pr_consumer_client p)) (message_wire (env_host E) t (pr_generator p)) @
          writes_of (client_fd (pr_measurer_client p)) (tick_wire (env_host E) t (readings (env_clock E) (unat n)))))"
      using producer_traffic [OF assms(12) assms(13) [folded assms(10)] suits_buffer [OF assms(2), of 0] m assms(11),
          where impl = "env_impl E" and h = h'] assms(8,10) parts(3-6)
      by (auto simp: sending_client)
    then show ?thesis by (simp add: returns_saying_def run_producer_def io_of_outcome_def)
  qed
  show ?thesis
    unfolding runAsProducer_def
    by (rule mode_returns, rule assms(9), rule assms(1), rule saying_scope [OF _ saying_destroy(1) [OF assms(3)]],
        unfold append.simps, intro saying_print [OF assms(3)] saying_sleep [OF assms(3)],
        rule saying_bind [OF run, unfolded append_assoc], intro saying_print [OF assms(3)] saying_return)
qed

lemma consumer_mode:
  assumes "CreateConsumer E a K [] = Some (Inr c, h)" and "suits E cs n" and "attentive K"
    and "ca_chunks_total_count a = Some n"
    and "ca_connection a = Some (t, i)" and "ca_measurer a = Some (t, j)" and "t \<noteq> kSharedMemory"
    and "SchedSetAffinity (env_affinity E) (ca_cpu a) = Inr ()"
    and "length (elems gen) = unat n" and "\<forall>x \<in> set (elems gen). 8 + length x \<le> kBufferCapacityInBytes"
    and "pending K (server_fd (co_producer_server c)) h (message_wire (env_host E) t gen)"
    and "takes_whole K (client_fd (co_measurer_client c)) (tick_wire (env_host E) t (readings (env_clock E) (unat n)))"
  shows "\<exists>g. runAsConsumer E a K [] = Some (Inr 0, h @ g) \<and>
    said g = [Sys_print (''[consumer] Ready to work. Working...'' @ endl)] @
      map (Sys_write (client_fd (co_measurer_client c))) (tick_wire (env_host E) t (readings (env_clock E) (unat n))) @
      [Sys_print (''[consumer] Finished work'' @ endl)]"
proof -
  note parts = consumer_parts [OF assms(1,4-6)]
  have m: "measurer_rel (length (elems gen)) (co_measurer c) []"
    using suits_measurer [OF assms(2) parts(1)] assms(9) by simp
  have max: "strings_fit (env_strings E)" using assms(2) by (simp add: suits_def)
  have run: "returns_saying (run_consumer E c) K (h @ [(Sys_print s, r)]) ()
      (map (Sys_write (client_fd (co_measurer_client c))) (tick_wire (env_host E) t (readings (env_clock E) (unat n))))" for s r
  proof -
    have "pending K (server_fd (co_producer_server c)) (h @ [(Sys_print s, r)]) (message_wire (env_host E) t gen)"
      by (rule pending_other [OF assms(11)]) (simp add: reads_of_def)
    from consumer_traffic [OF assms(12) [folded assms(9)] suits_buffer [OF assms(2), of 0] m assms(10) max this,
        where impl = "env_impl E"] assms(7,9) parts(2-5)
    obtain m' b' where "Consumer_Run (env_impl E) (env_strings E) (env_clock E)
        (co_producer_packer c) (receiving (server_Receive E (co_producer_server c)) K)
        (co_measurer_packer c) (sending (client_Send E (co_measurer_client c)) K)
        (co_measurer c) (actor_buffer E 0) (h @ [(Sys_print s, r)]) = Some (Inr (m', b', (h @ [(Sys_print s, r)]) @
          reads_from (server_fd (co_producer_server c)) (message_wire (env_host E) t gen) @
          writes_of (client_fd (co_measurer_client c)) (tick_wire (env_host E) t (readings (env_clock E) (unat n)))))"
      by (auto simp: sending_client receiving_server)
    then show ?thesis by (simp add: returns_saying_def run_consumer_def io_of_outcome_def)
  qed
  show ?thesis
    unfolding runAsConsumer_def
    by (rule mode_returns, rule assms(8), rule assms(1), rule saying_scope [OF _ saying_destroy(2) [OF assms(3)]],
        unfold append.simps, rule saying_print [OF assms(3)], rule saying_bind [OF run], intro saying_print [OF assms(3)] saying_return)
qed

lemma analyzer_mode:
  assumes "CreateAnalyzer E a K [] = Some (Inr z, h)" and "suits E cs n" and "attentive K"
    and "aa_chunks_total_count a = Some n"
    and "aa_measurer_producer a = Some (t, i)" and "aa_measurer_consumer a = Some (t, j)" and "t \<noteq> kSharedMemory"
    and "0 < n" and "length ps = unat n" and "length cts = unat n"
    and "server_fd (an_consumer_server z) \<noteq> server_fd (an_producer_server z)"
    and "pending K (server_fd (an_consumer_server z)) h (tick_wire (env_host E) t cts)"
    and "pending K (server_fd (an_producer_server z)) h (tick_wire (env_host E) t ps)"
    and "ticks_ok ps cts" and "shippings_ok (shipping_times ps cts)"
  shows "\<exists>g qs. runAsAnalyzer E a K [] = Some (Inr 0, h @ g) \<and>
    said g = [Sys_print (''[analyzer] Ready to work. Working...'' @ endl),
      Sys_print (header_line (sint (time_since_epoch (last cts)) - sint (time_since_epoch (hd ps))) @
        concat (map2 quantile_line (map fst reported_quantiles) qs)),
      Sys_print (''[analyzer] Finished work'' @ endl)] \<and>
    qs = map (quantile_value (shipping_times ps cts)) [9999 / 10000, 999 / 1000, 99 / 100, 95 / 100, 1 / 2] \<and>
    length qs = 5 \<and> sorted_wrt (\<ge>) qs \<and>
    (\<forall>q \<in> set qs. Min (set (shipping_times ps cts)) \<le> q \<and> q \<le> Max (set (shipping_times ps cts)))"
proof -
  note parts = analyzer_parts [OF assms(1,4-6)]
  let ?fc = "server_fd (an_consumer_server z)" and ?fp = "server_fd (an_producer_server z)"
  define report where "report qs = header_line (sint (time_since_epoch (last cts)) - sint (time_since_epoch (hd ps))) @
    concat (map2 quantile_line (map fst reported_quantiles) qs)" for qs
  have ne: "ps \<noteq> []" using assms(8,9) by (auto simp: word_less_nat_alt)
  have "\<exists>qs. (\<forall>p c. elems p = ps \<and> elems c = cts \<longrightarrow> Process double_round p c = Some (Inr (report qs, Inr ()))) \<and>
    qs = map (quantile_value (shipping_times ps cts)) [9999 / 10000, 999 / 1000, 99 / 100, 95 / 100, 1 / 2] \<and>
    length qs = 5 \<and> sorted_wrt (\<ge>) qs \<and>
    (\<forall>q \<in> set qs. Min (set (shipping_times ps cts)) \<le> q \<and> q \<le> Max (set (shipping_times ps cts)))"
  proof -
    define p0 where "p0 = \<lparr>elems = ps, vcap = 0, iter = None\<rparr>"
    define c0 where "c0 = \<lparr>elems = cts, vcap = 0, iter = None\<rparr>"
    have e: "elems p0 = ps" "elems c0 = cts" and l: "length ps = length cts"
      using assms(9,10) by (simp_all add: p0_def c0_def)
    have same: "Process double_round p c = Process double_round p0 c0" if "elems p = ps" "elems c = cts" for p c
      using Process_pairs [of p c] Process_pairs [of p0 c0] that e l ne assms(14) by simp
    obtain qs where "Process double_round p0 c0 = Some (Inr (report qs, Inr ()))"
      "qs = map (quantile_value (shipping_times ps cts)) [9999 / 10000, 999 / 1000, 99 / 100, 95 / 100, 1 / 2]" "length qs = 5" "sorted_wrt (\<ge>) qs"
      "\<forall>q \<in> set qs. Min (set (shipping_times ps cts)) \<le> q \<and> q \<le> Max (set (shipping_times ps cts))"
      using Process_text [of p0 c0, unfolded e, OF l ne assms(14,15)] unfolding report_def by blast
    then show ?thesis using same by (intro exI [of _ qs]) simp
  qed
  then obtain qs where report: "\<And>p c. elems p = ps \<Longrightarrow> elems c = cts \<Longrightarrow> Process double_round p c = Some (Inr (report qs, Inr ()))"
    and qs: "qs = map (quantile_value (shipping_times ps cts)) [9999 / 10000, 999 / 1000, 99 / 100, 95 / 100, 1 / 2]" "length qs = 5" "sorted_wrt (\<ge>) qs"
      "\<forall>q \<in> set qs. Min (set (shipping_times ps cts)) \<le> q \<and> q \<le> Max (set (shipping_times ps cts))"
    by blast
  have run: "returns_saying (run_analyzer E z) K (h @ [(Sys_print s, r)]) () [Sys_print (report qs)]" for s r
  proof -
    have other: "pending K fd (h @ [(Sys_print s, r)]) ms" if "pending K fd h ms" for fd ms
      by (rule pending_other [OF that]) (simp add: reads_of_def)
    have links: "receiving (server_Receive E (an_consumer_server z)) K = fd_receive K ?fc"
      "receiving (server_Receive E (an_producer_server z)) K = fd_receive K ?fp"
      using assms(7) parts(5,6) by (simp_all add: receiving_server)
    obtain mc mp g where g: "elems mc = cts" "elems mp = ps" "said g = []"
      "Analyzer_Run double_round (env_impl E) (env_schedule E)
         (an_consumer_packer z) (receiving (server_Receive E (an_consumer_server z)) K)
         (an_producer_packer z) (receiving (server_Receive E (an_producer_server z)) K)
         (an_consumer_measurer z, actor_buffer E 0) (an_producer_measurer z, actor_buffer E 1) (h @ [(Sys_print s, r)]) =
       Option.bind (Process double_round mp mc) (\<lambda>q. obind (in_world ((h @ [(Sys_print s, r)]) @ g) q)
         (\<lambda>text. Some (Inr (text, (h @ [(Sys_print s, r)]) @ g))))"
      unfolding links parts(3,4)
      using analyzer_traffic [where fl = double_round and impl = "env_impl E" and schedule = "env_schedule E",
          OF suits_buffer [OF assms(2), of 0] suits_buffer [OF assms(2), of 1]
          suits_measurer [OF assms(2) parts(1)] suits_measurer [OF assms(2) parts(2)] assms(10,9,11)
          other [OF assms(12)] other [OF assms(13)]] by auto
    then have "returns_saying (io_of_outcome (\<lambda>K h. Analyzer_Run double_round (env_impl E) (env_schedule E)
         (an_consumer_packer z) (receiving (server_Receive E (an_consumer_server z)) K)
         (an_producer_packer z) (receiving (server_Receive E (an_producer_server z)) K)
         (an_consumer_measurer z, actor_buffer E 0) (an_producer_measurer z, actor_buffer E 1) h)) K (h @ [(Sys_print s, r)])
         (report qs, Inr ()) []"
      by (simp add: returns_saying_def io_of_outcome_def report)
    moreover have "returns_saying (io_bind (io_print (report qs)) (\<lambda>_. io_of_result (Inr ()))) K h' () [Sys_print (report qs)]" for h'
      unfolding io_of_Inr by (intro saying_print [OF assms(3)] saying_return)
    ultimately show ?thesis
      using saying_bind [where f = "\<lambda>(text, r). io_bind (io_print text) (\<lambda>_. io_of_result r)" and x = "(report qs, Inr ())"]
      unfolding run_analyzer_def by fastforce
  qed
  have "\<exists>g. runAsAnalyzer E a K [] = Some (Inr 0, h @ g) \<and>
    said g = [Sys_print (''[analyzer] Ready to work. Working...'' @ endl), Sys_print (report qs),
      Sys_print (''[analyzer] Finished work'' @ endl)]"
    unfolding runAsAnalyzer_def
    by (rule mode_returns [where affinity = "Inr ()", unfolded io_of_Inr io_bind_return], rule refl, rule assms(1),
      rule saying_scope [OF _ saying_destroy(3) [OF assms(3)]], rule saying_print [OF assms(3)],
      rule saying_then [OF run], intro saying_print [OF assms(3)] saying_return)
  with qs show ?thesis unfolding report_def by blast
qed

lemma exits_returns: "m K h = Some (Inr x, h') \<Longrightarrow> exits m K h = Some (Inr (Exited x), h')"
  by (simp add: exits_def io_bind_def io_return_def)

text \<open>The messages of the producer are as many as announced, and each fits in the buffer.\<close>

lemma generated_messages:
  assumes "CreateProducer E (producer_settings cs n t bs cpu) K [] = Some (Inr p, h)"
    and "unat n * unat cs < 2 ^ 64" and "8 + unat cs \<le> kBufferCapacityInBytes" and "suits E cs n"
  shows "length (elems (pr_generator p)) = unat n"
    and "\<forall>x \<in> set (elems (pr_generator p)). 8 + length x \<le> kBufferCapacityInBytes"
proof -
  let ?a = "unat (alphabet_size cs)"
  have "SimpleRoundGenerator (env_impl E) (env_string_max E) cs n = Inr (pr_generator p)"
    using producer_parts(1) [OF assms(1)] by (simp add: producer_settings_def)
  then have "elems (pr_generator p) = map (\<lambda>i. alphabet_run ?a (i * unat cs) (unat cs)) [0..<unat n]"
    using generator_run [OF assms(2), of "env_string_max E" "env_impl E"] assms(4) by (auto simp: suits_def)
  then show "length (elems (pr_generator p)) = unat n"
    "\<forall>x \<in> set (elems (pr_generator p)). 8 + length x \<le> kBufferCapacityInBytes"
    using assms(3) by auto
qed

section \<open>Properties\<close>

text \<open>C2: a whole test comes to its report.  Three processes are this program with the arguments \<open>run_test\<close> gives
  its children, for \<open>n\<close> chunks of \<open>cs\<close> bytes that fit the buffer, over any connection but shared memory, each having
  made its actor.  The streams between them are assumed: a write takes each message and each tick whole, and the
  reads of a server give what its client writes, one message at a time, complete and in order (a packet pipe does so up to
  \<open>PIPE_BUF\<close> bytes).  Then all
  three exit with status 0: the producer writes the \<open>n\<close> messages and then its \<open>n\<close> ticks; the consumer, given
  these messages, writes its \<open>n\<close> ticks; and the analyzer, given the ticks of both, in whatever order its two
  threads take turns, prints exactly the report of these ticks: the total time from the first tick of the producer to the
  last of the consumer, and the five quantiles interpolated between the sorted shipping times, which go down and lie
  between the shortest and the longest one.\<close>

theorem whole_test:
  assumes "argp_long_options split" and "in_int cpu_p" and "in_int cpu_c" and "t \<noteq> kSharedMemory"
    and "0 < n" and "unat n * unat cs < 2 ^ 64" and "8 + unat cs \<le> kBufferCapacityInBytes"
    and "suits Ep cs n" and "suits Ec cs n" and "suits Ea cs n"
    and "env_host Ec = env_host Ep" and "env_host Ea = env_host Ep"
    and "attentive Kp" and "attentive Kc" and "attentive Ka"
    and "SchedSetAffinity (env_affinity Ep) cpu_p = Inr ()" and "SchedSetAffinity (env_affinity Ec) cpu_c = Inr ()"
    and "CreateProducer Ep (producer_settings cs n t bs cpu_p) Kp [] = Some (Inr p, hp)"
    and "CreateConsumer Ec (consumer_settings n t bs cpu_c) Kc [] = Some (Inr c, hc)"
    and "CreateAnalyzer Ea (analyzer_settings n t) Ka [] = Some (Inr z, ha)"
    and "pending Kc (server_fd (co_producer_server c)) hc (message_wire (env_host Ep) t (pr_generator p))"
    and "server_fd (an_consumer_server z) \<noteq> server_fd (an_producer_server z)"
    and "pending Ka (server_fd (an_consumer_server z)) ha
      (tick_wire (env_host Ep) t (readings (env_clock Ec) (unat n)))"
    and "pending Ka (server_fd (an_producer_server z)) ha
      (tick_wire (env_host Ep) t (readings (env_clock Ep) (unat n)))"
    and "ticks_ok (readings (env_clock Ep) (unat n)) (readings (env_clock Ec) (unat n))"
    and "shippings_ok (shipping_times (readings (env_clock Ep) (unat n)) (readings (env_clock Ec) (unat n)))"
    and "takes_whole Kp (client_fd (pr_consumer_client p)) (message_wire (env_host Ep) t (pr_generator p))"
    and "takes_whole Kp (client_fd (pr_measurer_client p)) (tick_wire (env_host Ep) t (readings (env_clock Ep) (unat n)))"
    and "takes_whole Kc (client_fd (co_measurer_client c)) (tick_wire (env_host Ep) t (readings (env_clock Ec) (unat n)))"
  defines "ships \<equiv> shipping_times (readings (env_clock Ep) (unat n)) (readings (env_clock Ec) (unat n))"
  shows "(\<exists>g. main_program split own Ep S (program # producer_arguments cs n t bs cpu_p) Kp [] =
        Some (Inr (Exited 0), hp @ g) \<and>
      said g = [Sys_print (''[producer] Waiting 3s for syncronization with consumer...'' @ endl),
          Sys_print (''[producer] Ready to work. Working...'' @ endl)] @
        map (Sys_write (client_fd (pr_consumer_client p))) (message_wire (env_host Ep) t (pr_generator p)) @
        map (Sys_write (client_fd (pr_measurer_client p))) (tick_wire (env_host Ep) t (readings (env_clock Ep) (unat n))) @
        [Sys_print (''[producer] Finished work'' @ endl)]) \<and>
    (\<exists>g. main_program split own Ec S (program # consumer_arguments n t bs cpu_c) Kc [] =
        Some (Inr (Exited 0), hc @ g) \<and>
      said g = [Sys_print (''[consumer] Ready to work. Working...'' @ endl)] @
        map (Sys_write (client_fd (co_measurer_client c))) (tick_wire (env_host Ep) t (readings (env_clock Ec) (unat n))) @
        [Sys_print (''[consumer] Finished work'' @ endl)]) \<and>
    (\<exists>g qs. main_program split own Ea S (program # analyzer_arguments n t) Ka [] =
        Some (Inr (Exited 0), ha @ g) \<and>
      said g = [Sys_print (''[analyzer] Ready to work. Working...'' @ endl),
        Sys_print (header_line (sint (time_since_epoch (env_clock Ec (unat n - 1))) - sint (time_since_epoch (env_clock Ep 0))) @
          concat (map2 quantile_line (map fst reported_quantiles) qs)),
        Sys_print (''[analyzer] Finished work'' @ endl)] \<and>
      qs = map (quantile_value ships) [9999 / 10000, 999 / 1000, 99 / 100, 95 / 100, 1 / 2] \<and>
      length qs = 5 \<and> sorted_wrt (\<ge>) qs \<and> (\<forall>q \<in> set qs. Min (set ships) \<le> q \<and> q \<le> Max (set ships)))"
proof (intro conjI)
  let ?ps = "readings (env_clock Ep) (unat n)" and ?cs = "readings (env_clock Ec) (unat n)"
  note g = generated_messages [OF assms(18,6,7,8)]
  note runs = child_runs [OF assms(1,2)] child_runs [OF assms(1,3)]
  obtain gp where gp: "runAsProducer Ep (producer_settings cs n t bs cpu_p) Kp [] = Some (Inr 0, hp @ gp)"
    "said gp = [Sys_print (''[producer] Waiting 3s for syncronization with consumer...'' @ endl),
          Sys_print (''[producer] Ready to work. Working...'' @ endl)] @
        map (Sys_write (client_fd (pr_consumer_client p))) (message_wire (env_host Ep) t (pr_generator p)) @
        map (Sys_write (client_fd (pr_measurer_client p))) (tick_wire (env_host Ep) t ?ps) @
        [Sys_print (''[producer] Finished work'' @ endl)]"
    using producer_mode [OF assms(18,8,13) _ _ _ _ assms(4) _ g assms(27,28)] assms(16) by (auto simp: producer_settings_def)
  then show "\<exists>g. main_program split own Ep S (program # producer_arguments cs n t bs cpu_p) Kp [] =
        Some (Inr (Exited 0), hp @ g) \<and>
      said g = [Sys_print (''[producer] Waiting 3s for syncronization with consumer...'' @ endl),
          Sys_print (''[producer] Ready to work. Working...'' @ endl)] @
        map (Sys_write (client_fd (pr_consumer_client p))) (message_wire (env_host Ep) t (pr_generator p)) @
        map (Sys_write (client_fd (pr_measurer_client p))) (tick_wire (env_host Ep) t ?ps) @
        [Sys_print (''[producer] Finished work'' @ endl)]"
    unfolding runs by (intro exI [of _ gp] conjI exits_returns)
  obtain gc where gc: "runAsConsumer Ec (consumer_settings n t bs cpu_c) Kc [] = Some (Inr 0, hc @ gc)"
    "said gc = [Sys_print (''[consumer] Ready to work. Working...'' @ endl)] @
        map (Sys_write (client_fd (co_measurer_client c))) (tick_wire (env_host Ep) t ?cs) @
        [Sys_print (''[consumer] Finished work'' @ endl)]"
    using consumer_mode [OF assms(19,9,14) _ _ _ assms(4) _ g] assms(11,17,21,29) by (auto simp: consumer_settings_def)
  then show "\<exists>g. main_program split own Ec S (program # consumer_arguments n t bs cpu_c) Kc [] =
        Some (Inr (Exited 0), hc @ g) \<and>
      said g = [Sys_print (''[consumer] Ready to work. Working...'' @ endl)] @
        map (Sys_write (client_fd (co_measurer_client c))) (tick_wire (env_host Ep) t ?cs) @
        [Sys_print (''[consumer] Finished work'' @ endl)]"
    unfolding runs by (intro exI [of _ gc] conjI exits_returns)
  have n: "0 < unat n" using assms(5) by (simp add: word_less_nat_alt)
  have l: "length ?ps = unat n" "length ?cs = unat n" by (simp_all add: readings_def)
  have ends: "last ?cs = env_clock Ec (unat n - 1)" "hd ?ps = env_clock Ep 0"
    using n by (simp_all add: readings_def last_map hd_map)
  have "aa_chunks_total_count (analyzer_settings n t) = Some n"
    "aa_measurer_producer (analyzer_settings n t) = Some (t, connection_id kMeasurerProducerServer t)"
    "aa_measurer_consumer (analyzer_settings n t) = Some (t, connection_id kMeasurerConsumerServer t)"
    by (simp_all add: analyzer_settings_def)
  from analyzer_mode [OF assms(20,10,15) this assms(4,5) l assms(22), unfolded assms(12), OF assms(23-26)]
  show "\<exists>g qs. main_program split own Ea S (program # analyzer_arguments n t) Ka [] = Some (Inr (Exited 0), ha @ g) \<and>
      said g = [Sys_print (''[analyzer] Ready to work. Working...'' @ endl),
        Sys_print (header_line (sint (time_since_epoch (env_clock Ec (unat n - 1))) - sint (time_since_epoch (env_clock Ep 0))) @
          concat (map2 quantile_line (map fst reported_quantiles) qs)),
        Sys_print (''[analyzer] Finished work'' @ endl)] \<and>
      qs = map (quantile_value ships) [9999 / 10000, 999 / 1000, 99 / 100, 95 / 100, 1 / 2] \<and>
      length qs = 5 \<and> sorted_wrt (\<ge>) qs \<and> (\<forall>q \<in> set qs. Min (set ships) \<le> q \<and> q \<le> Max (set ships))"
    unfolding runs ships_def ends by (blast intro: exits_returns)
qed

text \<open>A kernel that obliges, and gives the messages \<open>streams fd\<close> to the reads of \<open>fd\<close>, one after the other.\<close>

definition feeding :: "(int \<Rightarrow> byte list list) \<Rightarrow> kernel" where
  "feeding streams h c =
     (case c of
        Sys_read fd _ \<Rightarrow> Some (Returns_Bytes (streams fd ! reads_of fd h))
      | _ \<Rightarrow> obliging_kernel h c)"

lemma attentive_feeding: "attentive (feeding streams)"
proof -
  have "feeding streams h c \<noteq> None" for h c
    by (simp add: feeding_def obliging_kernel_def split: syscall.split)
  then show ?thesis by (simp add: attentive_def)
qed

lemma takes_feeding: "takes_whole (feeding streams) fd ms"
  by (simp add: takes_whole_def feeding_def obliging_kernel_def)

lemma pending_feeding: "reads_of fd h = 0 \<Longrightarrow> pending (feeding streams) fd h (streams fd)"
  by (simp add: pending_def feeding_def reads_of_def)

lemma feeding_obliges: "\<not> (\<exists>fd n. c = Sys_read fd n) \<Longrightarrow> feeding streams h c = obliging_kernel h c"
  by (cases c) (simp_all add: feeding_def)

lemma pipe_settings:
  "Producer_MeasurerPackerParams (producer_settings cs n kPipe bs cpu) = Inr kPipe"
  "Producer_ConsumerPackerParams (producer_settings cs n kPipe bs cpu) = Inr kPipe"
  "Producer_MeasurerClientParams (producer_settings cs n kPipe bs cpu) =
    Inr (at_pipe ''ipc_checker_measurer_producer_id'')"
  "Producer_ConsumerClientParams (producer_settings cs n kPipe bs cpu) =
    Inr ((at_pipe ''ipc_checker_connection_id'')\<lparr>params_buffer_size := Some bs\<rparr>)"
  "Consumer_MeasurerPackerParams (consumer_settings n kPipe bs cpu) = Inr kPipe"
  "Consumer_ProducerPackerParams (consumer_settings n kPipe bs cpu) = Inr kPipe"
  "Consumer_MeasurerClientParams (consumer_settings n kPipe bs cpu) =
    Inr (at_pipe ''ipc_checker_measurer_consumer_id'')"
  "Consumer_ProducerServerParams (consumer_settings n kPipe bs cpu) =
    Inr ((at_pipe ''ipc_checker_connection_id'')\<lparr>params_buffer_size := Some bs\<rparr>)"
  "Analyzer_ConsumerPackerParams (analyzer_settings n kPipe) = Inr kPipe"
  "Analyzer_ProducerPackerParams (analyzer_settings n kPipe) = Inr kPipe"
  "Analyzer_ConsumerServerParams (analyzer_settings n kPipe) = Inr (at_pipe ''ipc_checker_measurer_consumer_id'')"
  "Analyzer_ProducerServerParams (analyzer_settings n kPipe) = Inr (at_pipe ''ipc_checker_measurer_producer_id'')"
  by (simp_all add: producer_settings_def consumer_settings_def analyzer_settings_def Producer_MeasurerPackerParams_def
      Producer_ConsumerPackerParams_def Producer_MeasurerClientParams_def Producer_ConsumerClientParams_def
      Consumer_MeasurerPackerParams_def Consumer_ProducerPackerParams_def Consumer_MeasurerClientParams_def
      Consumer_ProducerServerParams_def Analyzer_ConsumerPackerParams_def Analyzer_ProducerPackerParams_def
      Analyzer_ConsumerServerParams_def Analyzer_ProducerServerParams_def
      connection_of_def initialised_def optional_size_def at_pipe_def connection_ids)

lemma settings_counts:
  "pa_chunks_size (producer_settings cs n t bs cpu) = Some cs" "pa_chunks_total_count (producer_settings cs n t bs cpu) = Some n"
  "ca_chunks_total_count (consumer_settings n t bs cpu) = Some n" "aa_chunks_total_count (analyzer_settings n t) = Some n"
  by (simp_all add: producer_settings_def consumer_settings_def analyzer_settings_def)

lemma pipe_actors:
  assumes m: "Measurer (env_impl E) n = Inr m"
  shows "SimpleRoundGenerator (env_impl E) (env_string_max E) cs n = Inr g \<Longrightarrow>
      \<exists>p h. CreateProducer E (producer_settings cs n kPipe bs cpu) (feeding streams) [] = Some (Inr p, h)"
    and "\<exists>c h. CreateConsumer E (consumer_settings n kPipe bs cpu) (feeding streams) [] = Some (Inr c, h) \<and>
      server_fd (co_producer_server c) = 4 \<and> reads_of 4 h = 0"
    and "\<exists>z h. CreateAnalyzer E (analyzer_settings n kPipe) (feeding streams) [] = Some (Inr z, h) \<and>
      server_fd (an_consumer_server z) = 3 \<and> server_fd (an_producer_server z) = 4 \<and> reads_of 3 h = 0 \<and> reads_of 4 h = 0"
proof -
  note pipes = settings_counts CreateProducer_steps CreateConsumer_steps CreateAnalyzer_steps pipe_settings io_then_result net_run pipe_run run_simps
    feeding_obliges obliging_kernel_def Let_def at_pipe_def server_fd_def initialised_def
    Producer_MeasurerClient_def Producer_ConsumerClient_def Consumer_MeasurerClient_def Consumer_ProducerServer_def
    Analyzer_ConsumerServer_def Analyzer_ProducerServer_def reads_of_def m
  show "\<exists>z h. CreateAnalyzer E (analyzer_settings n kPipe) (feeding streams) [] = Some (Inr z, h) \<and>
      server_fd (an_consumer_server z) = 3 \<and> server_fd (an_producer_server z) = 4 \<and> reads_of 3 h = 0 \<and> reads_of 4 h = 0"
    by (simp add: pipes)
  show "\<exists>c h. CreateConsumer E (consumer_settings n kPipe bs cpu) (feeding streams) [] = Some (Inr c, h) \<and>
      server_fd (co_producer_server c) = 4 \<and> reads_of 4 h = 0"
    by (simp add: pipes)
  assume g: "SimpleRoundGenerator (env_impl E) (env_string_max E) cs n = Inr g"
  show "\<exists>p h. CreateProducer E (producer_settings cs n kPipe bs cpu) (feeding streams) [] = Some (Inr p, h)"
    by (simp add: pipes g PipeClient_SetBufferSize_def)
qed

text \<open>Two messages of 20 bytes over pipes, a tick every 10 nanoseconds, and 5 nanoseconds on the way.\<close>

theorem whole_test_witness:
  "\<exists>K h g qs. main_program split_long_option (\<lambda>_. 0) example_environment \<lparr>sys_fork = (\<lambda>_. 0), sys_execv = (\<lambda>_. True), sys_wait = (\<lambda>_. 0)\<rparr> (''ipc_checker'' # analyzer_arguments 2 kPipe) K [] =
      Some (Inr (Exited 0), h @ g) \<and>
    said g = [Sys_print (''[analyzer] Ready to work. Working...'' @ endl),
      Sys_print (header_line 15 @ concat (map2 quantile_line (map fst reported_quantiles) qs)),
      Sys_print (''[analyzer] Finished work'' @ endl)] \<and>
    length qs = 5 \<and> (\<forall>q \<in> set qs. q = 5)"
proof -
  let ?E = example_environment
  define Ec where "Ec = example_environment\<lparr>env_clock := (\<lambda>k. time_point (of_nat (10 * k + 5)))\<rparr>"
  let ?n = "unat (2 :: u64)"
  have "(2 :: u64) \<le> vi_max_size exact_vectors" "vi_reserve exact_vectors 2 = unat (2 :: u64)"
    by (simp_all add: exact_vectors_def)
  moreover have "buffer_inv (actor_buffer ?E k)" for k
    by (simp add: actor_buffer_def example_environment_def Buffer_init_inv)
  ultimately have suits: "suits ?E 20 2" "suits Ec 20 2"
    by (simp_all add: suits_def Ec_def example_environment_def env_strings_def strings_fit_def kBufferCapacityInBytes_def actor_buffer_def
        word_le_nat_alt)
  obtain g m where g: "SimpleRoundGenerator (env_impl ?E) (env_string_max ?E) 20 2 = Inr g"
    and m: "Measurer (env_impl ?E) 2 = Inr m" "Measurer (env_impl Ec) 2 = Inr m"
    using example_vectors by (auto simp: Ec_def)
  let ?tw = "\<lambda>E. tick_wire kLittle kPipe (readings (env_clock E) ?n)"
  obtain p hp where p: "CreateProducer ?E (producer_settings 20 2 kPipe 4096 (- 1)) (feeding (\<lambda>_. [])) [] = Some (Inr p, hp)"
    using pipe_actors(1) [OF m(1) g] by blast
  define Kc where "Kc = feeding (\<lambda>_. message_wire kLittle kPipe (pr_generator p))"
  define Ka where "Ka = feeding (\<lambda>fd. if fd = 3 then ?tw Ec else ?tw ?E)"
  obtain c hc where c: "CreateConsumer Ec (consumer_settings 2 kPipe 4096 (- 1)) Kc [] = Some (Inr c, hc)"
    "server_fd (co_producer_server c) = 4" "reads_of 4 hc = 0"
    using pipe_actors(2) [OF m(2)] unfolding Kc_def by blast
  obtain z ha where z: "CreateAnalyzer ?E (analyzer_settings 2 kPipe) Ka [] = Some (Inr z, ha)"
    "server_fd (an_consumer_server z) = 3" "server_fd (an_producer_server z) = 4" "reads_of 3 ha = 0" "reads_of 4 ha = 0"
    using pipe_actors(3) [OF m(1)] unfolding Ka_def by blast
  have r: "readings (env_clock ?E) ?n = [time_point 0, time_point 10]" "readings (env_clock Ec) ?n = [time_point 5, time_point 15]"
    by (simp_all add: readings_def Ec_def example_environment_def upt_conv_Cons)
  have s: "shipping_times (readings (env_clock ?E) ?n) (readings (env_clock Ec) ?n) = [5, 5]"
    unfolding r by (simp add: shipping_times_def)
  have e: "sint (time_since_epoch (env_clock Ec (?n - 1))) - sint (time_since_epoch (env_clock ?E 0)) = 15"
    by (simp add: Ec_def example_environment_def)
  have host: "env_host Ec = env_host ?E" "env_host ?E = kLittle" by (simp_all add: Ec_def example_environment_def)
  have cpu: "SchedSetAffinity (env_affinity ?E) (- 1) = Inr ()" "SchedSetAffinity (env_affinity Ec) (- 1) = Inr ()"
    by (simp_all add: SchedSetAffinity_def)
  have K: "attentive (feeding (\<lambda>_. []))" "attentive Kc" "attentive Ka" by (simp_all add: Kc_def Ka_def attentive_feeding)
  have takes: "takes_whole (feeding (\<lambda>_. [])) fd ms" "takes_whole Kc fd ms" for fd ms
    by (simp_all add: Kc_def takes_feeding)
  have pend: "pending Kc (server_fd (co_producer_server c)) hc (message_wire (env_host ?E) kPipe (pr_generator p))"
    "pending Ka (server_fd (an_consumer_server z)) ha (tick_wire (env_host ?E) kPipe (readings (env_clock Ec) ?n))"
    "pending Ka (server_fd (an_producer_server z)) ha (tick_wire (env_host ?E) kPipe (readings (env_clock ?E) ?n))"
    using pending_feeding [OF c(3)] pending_feeding [OF z(4), of "\<lambda>fd. if fd = 3 then ?tw Ec else ?tw ?E"]
      pending_feeding [OF z(5), of "\<lambda>fd. if fd = 3 then ?tw Ec else ?tw ?E"]
    by (simp_all add: Kc_def Ka_def c(2) z(2,3) host)
  have "in_int (- 1)" "kPipe \<noteq> kSharedMemory" "0 < (2 :: u64)" "?n * unat (20 :: u64) < 2 ^ 64"
    "8 + unat (20 :: u64) \<le> kBufferCapacityInBytes" "server_fd (an_consumer_server z) \<noteq> server_fd (an_producer_server z)"
    by (simp_all add: in_int_def kBufferCapacityInBytes_def z(2,3))
  note n = this
  have ok: "ticks_ok (readings (env_clock ?E) ?n) (readings (env_clock Ec) ?n)"
    "shippings_ok (shipping_times (readings (env_clock ?E) ?n) (readings (env_clock Ec) ?n))"
    unfolding r by (simp_all add: shipping_times_def ticks_ok_def shippings_ok_def)
  from whole_test [OF split_long_option_ok n(1,1-5) suits(1,2,1) host(1) refl K cpu p c(1) z(1) pend(1) n(6) pend(2,3) ok takes(1,1,2),
      where own = "\<lambda>_. 0" and S = "\<lparr>sys_fork = (\<lambda>_. 0), sys_execv = (\<lambda>_. True), sys_wait = (\<lambda>_. 0)\<rparr>" and program = "''ipc_checker''"]
  show ?thesis unfolding s e by fastforce
qed

end
