(* ===== verification/Spec2Isabelle.thy ===== *)
theory Spec2Isabelle
  imports Interfaces Hello_Tests Ring_Tests Quantiles_Test Endings Startup Shared_Test Whole_Test
begin

text \<open>
  A verification library of ipc-checker, a program that measures how long messages take between two processes
  over pipes, Unix sockets, SCTP sockets and a ring buffer in shared memory.

  \<^bold>\<open>The program.\<close>  One executable has four modes (\<open>src/src/main.cpp\<close>).  The producer
  makes messages, takes the time before each and sends it to the consumer, which takes the time after
  each; at the end both send their ticks, over connections of their own, to the analyzer, which
  pairs them and prints quantiles.  The mode \<open>run_test\<close> starts the other three as children.  The three actors
  (\<open>src/src/actors\<close>) are templates over a generator, measurers, packers, connectors and a buffer; the files
  \<open>src/src/run/src/as/*/run.cpp\<close> choose these from the command line.

  \<^bold>\<open>Conventions.\<close>  \<open>Prelude\<close>: a fallible operation returns \<open>cxx_error + 'a\<close>: an exception, a failed
  assertion or undefined behaviour; one that may also wait for ever returns an option of this,
  and one that works on a world (a history of system calls) returns the world with both, so that an error keeps what was done before it.  Machine
  integers are words, raw memory is a list of bytes with checked accesses.  The operating system is an argument:
  a kernel that answers each call given all calls before (\<open>System_Calls\<close>); operations extend the history of
  calls and answers.

  \<^bold>\<open>Shared memory\<close> (\<open>connectors/shared_memory/ring_buffer.cpp\<close>).  \<open>Ring_Buffer\<close> has every
  function of \<open>SPSCRingBuffer\<close> with its branch-free arithmetic on 32 bits.  \<open>Ring_Memory\<close> and \<open>Ring_Sequential\<close>
  relate index words to positions and the ring's bytes to a sequence of records.  \<open>Fifo\<close> states the contract of a
  bounded queue as a locale with the theorem on schedules; \<open>Ring_Queue\<close> interprets it on \<open>Push\<close> and
  \<open>Pop\<close>: they refine a list queue, and every branch of theirs is described.  \<open>Ring_Concurrent\<close> splits both into
  steps, one for each access to shared memory, which interleave freely; loads of an index may return old
  values, as release and acquire allow.  \<open>Ring_Safety\<close> proves by rule induction over the
  reachable configurations that what is popped is a prefix of what was pushed, that pending accesses never
  touch the same bytes, that no assertion fails, and that both sides never wait for each other.  \<open>Ring_Tests\<close> has the
  bodies of the unit tests (\<open>connectors/shared_memory/tests.cpp\<close>) and proves what they expect, for every number of iterations.

  \<^bold>\<open>Messages.\<close>  \<open>Buffer\<close> is the message buffer with its pointers as 64-bit addresses.
  \<open>Packers\<close> has the local and the network packer, the traits of strings, time points and structures; the contract
  of a packer is the locale \<open>word_packer\<close>, in which round trips are proved once.  \<open>Packing\<close> is the choice
  \<open>packer.hpp\<close> makes for an object from its type (an overload of the packer or the traits, recursively), for the kinds of
  object the program and its tests pack: numbers, views, strings, time points and the structure of the unit tests, which has a
  string inside.  What fits in the buffer comes back, from the same packer on the same host and between the network packers of
  two hosts; local packers of hosts of different byte order do not understand each other.  Whatever bytes are unpacked, the
  object keeps its type, or the buffer is too short, or \<open>resize\<close> throws \<open>std::length_error\<close> or \<open>std::bad_alloc\<close>.  The body of
  the packer test is run on it.

  \<^bold>\<open>Measuring.\<close>  \<open>Cursor\<close> is the protocol \<open>ToFirst\<close>, \<open>HasNext\<close>, \<open>Next\<close> as a locale with the
  loops over it; \<open>Measurer\<close> and \<open>Generator\<close> interpret it.  \<open>Doubles\<close> has rounding as a locale and binary64
  as its instance; \<open>Quantiles\<close> proves bounds and monotonicity for any rounding and that \<open>Get\<close> is the interpolated value
  \<open>quantile_value\<close>, \<open>Quantiles_Test\<close> runs the
  unit test of the quantiles on binary64.  \<open>Text\<close> has decimal numbers as text, \<open>Statistics\<close> the report: standard output with
  the locale it is given, and what is printed, which is read back line by line.

  \<^bold>\<open>Interfaces.\<close>  \<open>Interfaces\<close> has the macros of \<open>src/src/interface\<close> that declare the methods of an interface, the
  interfaces of the program and of its tests, and the store behind each, which holds an implementation or, when the type is a mock, the function
  mockers, and the action \<open>ReturnByMoveFromRef\<close>.  Google Mock is a parameter.  A mocked interface refines one in which every method has a mocker of its own.

  \<^bold>\<open>Command lines.\<close>  \<open>Arguments\<close> is the table of options, \<open>Command_Line\<close> the tables and parsers of the modes
  and the dispatch of \<open>main\<close>; \<open>Utils\<close> splits \<open>host:port\<close> and sets the affinity; \<open>Run_Test\<close>
  makes the arguments of the children, starts and awaits them, and proves that every child understands
  the arguments it is given and that the two ends of each connection meet.

  \<^bold>\<open>Connections.\<close>  \<open>Connectors\<close> has the eight connector classes, member by member, as sequences of system
  calls.  \<open>Descriptors\<close> shows who closes what, with the locale \<open>movable_owner\<close> interpreted on all of them; clients of Unix
  sockets and of shared memory are owners only in a part of their behaviour, which is stated with them, and \<open>Endings\<close> shows
  that they leak outside of it.
  \<open>Links\<close> states what the actors rely on as locales \<open>client_link\<close> and \<open>server_link\<close>, interpreted on
  descriptors and on the ring.  \<open>Hello_Tests\<close> has the bodies of the connectors' unit tests, which end with the
  string that was sent on every kernel that delivers what is written.

  \<^bold>\<open>The actors.\<close>  \<open>Actors\<close> has the \<open>Run\<close> functions over any connectors, with their loops proved in the link
  locales; the two threads of the analyzer take turns on one world under a schedule that is a parameter.
  \<open>Wiring\<close> has the choice of packers and connectors, the objects behind the interfaces \<open>IClient\<close> and \<open>IServer\<close> (the ring
  in shared memory is a parameter, whose changes are events of the history), the loop that waits for a server, and the
  scopes in which objects are destroyed when an exception passes.  \<open>Modes\<close> has \<open>ModeMaker::Make\<close>, the parameters and
  the \<open>runAs\<close> functions, which make an actor, run it on what was made and destroy it; \<open>Main_Program\<close> goes from
  \<open>main\<close> and \<open>argv\<close> through \<open>argp\<close> to the exit status of each mode.

  \<^bold>\<open>The whole.\<close>  \<open>Effects\<close> is a small logic: what every send and receive keeps, a whole \<open>Run\<close> keeps, on every path.
  With it \<open>Accounts\<close> proves that the producer closes what it opens on every path, its \<open>Run\<close> included.
  \<open>Pairing\<close> proves which packers meet on a connection, and how a client waits; \<open>Endings\<close> how a mode ends and what
  refused attempts to connect leave open; \<open>Startup\<close> reads off the calls of the three processes in which order each serves
  and joins its connections, and proves by rule induction over their interleavings that they
  all get to work; \<open>Shared_Test\<close> runs the loops of producer and consumer at the two ends of one ring, with every
  interleaving of their accesses, in steps that two lemmas tie to the turns of the loops in \<open>Actors\<close>.  \<open>Traffic\<close> says what each actor's \<open>Run\<close> writes and prints when all its input arrives;
  \<open>Whole_Test\<close> puts everything together: the three command lines of a test, through parsers, constructors, \<open>Run\<close> and
  destructors, to the text of the report and the exit status, over connections that are assumed to take (\<open>takes_whole\<close>) and to
  deliver (\<open>pending\<close>) each message whole and in order; a packet pipe does this for messages up to \<open>PIPE_BUF\<close> bytes.

  \<^bold>\<open>Bounds and loops.\<close>  No fuel is used.  Loops that end by counting are structural recursions; loops that wait
  for another process, or run over objects of unknown state, are \<open>partial_function (option)\<close>, where \<open>None\<close>
  is a loop that never ends, and the theorems say when they return.  Capacities of the ring are multiples of 4 below
  \<open>2 ^ 32\<close>, as the constructor enforces; the message buffer has 10000 bytes.

  \<^bold>\<open>Parameters.\<close>  The kernel, \<open>fork\<close>, \<open>execv\<close> and \<open>wait\<close>, \<open>argp\<close> (which event it makes of which
  argument), the clock, the capacity \<open>std::vector::reserve\<close> gives, the largest size of a string, the lengths for which
  \<open>std::string::resize\<close> finds memory when it is given a length out of a message (\<open>strings_fit\<close>: all that a buffer
  can hold), the byte order of the host and the text of \<open>what()\<close> are arguments of the definitions; hypotheses on them are stated where they are
  used, with a witness each.

  \<^bold>\<open>Not modelled.\<close>  The two tests that use mocks are sequences of expectations for Google Mock, whose
  sources are not here.  The moves of connectors into and out of \<open>std::variant\<close> are not shown in the modes, since \<open>Descriptors\<close> proves
  that they change nothing in the object moved to, and that what is left behind is destroyed by closing \<open>-1\<close> and, for the
  servers that have a name, unlinking what moving leaves of it.  The memory model is release and acquire on the two indices, with the
  absence of races as a theorem; the usage texts of the options are left out.  Memory for vectors and for the generator's
  messages is there whenever their size is allowed: \<open>std::bad_alloc\<close> is modelled only where a size comes out of a message.
\<close>

end
